(* ===== verification/Prelude.thy ===== *)
theory Prelude
  imports Main "HOL-Library.Word"
begin

text \<open>
  Shared vocabulary of the development: the names of the machine integers, the
  ordered map that stands for \<^verbatim>\<open>std::map\<close> (an association list sorted by key, with
  iterators as positions), the contract of an ordered map as a locale together
  with its interpretation on the association list, generic facts on lists and
  words, and a locale for invariants of step relations.
\<close>

section \<open>Machine integers and handles\<close>

type_synonym u8 = "8 word"
type_synonym u32 = "32 word"
type_synonym u64 = "64 word"

text \<open>
  A CUDA or HIP handle (context, stream, event, pointer) is the 64-bit value the
  code passes around; \<^verbatim>\<open>nullptr\<close> is zero.
\<close>

type_synonym handle = u64
type_synonym deviceptr = u64

abbreviation (input) null_handle :: handle where
  "null_handle \<equiv> 0"

text \<open>The results of the CUDA driver that the code tests for or returns itself.\<close>

definition CUDA_SUCCESS :: int where "CUDA_SUCCESS = 0"
definition CUDA_ERROR_INVALID_VALUE :: int where "CUDA_ERROR_INVALID_VALUE = 1"
definition CUDA_ERROR_DEVICE_UNAVAILABLE :: int where "CUDA_ERROR_DEVICE_UNAVAILABLE = 46"
definition CUDA_ERROR_INVALID_DEVICE :: int where "CUDA_ERROR_INVALID_DEVICE = 101"

text \<open>A C++ \<^verbatim>\<open>bool\<close> used as an integer in an unsigned sum.\<close>

definition bool_word :: "bool \<Rightarrow> u64" where
  "bool_word b = (if b then 1 else 0)"

named_theorems omap_simps \<open>rules for the ordered map and its iterators\<close>
named_theorems word_order \<open>rules that turn word inequalities into natural-number ones\<close>

declare word_le_nat_alt [word_order]
declare word_less_nat_alt [word_order]

section \<open>Words\<close>

lemma unat_diff [word_order]:
  fixes a b :: u64
  shows "a \<le> b \<Longrightarrow> unat (b - a) = unat b - unat a"
  by (rule unat_sub)

lemma word_diff_mono:
  fixes a b p :: u64
  assumes "a \<le> b" and "b \<le> p"
  shows "b - a \<le> p - a"
proof -
  have "a \<le> p" using assms by (rule order_trans)
  with assms show ?thesis by (simp add: word_le_nat_alt unat_sub)
qed

lemma word_not_less_diff:
  fixes a b p s :: u64
  assumes "a \<le> b" and "b \<le> p" and "\<not> b - a < s"
  shows "\<not> p - a < s"
  using word_diff_mono [OF assms(1,2)] assms(3) by (meson leD leI order_less_le_trans)

lemma unat_add_no_wrap:
  fixes a b :: u64
  assumes "unat a + unat b < 2 ^ 64"
  shows "unat (a + b) = unat a + unat b"
  using assms by (simp only: unat_word_ariths(1) mod_less len_of_numeral_defs) simp

lemma unat_lt_2_64: "unat (x :: u64) < 18446744073709551616"
  using unsigned_less [of x] by simp

text \<open>The overflow guard \<^verbatim>\<open>b > SIZE_MAX - a\<close>.\<close>

lemma size_max_guard:
  fixes a b :: u64
  shows "b > -1 - a \<longleftrightarrow> 2 ^ 64 \<le> unat a + unat b"
proof -
  have "unat (-1 - a) = 2 ^ 64 - 1 - unat a"
    using unat_sub [of a "-1"] by (simp add: unsigned_minus_1_eq_mask mask_eq_exp_minus_1)
  then show ?thesis using unat_lt_2_64 [of a] by (simp add: word_less_nat_alt) linarith
qed

lemma less_Suc_word:
  fixes x y :: u64
  assumes "x \<le> y" and "y \<noteq> -1"
  shows "x < y + 1"
proof -
  have "unat y \<noteq> unat (-1 :: u64)" using assms(2) by (simp only: word_unat_eq_iff not_False_eq_True)
  then have "unat y + 1 < 2 ^ 64"
    using unat_lt_2_64 [of y] by (simp add: unsigned_minus_1_eq_mask mask_eq_exp_minus_1)
  then have "unat (y + 1) = unat y + 1" by (simp add: unat_word_ariths)
  then show ?thesis using assms(1) by (simp add: word_le_nat_alt word_less_nat_alt)
qed

section \<open>Lists\<close>

lemma takeWhile_dropWhile_length:
  "drop (length (takeWhile P xs)) xs = dropWhile P xs"
  "take (length (takeWhile P xs)) xs = takeWhile P xs"
  by (induction xs) auto

lemma distinct_length_word:
  fixes ks :: "u64 list"
  assumes "distinct ks"
  shows "length ks \<le> 2 ^ 64"
proof -
  have "length ks = card (set ks)" using assms by (simp add: distinct_card)
  also have "\<dots> \<le> card (UNIV :: u64 set)" by (rule card_mono) simp_all
  also have "\<dots> = 2 ^ 64" by (subst card_word) simp
  finally show ?thesis .
qed

section \<open>The ordered map\<close>

text \<open>
  \<^verbatim>\<open>std::map<K, V>\<close> as its in-order traversal: a list of key/value pairs with strictly
  increasing keys. An iterator is a position in the list, and \<^verbatim>\<open>end()\<close> is its length.
\<close>

type_synonym ('k, 'v) omap = "('k \<times> 'v) list"

definition omap_ok :: "('k::linorder, 'v) omap \<Rightarrow> bool" where
  "omap_ok m = sorted_wrt (<) (map fst m)"

definition lower_bound :: "'k::linorder \<Rightarrow> ('k, 'v) omap \<Rightarrow> nat" where
  "lower_bound k m = length (takeWhile (\<lambda>e. fst e < k) m)"

definition upper_bound :: "'k::linorder \<Rightarrow> ('k, 'v) omap \<Rightarrow> nat" where
  "upper_bound k m = length (takeWhile (\<lambda>e. fst e \<le> k) m)"

definition insert_at :: "nat \<Rightarrow> 'a \<Rightarrow> 'a list \<Rightarrow> 'a list" where
  "insert_at i x xs = take i xs @ x # drop i xs"

definition erase_at :: "nat \<Rightarrow> 'a list \<Rightarrow> 'a list" where
  "erase_at i xs = take i xs @ drop (Suc i) xs"

text \<open>\<^verbatim>\<open>find\<close>, giving the iterator or \<^verbatim>\<open>end()\<close>.\<close>

definition omap_find :: "'k::linorder \<Rightarrow> ('k, 'v) omap \<Rightarrow> nat" where
  "omap_find k m = (let i = lower_bound k m in
     if i < length m \<and> fst (m ! i) = k then i else length m)"

text \<open>\<^verbatim>\<open>emplace\<close>: no effect on a key that is present; the iterator of the key.\<close>

definition omap_emplace :: "'k::linorder \<Rightarrow> 'v \<Rightarrow> ('k, 'v) omap \<Rightarrow> ('k, 'v) omap \<times> nat" where
  "omap_emplace k v m = (let i = lower_bound k m in
     if i < length m \<and> fst (m ! i) = k then (m, i) else (insert_at i (k, v) m, i))"

fun omap_put :: "'k::linorder \<Rightarrow> 'v \<Rightarrow> ('k, 'v) omap \<Rightarrow> ('k, 'v) omap" where
  "omap_put k v [] = [(k, v)]"
| "omap_put k v ((k', v') # m) =
     (if k < k' then (k, v) # (k', v') # m
      else if k = k' then (k, v) # m
      else (k', v') # omap_put k v m)"

definition omap_del :: "'k::linorder \<Rightarrow> ('k, 'v) omap \<Rightarrow> ('k, 'v) omap" where
  "omap_del k m = filter (\<lambda>e. fst e \<noteq> k) m"

lemma omap_ok_Nil [simp]: "omap_ok []"
  by (simp add: omap_ok_def)

lemma omap_ok_Cons [omap_simps]:
  "omap_ok (e # m) \<longleftrightarrow> (\<forall>e' \<in> set m. fst e < fst e') \<and> omap_ok m"
  by (auto simp: omap_ok_def)

lemma omap_ok_append [omap_simps]:
  "omap_ok (l @ r) \<longleftrightarrow> omap_ok l \<and> omap_ok r \<and> (\<forall>x \<in> set l. \<forall>y \<in> set r. fst x < fst y)"
  by (auto simp: omap_ok_def sorted_wrt_append)

lemma omap_ok_distinct: "omap_ok m \<Longrightarrow> distinct (map fst m)"
  by (simp add: omap_ok_def strict_sorted_iff)

lemma omap_ok_filter: "omap_ok m \<Longrightarrow> omap_ok (filter P m)"
  by (induction m) (auto simp: omap_simps)

lemma omap_ok_rebuild:
  "omap_ok m \<Longrightarrow> map fst m' = map fst m \<Longrightarrow> omap_ok m'"
  by (simp add: omap_ok_def)

lemma omap_put_map_of [simp]: "map_of (omap_put k v m) = (map_of m)(k \<mapsto> v)"
  by (induction k v m rule: omap_put.induct) (auto simp: fun_eq_iff)

lemma set_omap_put_keys: "fst ` set (omap_put k v m) = insert k (fst ` set m)"
  by (induction k v m rule: omap_put.induct) auto

lemma set_omap_put_subset: "set (omap_put k v m) \<subseteq> insert (k, v) (set m)"
  by (induction k v m rule: omap_put.induct) auto

lemma omap_put_above:
  assumes "\<forall>e \<in> set m. a < fst e" and "a < k"
  shows "\<forall>e \<in> set (omap_put k v m). a < fst e"
  using assms set_omap_put_subset [of k v m] by fastforce

lemma omap_put_ok: "omap_ok m \<Longrightarrow> omap_ok (omap_put k v m)"
proof (induction k v m rule: omap_put.induct)
  case (2 k v k' v' m)
  have above: "\<forall>y \<in> set m. k' < fst y" and ok: "omap_ok m"
    using "2.prems" by (simp_all add: omap_simps)
  consider "k < k'" | "k = k'" | "k' < k" by (rule linorder_cases)
  then show ?case
  proof cases
    case 1
    with above have "\<forall>y \<in> set m. k < fst y" by (blast intro: less_trans)
    with 1 above ok show ?thesis by (simp add: omap_simps)
  next
    case 2
    with above ok show ?thesis by (simp add: omap_simps)
  next
    case 3
    then have "omap_ok (omap_put k v m)" using "2.IH" ok by auto
    moreover have "\<not> k < k'" and "k \<noteq> k'" using 3 by auto
    ultimately show ?thesis using omap_put_above [OF above 3] by (simp add: omap_simps)
  qed
qed (simp add: omap_simps)

lemma omap_del_map_of [simp]: "map_of (omap_del k m) = (map_of m)(k := None)"
  by (induction m) (auto simp: omap_del_def fun_eq_iff)

lemma omap_del_ok: "omap_ok m \<Longrightarrow> omap_ok (omap_del k m)"
  by (simp add: omap_del_def omap_ok_filter)

lemma omap_map_of_iff: "omap_ok m \<Longrightarrow> map_of m k = Some v \<longleftrightarrow> (k, v) \<in> set m"
  by (rule map_of_eq_Some_iff) (rule omap_ok_distinct)

lemma set_omap_put:
  assumes "omap_ok m"
  shows "set (omap_put k v m) = insert (k, v) {e \<in> set m. fst e \<noteq> k}"
proof -
  have eq: "(a, b) \<in> set (omap_put k v m) \<longleftrightarrow> (if a = k then b = v else (a, b) \<in> set m)" for a b
    using omap_map_of_iff [OF omap_put_ok [OF assms, where k = k and v = v], of a b]
      omap_map_of_iff [OF assms, of a b]
    by (cases "a = k") auto
  show ?thesis by (auto simp: eq split: if_splits)
qed

text \<open>
  Every positional operation of the code goes through the split of the map at a
  key: the entries below it and the rest.
\<close>

lemma lower_bound_split:
  assumes "omap_ok m"
  obtains l r where "m = l @ r" "lower_bound k m = length l"
    "\<forall>e \<in> set l. fst e < k" "\<forall>e \<in> set r. k \<le> fst e"
proof
  let ?l = "takeWhile (\<lambda>e. fst e < k) m" and ?r = "dropWhile (\<lambda>e. fst e < k) m"
  show "m = ?l @ ?r" by simp
  show "lower_bound k m = length ?l" by (simp add: lower_bound_def)
  show "\<forall>e \<in> set ?l. fst e < k" using set_takeWhileD by fastforce
  show "\<forall>e \<in> set ?r. k \<le> fst e"
  proof (cases ?r)
    case Nil
    then show ?thesis unfolding Nil by simp
  next
    case (Cons e r)
    then have "k \<le> fst e" by (metis dropWhile_eq_Cons_conv leI)
    moreover have "omap_ok ?r" using assms by (metis omap_ok_append takeWhile_dropWhile_id)
    ultimately show ?thesis unfolding Cons by (auto simp: omap_simps)
  qed
qed

lemma upper_bound_split:
  assumes "omap_ok m"
  obtains l r where "m = l @ r" "upper_bound k m = length l"
    "\<forall>e \<in> set l. fst e \<le> k" "\<forall>e \<in> set r. k < fst e"
proof
  let ?l = "takeWhile (\<lambda>e. fst e \<le> k) m" and ?r = "dropWhile (\<lambda>e. fst e \<le> k) m"
  show "m = ?l @ ?r" by simp
  show "upper_bound k m = length ?l" by (simp add: upper_bound_def)
  show "\<forall>e \<in> set ?l. fst e \<le> k" using set_takeWhileD by fastforce
  show "\<forall>e \<in> set ?r. k < fst e"
  proof (cases ?r)
    case Nil
    then show ?thesis unfolding Nil by simp
  next
    case (Cons e r)
    then have "k < fst e" by (metis dropWhile_eq_Cons_conv leI)
    moreover have "omap_ok ?r" using assms by (metis omap_ok_append takeWhile_dropWhile_id)
    ultimately show ?thesis unfolding Cons by (auto simp: omap_simps)
  qed
qed

lemma insert_at_append [simp]: "insert_at (length l) x (l @ r) = l @ x # r"
  by (simp add: insert_at_def)

lemma insert_at_end [simp]: "insert_at (length l) x l = l @ [x]"
  by (simp add: insert_at_def)

lemma erase_at_append [simp]: "erase_at (length l) (l @ e # r) = l @ r"
  by (simp add: erase_at_def)

lemma omap_del_notin: "\<forall>e \<in> set m. fst e \<noteq> k \<Longrightarrow> omap_del k m = m"
  by (simp add: omap_del_def)

lemma omap_del_split:
  assumes "omap_ok (l @ (k, v) # r)"
  shows "omap_del k (l @ (k, v) # r) = l @ r"
proof -
  have "\<forall>e \<in> set l. fst e \<noteq> k" "\<forall>e \<in> set r. fst e \<noteq> k"
    using assms by (auto simp: omap_simps)
  then show ?thesis by (simp add: omap_del_def)
qed

lemma omap_put_split:
  assumes "\<forall>e \<in> set l. fst e < k" and "\<forall>e \<in> set r. k < fst e"
  shows "omap_put k v (l @ r) = l @ (k, v) # r"
  using assms
proof (induction l)
  case Nil
  then show ?case by (cases r) auto
next
  case (Cons e l)
  then show ?case by (cases e) auto
qed

lemma omap_put_split_same:
  assumes "\<forall>e \<in> set l. fst e < k"
  shows "omap_put k v (l @ (k, w) # r) = l @ (k, v) # r"
  using assms
proof (induction l)
  case (Cons e l)
  then show ?case by (cases e) auto
qed simp

lemma omap_locate:
  assumes "omap_ok m"
  obtains (hit) l v r where "m = l @ (k, v) # r" "lower_bound k m = length l"
      "\<forall>e \<in> set l. fst e < k" "\<forall>e \<in> set r. k < fst e" "omap_ok (l @ r)"
  | (miss) l r where "m = l @ r" "lower_bound k m = length l"
      "\<forall>e \<in> set l. fst e < k" "\<forall>e \<in> set r. k < fst e"
proof -
  obtain l r where s: "m = l @ r" "lower_bound k m = length l"
    "\<forall>e \<in> set l. fst e < k" "\<forall>e \<in> set r. k \<le> fst e"
    using lower_bound_split [OF assms] by metis
  show thesis
  proof (cases "r \<noteq> [] \<and> fst (hd r) = k")
    case True
    then obtain v r' where r: "r = (k, v) # r'" by (cases r) auto
    from assms s r have "\<forall>e \<in> set r'. k < fst e" "omap_ok (l @ r')" by (auto simp: omap_simps)
    with s r show thesis by (intro hit) auto
  next
    case False
    have "\<forall>e \<in> set r. k < fst e"
    proof (cases r)
      case (Cons e r')
      with False s(4) have "k < fst e" by auto
      moreover have "\<forall>e' \<in> set r'. fst e < fst e'" using assms s(1) Cons by (auto simp: omap_simps)
      ultimately show ?thesis using Cons by (auto dest: less_trans)
    qed simp
    with s show thesis by (intro miss) auto
  qed
qed

lemma omap_find_hit:
  assumes "omap_ok (l @ (k, v) # r)"
  shows "omap_find k (l @ (k, v) # r) = length l"
proof -
  have "\<forall>e \<in> set l. fst e < k" using assms by (simp add: omap_simps)
  then have "takeWhile (\<lambda>e. fst e < k) (l @ (k, v) # r) = l" by (simp add: takeWhile_append2)
  then show ?thesis by (simp add: omap_find_def lower_bound_def)
qed

lemma omap_emplace_hit:
  assumes "\<forall>e \<in> set l. fst e < k"
  shows "omap_emplace k v (l @ (k, w) # r) = (l @ (k, w) # r, length l)"
proof -
  have "takeWhile (\<lambda>e. fst e < k) (l @ (k, w) # r) = l" using assms by (simp add: takeWhile_append2)
  then show ?thesis by (simp add: omap_emplace_def lower_bound_def)
qed

lemma omap_emplace_miss:
  assumes "\<forall>e \<in> set l. fst e < k" and "\<forall>e \<in> set r. k < fst e"
  shows "omap_emplace k v (l @ r) = (l @ (k, v) # r, length l)"
proof -
  have "takeWhile (\<lambda>e. fst e < k) (l @ r) = l"
    using assms by (cases r) (auto simp: takeWhile_append2)
  then have "lower_bound k (l @ r) = length l" by (simp add: lower_bound_def)
  then show ?thesis using assms(2) by (cases r) (auto simp: omap_emplace_def Let_def)
qed

section \<open>The contract of an ordered map\<close>

text \<open>
  What the components rely on of a keyed container: a lookup after an update, an
  erase or on the empty container, and that both operations keep the invariant.
\<close>

locale keyed_store =
  fixes empty :: 'm
    and lookup :: "'m \<Rightarrow> 'k \<Rightarrow> 'v option"
    and update :: "'k \<Rightarrow> 'v \<Rightarrow> 'm \<Rightarrow> 'm"
    and remove :: "'k \<Rightarrow> 'm \<Rightarrow> 'm"
    and ok :: "'m \<Rightarrow> bool"
  assumes ok_empty: "ok empty"
    and lookup_empty: "lookup empty k = None"
    and ok_update: "ok m \<Longrightarrow> ok (update k v m)"
    and ok_remove: "ok m \<Longrightarrow> ok (remove k m)"
    and lookup_update: "ok m \<Longrightarrow> lookup (update k v m) k' = (if k' = k then Some v else lookup m k')"
    and lookup_remove: "ok m \<Longrightarrow> lookup (remove k m) k' = (if k' = k then None else lookup m k')"
begin

lemma update_remove_other:
  assumes "ok m" and "k \<noteq> k'"
  shows "lookup (update k v (remove k' m)) = lookup (remove k' (update k v m))"
  using assms by (simp add: fun_eq_iff ok_update ok_remove lookup_update lookup_remove)

lemma last_update_wins:
  assumes "ok m"
  shows "lookup (update k v' (update k v m)) = lookup (update k v' m)"
  using assms by (simp add: fun_eq_iff ok_update lookup_update)

lemma fold_update_ok:
  "ok m \<Longrightarrow> ok (fold (\<lambda>(k, v). update k v) kvs m)"
  by (induction kvs arbitrary: m) (auto simp: ok_update)

lemma fold_update_lookup:
  assumes "ok m"
  shows "lookup (fold (\<lambda>(k, v). update k v) kvs m) k
           = (case map_of (rev kvs) k of None \<Rightarrow> lookup m k | Some v \<Rightarrow> Some v)"
  using assms
  by (induction kvs arbitrary: m) (auto simp: ok_update lookup_update split: option.splits)

end

interpretation om: keyed_store "[]" map_of omap_put omap_del omap_ok
  by unfold_locales (auto simp: omap_put_ok omap_del_ok)

section \<open>Invariants of step relations\<close>

text \<open>
  A component whose operations interleave is a step relation on its state. The
  states it reaches, and the rule that carries an invariant to all of them, are
  the same for every component.
\<close>

inductive reachable :: "('s \<Rightarrow> bool) \<Rightarrow> ('s \<Rightarrow> 's \<Rightarrow> bool) \<Rightarrow> 's \<Rightarrow> bool"
  for init :: "'s \<Rightarrow> bool" and step :: "'s \<Rightarrow> 's \<Rightarrow> bool" where
  reach_init: "init s \<Longrightarrow> reachable init step s"
| reach_step: "reachable init step s \<Longrightarrow> step s s' \<Longrightarrow> reachable init step s'"

locale step_invariant =
  fixes init :: "'s \<Rightarrow> bool" and step :: "'s \<Rightarrow> 's \<Rightarrow> bool" and inv :: "'s \<Rightarrow> bool"
  assumes inv_init: "init s \<Longrightarrow> inv s"
    and inv_step: "inv s \<Longrightarrow> step s s' \<Longrightarrow> inv s'"
begin

lemma inv_reachable: "reachable init step s \<Longrightarrow> inv s"
  by (induction rule: reachable.induct) (auto intro: inv_init inv_step)

end

end
