(* ===== verification/Alloc_Cache.thy ===== *)
theory Alloc_Cache
  imports Prelude
begin

text \<open>
  The client's caches (\<^verbatim>\<open>cache.h\<close>, \<^verbatim>\<open>cache.cpp\<close>): the map from allocation bases to
  allocation records with its counter of overlapping neighbours, the cache of the
  device of the current context, and the per-lane cache of the current context.
  The allocation map is proved equivalent to a full scan, and its counter exact.
\<close>

unbundle bit_operations_syntax

section \<open>Device pointer allocations\<close>

record allocation_record =
  rec_size :: u64
  rec_route :: int
  rec_context :: handle

type_synonym deviceptr_allocations = "(deviceptr, allocation_record) omap"

record deviceptr_allocation_cache =
  allocations :: deviceptr_allocations
  overlapping_neighbors :: u64

definition empty_allocation_cache :: deviceptr_allocation_cache where
  "empty_allocation_cache = \<lparr>allocations = [], overlapping_neighbors = 0\<rparr>"

definition predecessor :: "deviceptr_allocations \<Rightarrow> nat \<Rightarrow> nat" where
  "predecessor m entry = (if entry = 0 then length m else entry - 1)"

definition overlaps :: "deviceptr_allocations \<Rightarrow> nat \<Rightarrow> nat \<Rightarrow> bool" where
  "overlaps m first second = (first \<noteq> length m \<and> second \<noteq> length m \<and>
     fst (m ! second) - fst (m ! first) < rec_size (snd (m ! first)))"

text \<open>
  Iterators of \<^verbatim>\<open>std::map\<close> stay with their element; as positions they move by one
  when an element is put in before them.
\<close>

definition iter_after_insert :: "nat \<Rightarrow> nat \<Rightarrow> nat" where
  "iter_after_insert pos i = (if pos \<le> i then Suc i else i)"

definition allocation_cache_erase ::
    "deviceptr \<Rightarrow> deviceptr_allocation_cache \<Rightarrow> deviceptr_allocation_cache" where
  "allocation_cache_erase base c = (let m = allocations c; entry = omap_find base m in
     if entry = length m then c
     else let previous = predecessor m entry; next = Suc entry;
              n = overlapping_neighbors c;
              n = n - bool_word (overlaps m previous entry);
              n = n - bool_word (overlaps m entry next);
              n = n + bool_word (overlaps m previous next)
          in c\<lparr>allocations := erase_at entry m, overlapping_neighbors := n\<rparr>)"

definition allocation_cache_insert ::
    "deviceptr \<Rightarrow> u64 \<Rightarrow> int \<Rightarrow> handle \<Rightarrow> deviceptr_allocation_cache \<Rightarrow> deviceptr_allocation_cache" where
  "allocation_cache_insert base sz route_id context c =
    (if base = 0 \<or> sz = 0 then allocation_cache_erase base c
     else let m = allocations c; n = overlapping_neighbors c; next = lower_bound base m;
              (m, n) = (if next \<noteq> length m \<and> fst (m ! next) = base
                 then let previous = predecessor m next; after = Suc next;
                          n = n - bool_word (overlaps m previous next);
                          n = n - bool_word (overlaps m next after);
                          n = n + bool_word (overlaps m previous after)
                      in (erase_at next m, n)
                 else (m, n));
              previous = predecessor m next;
              m' = insert_at next
                     (base, \<lparr>rec_size = sz, rec_route = route_id, rec_context = context\<rparr>) m;
              inserted = next;
              previous = iter_after_insert next previous;
              next = iter_after_insert inserted next;
              n = n - bool_word (overlaps m' previous next);
              n = n + bool_word (overlaps m' previous inserted);
              n = n + bool_word (overlaps m' inserted next)
          in c\<lparr>allocations := m', overlapping_neighbors := n\<rparr>)"

text \<open>The backward scan of the lookup, from the iterator \<^term>\<open>entry\<close> downwards.\<close>

fun lookup_scan :: "deviceptr_allocations \<Rightarrow> u64 \<Rightarrow> deviceptr \<Rightarrow> nat \<Rightarrow> allocation_record option" where
  "lookup_scan m n ptr 0 = None"
| "lookup_scan m n ptr (Suc entry) =
     (if ptr - fst (m ! entry) < rec_size (snd (m ! entry)) then Some (snd (m ! entry))
      else if n = 0 then None
      else lookup_scan m n ptr entry)"

definition allocation_cache_lookup ::
    "deviceptr \<Rightarrow> deviceptr_allocation_cache \<Rightarrow> allocation_record option" where
  "allocation_cache_lookup ptr c = lookup_scan (allocations c) (overlapping_neighbors c) ptr
     (upper_bound ptr (allocations c))"

fun other_route_scan ::
    "deviceptr_allocations \<Rightarrow> u64 \<Rightarrow> deviceptr \<Rightarrow> int \<Rightarrow> nat \<Rightarrow> bool" where
  "other_route_scan m n base route_id 0 = False"
| "other_route_scan m n base route_id (Suc entry) =
     (let overlap = (fst (m ! entry) \<ge> base \<or>
                     base - fst (m ! entry) < rec_size (snd (m ! entry)))
      in if overlap \<and> rec_route (snd (m ! entry)) \<noteq> route_id then True
         else if fst (m ! entry) < base \<and> n = 0 then False
         else other_route_scan m n base route_id entry)"

definition allocation_cache_overlaps_other_route ::
    "deviceptr \<Rightarrow> u64 \<Rightarrow> int \<Rightarrow> deviceptr_allocation_cache \<Rightarrow> bool" where
  "allocation_cache_overlaps_other_route base sz route_id c =
     other_route_scan (allocations c) (overlapping_neighbors c) base route_id
       (lower_bound (base + sz) (allocations c))"

section \<open>Current-context and lane caches\<close>

record current_context_device_cache_entry =
  cc_epoch :: u64
  cc_context :: handle
  cc_device :: int

record lane_context_cache_entry =
  lane_epoch :: u64
  lane_route_id :: int
  lane_context :: handle

text \<open>
  The two epochs are process-wide atomics; the entries belong to the calling
  thread, which is the thread the state describes.
\<close>

record context_caches =
  current_epoch :: u64
  current_entry :: current_context_device_cache_entry
  lanes_epoch :: u64
  lane_entries :: "lane_context_cache_entry list"

definition kLaneContextCacheSlots :: nat where
  "kLaneContextCacheSlots = 32"

definition initial_context_caches :: context_caches where
  "initial_context_caches = \<lparr>current_epoch = 1,
     current_entry = \<lparr>cc_epoch = 0, cc_context = null_handle, cc_device = -1\<rparr>,
     lanes_epoch = 1,
     lane_entries = replicate kLaneContextCacheSlots
       \<lparr>lane_epoch = 0, lane_route_id = -2, lane_context = null_handle\<rparr>\<rparr>"

text \<open>The slot index, or \<^term>\<open>None\<close> for the null entry of an invalid route.\<close>

definition lane_context_cache_entry_for :: "int \<Rightarrow> nat option" where
  "lane_context_cache_entry_for route_id =
     (if route_id < -1 then None
      else Some (unat ((word_of_int route_id :: u64) AND of_nat (kLaneContextCacheSlots - 1))))"

definition current_context_device_cache_lookup ::
    "handle \<Rightarrow> context_caches \<Rightarrow> int option" where
  "current_context_device_cache_lookup context s =
     (if context = null_handle \<or> cc_epoch (current_entry s) \<noteq> current_epoch s
         \<or> cc_context (current_entry s) \<noteq> context
      then None else Some (cc_device (current_entry s)))"

definition current_context_device_cache_insert ::
    "handle \<Rightarrow> int \<Rightarrow> context_caches \<Rightarrow> context_caches" where
  "current_context_device_cache_insert context device s =
     (if context = null_handle then s
      else s\<lparr>current_entry := \<lparr>cc_epoch = current_epoch s, cc_context = context, cc_device = device\<rparr>\<rparr>)"

definition current_context_device_cache_invalidate :: "context_caches \<Rightarrow> context_caches" where
  "current_context_device_cache_invalidate s = s\<lparr>current_epoch := current_epoch s + 1\<rparr>"

definition lane_context_cache_epoch :: "context_caches \<Rightarrow> u64" where
  "lane_context_cache_epoch s = lanes_epoch s"

definition lane_context_cache_matches :: "int \<Rightarrow> handle \<Rightarrow> context_caches \<Rightarrow> bool" where
  "lane_context_cache_matches route_id context s =
     (case lane_context_cache_entry_for route_id of
        None \<Rightarrow> False
      | Some slot \<Rightarrow> let entry = lane_entries s ! slot in
          lane_route_id entry = route_id \<and> lane_context entry = context \<and>
          lane_epoch entry = lanes_epoch s)"

definition lane_context_cache_update ::
    "int \<Rightarrow> handle \<Rightarrow> u64 \<Rightarrow> bool \<Rightarrow> context_caches \<Rightarrow> context_caches" where
  "lane_context_cache_update route_id context epoch succeeded s =
     (case lane_context_cache_entry_for route_id of
        None \<Rightarrow> s
      | Some slot \<Rightarrow> let entry = lane_entries s ! slot in
          if \<not> succeeded \<or> lanes_epoch s \<noteq> epoch
          then if lane_route_id entry = route_id
               then s\<lparr>lane_entries := (lane_entries s)[slot := entry\<lparr>lane_epoch := 0\<rparr>]\<rparr>
               else s
          else s\<lparr>lane_entries := (lane_entries s)[slot :=
                 \<lparr>lane_epoch = epoch, lane_route_id = route_id, lane_context = context\<rparr>]\<rparr>)"

definition lane_context_cache_store :: "int \<Rightarrow> handle \<Rightarrow> context_caches \<Rightarrow> context_caches" where
  "lane_context_cache_store route_id context s =
     lane_context_cache_update route_id context (lane_context_cache_epoch s) True s"

definition invalidate_current_context_cache :: "context_caches \<Rightarrow> context_caches" where
  "invalidate_current_context_cache s =
     (let s = current_context_device_cache_invalidate s in s\<lparr>lanes_epoch := lanes_epoch s + 1\<rparr>)"

definition note_device_binding_changed :: "context_caches \<Rightarrow> context_caches" where
  "note_device_binding_changed s =
     s\<lparr>lane_entries := map (\<lambda>entry. entry\<lparr>lane_epoch := 0\<rparr>) (lane_entries s)\<rparr>"

section \<open>Reference semantics\<close>

text \<open>An entry contains a pointer when the pointer lies in its byte range.\<close>

definition entry_contains :: "deviceptr \<times> allocation_record \<Rightarrow> deviceptr \<Rightarrow> bool" where
  "entry_contains e ptr = (fst e \<le> ptr \<and> ptr - fst e < rec_size (snd e))"

text \<open>The full scan: of all entries that contain the pointer, the one with the greatest base.\<close>

definition lookup_reference :: "deviceptr_allocations \<Rightarrow> deviceptr \<Rightarrow> allocation_record option" where
  "lookup_reference m ptr = map_option snd (find (\<lambda>e. entry_contains e ptr) (rev m))"

definition pair_overlaps ::
    "deviceptr \<times> allocation_record \<Rightarrow> deviceptr \<times> allocation_record \<Rightarrow> bool" where
  "pair_overlaps a b = (fst b - fst a < rec_size (snd a))"

text \<open>The number of neighbours in the map that overlap.\<close>

fun overlap_pairs :: "deviceptr_allocations \<Rightarrow> nat" where
  "overlap_pairs (a # b # m) = (if pair_overlaps a b then 1 else 0) + overlap_pairs (b # m)"
| "overlap_pairs m = 0"

definition entries_ok :: "deviceptr_allocations \<Rightarrow> bool" where
  "entries_ok m = (\<forall>e \<in> set m. fst e \<noteq> 0 \<and> rec_size (snd e) \<noteq> 0)"

definition allocation_cache_ok :: "deviceptr_allocation_cache \<Rightarrow> bool" where
  "allocation_cache_ok c = (omap_ok (allocations c) \<and> entries_ok (allocations c) \<and>
     overlapping_neighbors c = of_nat (overlap_pairs (allocations c)))"

text \<open>
  The abstract cache is a finite map from bases to records: an insert of a
  degenerate range forgets the base, any other insert replaces the record.
\<close>

datatype allocation_op =
    Insert deviceptr u64 int handle
  | Erase deviceptr

primrec run_op :: "allocation_op \<Rightarrow> deviceptr_allocation_cache \<Rightarrow> deviceptr_allocation_cache" where
  "run_op (Insert b sz rt ctx) c = allocation_cache_insert b sz rt ctx c"
| "run_op (Erase b) c = allocation_cache_erase b c"

primrec abs_op :: "allocation_op \<Rightarrow> (deviceptr \<rightharpoonup> allocation_record) \<Rightarrow> (deviceptr \<rightharpoonup> allocation_record)" where
  "abs_op (Insert b sz rt ctx) m =
     (if b = 0 \<or> sz = 0 then m(b := None)
      else m(b \<mapsto> \<lparr>rec_size = sz, rec_route = rt, rec_context = ctx\<rparr>))"
| "abs_op (Erase b) m = m(b := None)"

text \<open>
  The bytes \<^verbatim>\<open>[base, base + sz)\<close> and the bytes of an entry have one in common.
\<close>

definition ranges_meet :: "deviceptr \<Rightarrow> u64 \<Rightarrow> deviceptr \<times> allocation_record \<Rightarrow> bool" where
  "ranges_meet base sz e = (\<exists>p. base \<le> p \<and> p - base < sz \<and> entry_contains e p)"

text \<open>A lane or current-context entry never carries an epoch that is yet to come.\<close>

definition context_caches_ok :: "context_caches \<Rightarrow> bool" where
  "context_caches_ok s = (length (lane_entries s) = kLaneContextCacheSlots \<and>
     (\<forall>e \<in> set (lane_entries s). lane_epoch e \<le> lanes_epoch s) \<and> lanes_epoch s \<noteq> 0 \<and>
     cc_epoch (current_entry s) \<le> current_epoch s \<and> current_epoch s \<noteq> 0)"

text \<open>
  What a thread believes of its lanes: per slot, the route and context that are
  current there, if any.
\<close>

definition lanes_view :: "context_caches \<Rightarrow> nat \<Rightarrow> (int \<times> handle) option" where
  "lanes_view s slot =
     (if slot < kLaneContextCacheSlots \<and> lane_epoch (lane_entries s ! slot) = lanes_epoch s
      then Some (lane_route_id (lane_entries s ! slot), lane_context (lane_entries s ! slot))
      else None)"

definition view_update ::
    "int \<Rightarrow> handle \<Rightarrow> bool \<Rightarrow> (nat \<Rightarrow> (int \<times> handle) option) \<Rightarrow> (nat \<Rightarrow> (int \<times> handle) option)" where
  "view_update route_id context confirmed v =
     (case lane_context_cache_entry_for route_id of
        None \<Rightarrow> v
      | Some slot \<Rightarrow>
          if confirmed then v(slot \<mapsto> (route_id, context))
          else if \<exists>c. v slot = Some (route_id, c) then v(slot := None) else v)"

section \<open>The counter is exact\<close>

lemma overlap_pairs_append:
  "overlap_pairs (l @ r) = overlap_pairs l + overlap_pairs r +
     (if l \<noteq> [] \<and> r \<noteq> [] \<and> pair_overlaps (last l) (hd r) then 1 else 0)"
  by (induction l rule: overlap_pairs.induct) (cases r; auto)+

lemma overlaps_before:
  "overlaps (l @ e # r) (predecessor (l @ e # r) (length l)) (length l)
     = (l \<noteq> [] \<and> pair_overlaps (last l) e)"
  by (cases l rule: rev_cases) (auto simp: overlaps_def predecessor_def pair_overlaps_def nth_append)

lemma overlaps_after:
  "overlaps (l @ e # r) (length l) (Suc (length l)) = (r \<noteq> [] \<and> pair_overlaps e (hd r))"
  by (cases r) (auto simp: overlaps_def pair_overlaps_def nth_append)

lemma overlaps_around:
  "overlaps (l @ e # r) (predecessor (l @ e # r) (length l)) (Suc (length l))
     = (l \<noteq> [] \<and> r \<noteq> [] \<and> pair_overlaps (last l) (hd r))"
  by (cases l rule: rev_cases; cases r)
     (auto simp: overlaps_def predecessor_def pair_overlaps_def nth_append)

lemma predecessor_shift:
  "iter_after_insert (length l) (predecessor (l @ r) (length l)) = predecessor (l @ e # r) (length l)"
  by (cases l rule: rev_cases) (auto simp: iter_after_insert_def predecessor_def)

lemma iter_after_insert_self [simp]: "iter_after_insert i i = Suc i"
  by (simp add: iter_after_insert_def)

lemmas overlaps_at = overlaps_before overlaps_after overlaps_around

lemma counter_without:
  "of_nat (overlap_pairs (l @ e # r))
      - bool_word (l \<noteq> [] \<and> pair_overlaps (last l) e)
      - bool_word (r \<noteq> [] \<and> pair_overlaps e (hd r))
      + bool_word (l \<noteq> [] \<and> r \<noteq> [] \<and> pair_overlaps (last l) (hd r))
    = of_nat (overlap_pairs (l @ r))"
  using overlap_pairs_append [of l "e # r"] overlap_pairs_append [of "[e]" r]
  by (simp add: overlap_pairs_append [of l r] bool_word_def)

lemma counter_with:
  "of_nat (overlap_pairs (l @ r))
      - bool_word (l \<noteq> [] \<and> r \<noteq> [] \<and> pair_overlaps (last l) (hd r))
      + bool_word (l \<noteq> [] \<and> pair_overlaps (last l) e)
      + bool_word (r \<noteq> [] \<and> pair_overlaps e (hd r))
    = of_nat (overlap_pairs (l @ e # r))"
  using overlap_pairs_append [of l "e # r"] overlap_pairs_append [of "[e]" r]
  by (simp add: overlap_pairs_append [of l r] bool_word_def)

lemma overlap_pairs_less: "m \<noteq> [] \<Longrightarrow> overlap_pairs m < length m"
  by (induction m rule: overlap_pairs.induct) (auto split: if_splits)

text \<open>The counter cannot wrap: the bases are distinct 64-bit values.\<close>

lemma counter_zero_iff:
  assumes "allocation_cache_ok c"
  shows "overlapping_neighbors c = 0 \<longleftrightarrow> overlap_pairs (allocations c) = 0"
proof -
  let ?m = "allocations c"
  have "length ?m \<le> 2 ^ 64"
    using distinct_length_word [OF omap_ok_distinct] assms by (fastforce simp: allocation_cache_ok_def)
  then have "overlap_pairs ?m < 2 ^ 64"
    using overlap_pairs_less [of ?m] by (cases "?m = []") auto
  then show ?thesis
    using assms by (auto simp: allocation_cache_ok_def of_nat_eq_0_iff word_of_nat_eq_0_iff)
qed

section \<open>Erase and insert\<close>

lemma allocation_cache_erase_effect:
  assumes "allocation_cache_ok c"
  shows "allocations (allocation_cache_erase base c) = omap_del base (allocations c)"
    and "allocation_cache_ok (allocation_cache_erase base c)"
proof -
  let ?m = "allocations c"
  have ok: "omap_ok ?m" and ent: "entries_ok ?m"
    and cnt: "overlapping_neighbors c = of_nat (overlap_pairs ?m)"
    using assms by (auto simp: allocation_cache_ok_def)
  from ok have "allocations (allocation_cache_erase base c) = omap_del base ?m \<and>
                allocation_cache_ok (allocation_cache_erase base c)"
  proof (cases rule: omap_locate [where k = base])
    case (hit l v r)
    have "omap_del base ?m = l @ r" using ok hit(1) by (simp add: omap_del_split)
    moreover have "entries_ok (l @ r)" using ent hit(1) by (auto simp: entries_ok_def)
    ultimately show ?thesis
      using hit counter_without [of l "(base, v)" r]
      by (simp add: allocation_cache_erase_def omap_find_def Let_def overlaps_at cnt
          allocation_cache_ok_def)
  next
    case (miss l r)
    then have "r \<noteq> [] \<Longrightarrow> base < fst (hd r)" by (cases r) auto
    then have "omap_find base ?m = length ?m"
      using miss by (cases r) (auto simp: omap_find_def nth_append)
    moreover have "omap_del base ?m = ?m" using miss by (intro omap_del_notin) auto
    ultimately show ?thesis using assms by (simp add: allocation_cache_erase_def Let_def)
  qed
  then show "allocations (allocation_cache_erase base c) = omap_del base (allocations c)"
    and "allocation_cache_ok (allocation_cache_erase base c)" by blast+
qed

lemma allocation_cache_insert_effect:
  assumes "allocation_cache_ok c" and "base \<noteq> 0" and "sz \<noteq> 0"
  shows "allocations (allocation_cache_insert base sz rt ctx c)
           = omap_put base \<lparr>rec_size = sz, rec_route = rt, rec_context = ctx\<rparr> (allocations c) \<and>
         allocation_cache_ok (allocation_cache_insert base sz rt ctx c)"
proof -
  let ?m = "allocations c" and ?v = "\<lparr>rec_size = sz, rec_route = rt, rec_context = ctx\<rparr>"
  have ok: "omap_ok ?m" and ent: "entries_ok ?m"
    and cnt: "overlapping_neighbors c = of_nat (overlap_pairs ?m)"
    using assms by (auto simp: allocation_cache_ok_def)
  have put: "omap_ok (omap_put base ?v ?m)" using ok by (rule omap_put_ok)
  from ok show ?thesis
  proof (cases rule: omap_locate [where k = base])
    case (hit l v r)
    have eq: "omap_put base ?v ?m = l @ (base, ?v) # r" using hit by (simp add: omap_put_split_same)
    moreover have "entries_ok (l @ (base, ?v) # r)"
      using ent hit(1) assms by (auto simp: entries_ok_def)
    ultimately show ?thesis
      using hit assms(2,3) put counter_without [of l "(base, v)" r] counter_with [of l r "(base, ?v)"]
        predecessor_shift [of l r "(base, ?v)"]
      by (simp add: allocation_cache_insert_def Let_def overlaps_at cnt allocation_cache_ok_def)
  next
    case (miss l r)
    have eq: "omap_put base ?v ?m = l @ (base, ?v) # r" using miss by (simp add: omap_put_split)
    moreover have "entries_ok (l @ (base, ?v) # r)"
      using ent miss(1) assms by (auto simp: entries_ok_def)
    moreover have "(r \<noteq> [] \<and> fst ((l @ r) ! length l) = base) = False"
      using miss by (cases r) (auto simp: nth_append)
    ultimately show ?thesis
      using miss(1,2) assms(2,3) put counter_with [of l r "(base, ?v)"]
        predecessor_shift [of l r "(base, ?v)"]
      by (simp only: allocation_cache_insert_def Let_def) (cases r; simp add: overlaps_at cnt allocation_cache_ok_def)
  qed
qed

lemma allocation_cache_insert_degenerate:
  "base = 0 \<or> sz = 0 \<Longrightarrow> allocation_cache_insert base sz rt ctx c = allocation_cache_erase base c"
  by (simp add: allocation_cache_insert_def)

lemma allocation_cache_insert_ok:
  "allocation_cache_ok c \<Longrightarrow> allocation_cache_ok (allocation_cache_insert base sz rt ctx c)"
  using allocation_cache_insert_effect allocation_cache_insert_degenerate
    allocation_cache_erase_effect(2) by metis

lemma empty_allocation_cache_ok: "allocation_cache_ok empty_allocation_cache"
  by (simp add: empty_allocation_cache_def allocation_cache_ok_def entries_ok_def)

section \<open>The lookup finds what a full scan finds\<close>

lemma disjoint_before:
  assumes "omap_ok (l @ [e])" and "overlap_pairs (l @ [e]) = 0" and "x \<in> set l"
  shows "\<not> fst e - fst x < rec_size (snd x)"
  using assms
proof (induction l)
  case (Cons y l)
  show ?case
  proof (cases "x = y")
    case False
    with Cons show ?thesis by (cases "l @ [e]") (auto simp: omap_simps split: if_splits)
  next
    case True
    show ?thesis
    proof (cases l)
      case Nil
      with Cons.prems True show ?thesis by (auto simp: pair_overlaps_def split: if_splits)
    next
      case (Cons z l')
      have "\<not> fst z - fst x < rec_size (snd x)"
        using Cons.prems(2) True Cons by (auto simp: pair_overlaps_def split: if_splits)
      moreover have "fst x \<le> fst z" "fst z \<le> fst e"
        using Cons.prems(1) True Cons by (auto simp: omap_simps)
      ultimately show ?thesis by (metis word_not_less_diff)
    qed
  qed
qed simp

lemma overlap_pairs_take: "overlap_pairs m = 0 \<Longrightarrow> overlap_pairs (take i m) = 0"
  using overlap_pairs_append [of "take i m" "drop i m"] by simp

lemma disjoint_take:
  assumes "omap_ok m" and "overlap_pairs m = 0" and "i < length m" and "x \<in> set (take i m)"
  shows "\<not> fst (m ! i) - fst x < rec_size (snd x) \<and> fst x < fst (m ! i)"
proof -
  have split: "take (Suc i) m = take i m @ [m ! i]" using assms(3) by (simp add: take_Suc_conv_app_nth)
  have "omap_ok (take (Suc i) m)"
    using assms(1) by (metis append_take_drop_id omap_ok_append)
  with split have ok: "omap_ok (take i m @ [m ! i])" by simp
  have "overlap_pairs (take i m @ [m ! i]) = 0"
    using overlap_pairs_take [OF assms(2), of "Suc i"] split by simp
  with ok assms(4) have "\<not> fst (m ! i) - fst x < rec_size (snd x)" by (metis disjoint_before)
  with ok assms(4) show ?thesis by (auto simp: omap_simps)
qed

lemma find_rev_Suc:
  assumes "i < length m"
  shows "find P (rev (take (Suc i) m)) = (if P (m ! i) then Some (m ! i) else find P (rev (take i m)))"
  using assms by (simp add: take_Suc_conv_app_nth)

lemma lookup_scan_eq:
  assumes "omap_ok m" and "n = 0 \<Longrightarrow> overlap_pairs m = 0"
    and "i \<le> length m" and "\<forall>e \<in> set (take i m). fst e \<le> ptr"
  shows "lookup_scan m n ptr i = map_option snd (find (\<lambda>e. entry_contains e ptr) (rev (take i m)))"
  using assms(3,4)
proof (induction i)
  case (Suc i)
  then have i: "i < length m" by simp
  have sub: "\<forall>e \<in> set (take i m). fst e \<le> ptr" and le: "fst (m ! i) \<le> ptr"
    using Suc.prems by (simp_all add: take_Suc_conv_app_nth)
  show ?case
  proof (cases "ptr - fst (m ! i) < rec_size (snd (m ! i))")
    case True
    with i le show ?thesis by (simp add: find_rev_Suc entry_contains_def)
  next
    case False
    then have "\<not> entry_contains (m ! i) ptr" by (simp add: entry_contains_def)
    moreover have "n = 0 \<Longrightarrow> find (\<lambda>e. entry_contains e ptr) (rev (take i m)) = None"
    proof -
      assume "n = 0"
      then have "\<not> entry_contains x ptr" if "x \<in> set (take i m)" for x
        using disjoint_take [OF assms(1) assms(2) i that] le word_not_less_diff [of "fst x" "fst (m ! i)" ptr]
        by (auto simp: entry_contains_def)
      then show ?thesis by (auto simp: find_None_iff)
    qed
    ultimately show ?thesis using i False Suc.IH sub by (auto simp: find_rev_Suc)
  qed
qed simp

lemma find_append: "find P (xs @ ys) = (case find P xs of None \<Rightarrow> find P ys | r \<Rightarrow> r)"
  by (induction xs) auto

lemma allocation_cache_lookup_eq:
  assumes "allocation_cache_ok c"
  shows "allocation_cache_lookup ptr c = lookup_reference (allocations c) ptr"
proof -
  let ?m = "allocations c"
  have ok: "omap_ok ?m" using assms by (simp add: allocation_cache_ok_def)
  obtain l r where s: "?m = l @ r" "upper_bound ptr ?m = length l"
    "\<forall>e \<in> set l. fst e \<le> ptr" "\<forall>e \<in> set r. ptr < fst e"
    using upper_bound_split [OF ok] by metis
  have "find (\<lambda>e. entry_contains e ptr) (rev r) = None"
    using s(4) by (auto simp: find_None_iff entry_contains_def)
  then have "lookup_reference ?m ptr = map_option snd (find (\<lambda>e. entry_contains e ptr) (rev l))"
    using s(1) by (simp add: lookup_reference_def find_append)
  also have "\<dots> = lookup_scan ?m (overlapping_neighbors c) ptr (length l)"
    using lookup_scan_eq [OF ok, of "overlapping_neighbors c" "length l" ptr]
      counter_zero_iff [OF assms] s by simp
  finally show ?thesis using s(2) by (simp add: allocation_cache_lookup_def)
qed

lemma find_rev_greatest:
  assumes "omap_ok m"
  shows "find P (rev m) = Some e \<longleftrightarrow> e \<in> set m \<and> P e \<and> (\<forall>e' \<in> set m. P e' \<longrightarrow> fst e' \<le> fst e)"
  using assms
proof (induction m rule: rev_induct)
  case (snoc x m)
  have ok: "omap_ok m" and lt: "\<forall>e' \<in> set m. fst e' < fst x"
    using snoc.prems by (auto simp: omap_simps)
  show ?case
  proof (cases "P x")
    case True
    have "e = x" if "e \<in> set (m @ [x])" "fst x \<le> fst e" for e using that lt by auto
    then show ?thesis using True lt by (auto intro: less_imp_le)
  next
    case False
    then show ?thesis using snoc.IH [OF ok] by auto
  qed
qed simp

lemma lookup_reference_Some:
  assumes "omap_ok m"
  shows "lookup_reference m ptr = Some r \<longleftrightarrow>
    (\<exists>b. (b, r) \<in> set m \<and> entry_contains (b, r) ptr \<and>
         (\<forall>e \<in> set m. entry_contains e ptr \<longrightarrow> fst e \<le> b))"
  unfolding lookup_reference_def by (auto simp: find_rev_greatest [OF assms])

lemma lookup_reference_None:
  "lookup_reference m ptr = None \<longleftrightarrow> (\<forall>e \<in> set m. \<not> entry_contains e ptr)"
  unfolding lookup_reference_def by (auto simp: find_None_iff)

lemma run_op_refines:
  assumes "allocation_cache_ok c"
  shows "allocation_cache_ok (run_op opr c)"
    and "map_of (allocations (run_op opr c)) = abs_op opr (map_of (allocations c))"
  using assms allocation_cache_erase_effect [OF assms] allocation_cache_insert_effect [OF assms]
    allocation_cache_insert_ok [OF assms] allocation_cache_insert_degenerate
  by (cases opr; simp)+

lemma run_ops_refines:
  assumes "allocation_cache_ok c"
  shows "allocation_cache_ok (fold run_op ops c) \<and>
         map_of (allocations (fold run_op ops c)) = fold abs_op ops (map_of (allocations c))"
  using assms
proof (induction ops arbitrary: c)
  case (Cons opr ops)
  then show ?case using run_op_refines [OF Cons.prems, of opr] by simp
qed simp

section \<open>Overlap with another route\<close>

lemma ranges_meet_below:
  assumes "unat base + unat sz < 2 ^ 64" and "rec_size (snd e) \<noteq> 0" and "sz \<noteq> 0"
    and "fst e < base + sz"
  shows "ranges_meet base sz e \<longleftrightarrow> base \<le> fst e \<or> base - fst e < rec_size (snd e)"
proof
  assume "ranges_meet base sz e"
  then obtain p where p: "base \<le> p" "fst e \<le> p" "p - fst e < rec_size (snd e)"
    by (auto simp: ranges_meet_def entry_contains_def)
  show "base \<le> fst e \<or> base - fst e < rec_size (snd e)"
  proof (cases "base \<le> fst e")
    case False
    then have "base - fst e \<le> p - fst e" using p word_diff_mono [of "fst e" base p] by simp
    then show ?thesis using p(3) le_less_trans by blast
  qed simp
next
  assume h: "base \<le> fst e \<or> base - fst e < rec_size (snd e)"
  have end_eq: "unat (base + sz) = unat base + unat sz" using assms(1) by (rule unat_add_no_wrap)
  show "ranges_meet base sz e"
  proof (cases "base \<le> fst e")
    case True
    have "fst e - base < sz"
      using assms(4) True end_eq by (simp add: word_less_nat_alt unat_sub word_le_nat_alt)
    then have "base \<le> fst e \<and> fst e - base < sz \<and> entry_contains e (fst e)"
      using True assms(2) by (simp add: entry_contains_def word_neq_0_conv)
    then show ?thesis unfolding ranges_meet_def by blast
  next
    case False
    then have "base \<le> base \<and> base - base < sz \<and> entry_contains e base"
      using h assms(3) by (simp add: entry_contains_def word_neq_0_conv)
    then show ?thesis unfolding ranges_meet_def by blast
  qed
qed

lemma ranges_meet_above:
  assumes "unat base + unat sz < 2 ^ 64" and "base + sz \<le> fst e"
  shows "\<not> ranges_meet base sz e"
  using assms unat_add_no_wrap [OF assms(1)]
  by (auto simp: ranges_meet_def entry_contains_def word_le_nat_alt word_less_nat_alt unat_sub)

lemma other_route_scan_eq:
  assumes "omap_ok m" and "n = 0 \<Longrightarrow> overlap_pairs m = 0" and "i \<le> length m"
  shows "other_route_scan m n base rt i \<longleftrightarrow>
    (\<exists>e \<in> set (take i m). (base \<le> fst e \<or> base - fst e < rec_size (snd e)) \<and> rec_route (snd e) \<noteq> rt)"
  using assms(3)
proof (induction i)
  case (Suc i)
  then have i: "i < length m" by simp
  have none: "\<not> (base \<le> fst x \<or> base - fst x < rec_size (snd x))"
    if "n = 0" "fst (m ! i) < base" "x \<in> set (take i m)" for x
    using disjoint_take [OF assms(1) assms(2) i that(3)] that
      word_not_less_diff [of "fst x" "fst (m ! i)" base] by auto
  show ?case
    using Suc.IH i none by (auto simp: take_Suc_conv_app_nth Let_def)
qed simp

lemma overlaps_other_route_eq:
  assumes "allocation_cache_ok c" and "unat base + unat sz < 2 ^ 64" and "sz \<noteq> 0"
  shows "allocation_cache_overlaps_other_route base sz rt c \<longleftrightarrow>
    (\<exists>e \<in> set (allocations c). ranges_meet base sz e \<and> rec_route (snd e) \<noteq> rt)"
proof -
  let ?m = "allocations c"
  have ok: "omap_ok ?m" and ent: "entries_ok ?m" using assms by (auto simp: allocation_cache_ok_def)
  obtain l r where s: "?m = l @ r" "lower_bound (base + sz) ?m = length l"
    "\<forall>e \<in> set l. fst e < base + sz" "\<forall>e \<in> set r. base + sz \<le> fst e"
    using lower_bound_split [OF ok] by metis
  have low: "ranges_meet base sz e \<longleftrightarrow> base \<le> fst e \<or> base - fst e < rec_size (snd e)"
    if "e \<in> set l" for e
    using ranges_meet_below [OF assms(2) _ assms(3)] that s ent by (auto simp: entries_ok_def)
  have high: "\<not> ranges_meet base sz e" if "e \<in> set r" for e
    using ranges_meet_above [OF assms(2)] s(4) that by blast
  have "allocation_cache_overlaps_other_route base sz rt c \<longleftrightarrow>
     (\<exists>e \<in> set l. (base \<le> fst e \<or> base - fst e < rec_size (snd e)) \<and> rec_route (snd e) \<noteq> rt)"
    using other_route_scan_eq [OF ok, of "overlapping_neighbors c" "length l" base rt]
      counter_zero_iff [OF assms(1)] s
    by (simp add: allocation_cache_overlaps_other_route_def)
  also have "\<dots> \<longleftrightarrow> (\<exists>e \<in> set ?m. ranges_meet base sz e \<and> rec_route (snd e) \<noteq> rt)"
    using low high s(1) by auto
  finally show ?thesis .
qed

section \<open>Epochs\<close>

lemma lane_slot_bound:
  "lane_context_cache_entry_for route_id = Some slot \<Longrightarrow> slot < kLaneContextCacheSlots"
proof -
  assume "lane_context_cache_entry_for route_id = Some slot"
  then have "slot = unat ((word_of_int route_id :: u64) AND 31)"
    by (auto simp: lane_context_cache_entry_for_def kLaneContextCacheSlots_def split: if_splits)
  also have "\<dots> \<le> unat (31 :: u64)" by (simp only: word_le_nat_alt [symmetric] word_and_le1)
  finally show ?thesis by (simp add: kLaneContextCacheSlots_def)
qed

lemma initial_context_caches_ok: "context_caches_ok initial_context_caches"
  by (simp add: context_caches_ok_def initial_context_caches_def)

lemma lane_update_ok:
  assumes "context_caches_ok s"
  shows "context_caches_ok (lane_context_cache_update route_id context epoch succeeded s)"
proof (cases "lane_context_cache_entry_for route_id")
  case None
  then show ?thesis using assms by (simp add: lane_context_cache_update_def)
next
  case (Some slot)
  have "lane_epoch e \<le> lanes_epoch s"
    if "e \<in> set ((lane_entries s)[slot := x])" "lane_epoch x \<le> lanes_epoch s" for e x
    using that assms set_update_subset_insert [of "lane_entries s" slot x]
    by (auto simp: context_caches_ok_def)
  then show ?thesis
    using assms Some by (auto simp: lane_context_cache_update_def context_caches_ok_def Let_def)
qed

lemma lane_matches_view:
  "lane_context_cache_matches route_id context s \<longleftrightarrow>
    (case lane_context_cache_entry_for route_id of
       None \<Rightarrow> False | Some slot \<Rightarrow> lanes_view s slot = Some (route_id, context))"
  using lane_slot_bound [of route_id]
  by (auto simp: lane_context_cache_matches_def lanes_view_def Let_def split: option.splits)

lemma lane_update_view:
  assumes "context_caches_ok s"
  shows "lanes_view (lane_context_cache_update route_id context epoch succeeded s)
           = view_update route_id context (succeeded \<and> epoch = lanes_epoch s) (lanes_view s)"
proof (cases "lane_context_cache_entry_for route_id")
  case None
  then show ?thesis by (simp add: lane_context_cache_update_def view_update_def)
next
  case (Some slot)
  then have "slot < length (lane_entries s)" "slot < kLaneContextCacheSlots"
    using lane_slot_bound assms by (auto simp: context_caches_ok_def)
  moreover have "lanes_epoch s \<noteq> 0" using assms by (simp add: context_caches_ok_def)
  ultimately show ?thesis
    using Some
    by (auto simp: lane_context_cache_update_def view_update_def lanes_view_def fun_eq_iff Let_def
        nth_list_update)
qed

lemma view_after_binding_change:
  assumes "context_caches_ok s"
  shows "lanes_view (note_device_binding_changed s) = Map.empty"
  using assms by (auto simp: lanes_view_def note_device_binding_changed_def context_caches_ok_def fun_eq_iff)

lemma view_after_invalidate:
  assumes "context_caches_ok s" and "lanes_epoch s \<noteq> -1"
  shows "lanes_view (invalidate_current_context_cache s) = Map.empty"
proof -
  have "lane_epoch e < lanes_epoch s + 1" if "e \<in> set (lane_entries s)" for e
    using that assms by (intro less_Suc_word) (auto simp: context_caches_ok_def)
  then have "slot < kLaneContextCacheSlots \<Longrightarrow> lane_epoch (lane_entries s ! slot) \<noteq> lanes_epoch s + 1" for slot
    using assms(1) by (metis context_caches_ok_def less_irrefl nth_mem)
  then show ?thesis
    by (auto simp: lanes_view_def invalidate_current_context_cache_def fun_eq_iff Let_def
        current_context_device_cache_invalidate_def)
qed

section \<open>Properties\<close>

lemma lookup_reference_Max:
  assumes "omap_ok m"
  shows "lookup_reference m ptr =
    (let B = {b. \<exists>r. map_of m b = Some r \<and> entry_contains (b, r) ptr}
     in if B = {} then None else map_of m (Max B))"
proof -
  let ?B = "{b. \<exists>r. map_of m b = Some r \<and> entry_contains (b, r) ptr}"
  have fin: "finite ?B" by simp
  show ?thesis
  proof (cases "lookup_reference m ptr")
    case None
    then have "?B = {}" by (auto simp: lookup_reference_None omap_map_of_iff [OF assms])
    with None show ?thesis by (simp add: Let_def)
  next
    case (Some r)
    then obtain b where b: "(b, r) \<in> set m" "entry_contains (b, r) ptr"
        "\<forall>e \<in> set m. entry_contains e ptr \<longrightarrow> fst e \<le> b"
      by (auto simp: lookup_reference_Some [OF assms])
    then have "b \<in> ?B" "\<forall>b' \<in> ?B. b' \<le> b" by (auto simp: omap_map_of_iff [OF assms])
    then have "?B \<noteq> {}" and mx: "Max ?B = b" using fin by (blast, auto intro!: Max_eqI)
    moreover have "map_of m (Max ?B) = Some r" unfolding mx using b(1) by (simp add: omap_map_of_iff [OF assms])
    ultimately show ?thesis using Some by (simp add: Let_def)
  qed
qed

text \<open>
  C5: after any sequence of inserts and erases on the empty cache, the lookup of a
  pointer, which inspects only the predecessor as long as the counter of
  overlapping neighbours is zero, returns the record of greatest base among the
  records of the abstract map that contain the pointer, and nothing when none
  contains it.
\<close>

theorem allocation_lookup_greatest_base:
  "allocation_cache_lookup ptr (fold run_op ops empty_allocation_cache) =
    (let M = fold abs_op ops Map.empty;
         B = {b. \<exists>r. M b = Some r \<and> entry_contains (b, r) ptr}
     in if B = {} then None else M (Max B))"
proof -
  let ?c = "fold run_op ops empty_allocation_cache"
  have ref: "allocation_cache_ok ?c" "map_of (allocations ?c) = fold abs_op ops Map.empty"
    using run_ops_refines [OF empty_allocation_cache_ok, of ops]
    by (auto simp: empty_allocation_cache_def)
  then have "omap_ok (allocations ?c)" by (simp add: allocation_cache_ok_def)
  from lookup_reference_Max [OF this, of ptr] show ?thesis
    unfolding allocation_cache_lookup_eq [OF ref(1)] ref(2) [symmetric] Let_def .
qed

text \<open>
  C18: on a cache that inserts and erases have built, the test for an overlap with
  another route answers whether some recorded allocation on a different route
  shares a byte with the queried range, for every nonempty range whose end does not wrap.
\<close>

theorem overlaps_other_route_correct:
  assumes "c = fold run_op ops empty_allocation_cache"
    and "unat base + unat sz < 2 ^ 64" and "sz \<noteq> 0"
  shows "allocation_cache_overlaps_other_route base sz rt c \<longleftrightarrow>
    (\<exists>b r. fold abs_op ops Map.empty b = Some r \<and> ranges_meet base sz (b, r) \<and> rec_route r \<noteq> rt)"
proof -
  have ref: "allocation_cache_ok c" "map_of (allocations c) = fold abs_op ops Map.empty"
    using run_ops_refines [OF empty_allocation_cache_ok, of ops] assms(1)
    by (auto simp: empty_allocation_cache_def)
  then have "omap_ok (allocations c)" by (simp add: allocation_cache_ok_def)
  then show ?thesis
    unfolding overlaps_other_route_eq [OF ref(1) assms(2,3)] ref(2) [symmetric]
    by (force simp: omap_map_of_iff)
qed

theorem overlaps_other_route_witness:
  "allocation_cache_overlaps_other_route 4096 256 1
     (fold run_op [Insert 4000 128 0 7, Insert 8192 64 1 7] empty_allocation_cache) \<longleftrightarrow>
   (\<exists>b r. fold abs_op [Insert 4000 128 0 7, Insert 8192 64 1 7] Map.empty b = Some r \<and>
      ranges_meet 4096 256 (b, r) \<and> rec_route r \<noteq> 1)"
  by (rule overlaps_other_route_correct [OF refl]) simp_all

text \<open>
  C17: the per-lane context cache keeps, per slot, what the thread believes is current
  there: an update that a current epoch confirms records exactly that route and
  context, an update that failed or raced with an invalidation forgets the route,
  an invalidation or a changed device binding forgets every lane, and a match is
  reported exactly for what is recorded.
\<close>

theorem lane_context_cache_refines:
  assumes "context_caches_ok s" and "lanes_epoch s \<noteq> -1"
  shows "lanes_view (lane_context_cache_update r ctx epoch succeeded s)
           = view_update r ctx (succeeded \<and> epoch = lane_context_cache_epoch s) (lanes_view s) \<and>
         lanes_view (lane_context_cache_store r ctx s) = view_update r ctx True (lanes_view s) \<and>
         lanes_view (invalidate_current_context_cache s) = Map.empty \<and>
         lanes_view (note_device_binding_changed s) = Map.empty \<and>
         (lane_context_cache_matches r ctx s \<longleftrightarrow>
           (\<exists>slot. lane_context_cache_entry_for r = Some slot \<and> lanes_view s slot = Some (r, ctx)))"
  using assms lane_update_view [OF assms(1)] view_after_invalidate view_after_binding_change
  by (simp add: lane_context_cache_store_def lane_context_cache_epoch_def lane_matches_view
      split: option.splits)

theorem lane_context_cache_witness:
  "lane_context_cache_matches 0 9 (lane_context_cache_store 0 9 initial_context_caches) \<and>
   \<not> lane_context_cache_matches 0 9
      (invalidate_current_context_cache (lane_context_cache_store 0 9 initial_context_caches))"
proof -
  let ?s = "lane_context_cache_store 0 9 initial_context_caches"
  have ok: "context_caches_ok ?s"
    unfolding lane_context_cache_store_def by (rule lane_update_ok [OF initial_context_caches_ok])
  have ep: "lanes_epoch ?s \<noteq> -1" by code_simp
  have "lanes_view (invalidate_current_context_cache ?s) = Map.empty"
    using lane_context_cache_refines [OF ok ep] by blast
  moreover have "lane_context_cache_matches 0 9 ?s" by code_simp
  ultimately show ?thesis by (simp add: lane_matches_view split: option.splits)
qed

end
