(* ===== verification/Managed_Advice.thy ===== *)
theory Managed_Advice
  imports Prelude
begin

text \<open>
  The advice of managed allocations (\<^verbatim>\<open>managed_advice.h\<close>): a map from the first page
  of a run of pages to the advice of the run. The operations are proved to
  implement a function from pages to advice, and the stored runs to be canonical.
\<close>

section \<open>State\<close>

record advice_state =
  read_mostly :: bool
  preferred :: int
  accessed_by :: "int set"

type_synonym advice_ranges = "(u64, advice_state) omap"

definition CU_DEVICE_CPU :: int where "CU_DEVICE_CPU = -1"
definition CU_DEVICE_INVALID :: int where "CU_DEVICE_INVALID = -2"

datatype mem_advise =
    SET_READ_MOSTLY | UNSET_READ_MOSTLY
  | SET_PREFERRED_LOCATION | UNSET_PREFERRED_LOCATION
  | SET_ACCESSED_BY | UNSET_ACCESSED_BY

text \<open>The enumerators are 1 to 6; any other value of the type is out of range.\<close>

definition mem_advise_of :: "int \<Rightarrow> mem_advise option" where
  "mem_advise_of n =
     (if n = 1 then Some SET_READ_MOSTLY else if n = 2 then Some UNSET_READ_MOSTLY
      else if n = 3 then Some SET_PREFERRED_LOCATION else if n = 4 then Some UNSET_PREFERRED_LOCATION
      else if n = 5 then Some SET_ACCESSED_BY else if n = 6 then Some UNSET_ACCESSED_BY
      else None)"

datatype range_attribute = READ_MOSTLY | PREFERRED_LOCATION | ACCESSED_BY | OTHER_ATTRIBUTE int

datatype advice_error = CUDA_ERROR_INVALID_VALUE

definition default_state :: advice_state where
  "default_state = \<lparr>read_mostly = False, preferred = CU_DEVICE_INVALID, accessed_by = {}\<rparr>"

section \<open>Operations\<close>

definition split :: "u64 \<Rightarrow> advice_ranges \<Rightarrow> advice_ranges" where
  "split page ranges =
     (let ranges = (if ranges = [] then [(0, default_state)] else ranges);
          it = upper_bound page ranges - 1
      in fst (omap_emplace page (snd (ranges ! it)) ranges))"

primrec apply_advice :: "mem_advise \<Rightarrow> int \<Rightarrow> advice_state \<Rightarrow> advice_state" where
  "apply_advice SET_READ_MOSTLY device v = v\<lparr>read_mostly := True\<rparr>"
| "apply_advice UNSET_READ_MOSTLY device v = v\<lparr>read_mostly := False\<rparr>"
| "apply_advice SET_PREFERRED_LOCATION device v = v\<lparr>preferred := device\<rparr>"
| "apply_advice UNSET_PREFERRED_LOCATION device v = v\<lparr>preferred := CU_DEVICE_INVALID\<rparr>"
| "apply_advice SET_ACCESSED_BY device v = v\<lparr>accessed_by := insert device (accessed_by v)\<rparr>"
| "apply_advice UNSET_ACCESSED_BY device v = v\<lparr>accessed_by := accessed_by v - {device}\<rparr>"

text \<open>The loop that erases an entry whose predecessor has the same state.\<close>

fun merge_equal :: "advice_ranges \<Rightarrow> advice_ranges" where
  "merge_equal (a # b # m) = (if snd a = snd b then merge_equal (a # m) else a # merge_equal (b # m))"
| "merge_equal m = m"

text \<open>
  The iterators \<^verbatim>\<open>first\<close> and \<^verbatim>\<open>last\<close> stay with the entries of the two split pages,
  so their positions are those of the two keys once both splits are done.
\<close>

definition advise ::
    "u64 \<Rightarrow> u64 \<Rightarrow> u64 \<Rightarrow> int \<Rightarrow> int \<Rightarrow> advice_ranges \<Rightarrow> advice_error + advice_ranges" where
  "advise offset count page_size advice device ranges =
     (if count = 0 \<or> page_size = 0 \<or> count > -1 - offset then Inl CUDA_ERROR_INVALID_VALUE
      else case mem_advise_of advice of
        None \<Rightarrow> Inl CUDA_ERROR_INVALID_VALUE
      | Some adv \<Rightarrow>
          let first_page = offset div page_size;
              last_page = (offset + count - 1) div page_size + 1;
              ranges = split first_page ranges;
              ranges = split last_page ranges;
              first = omap_find first_page ranges;
              last = omap_find last_page ranges;
              ranges = fold (\<lambda>i m. m[i := (fst (m ! i), apply_advice adv device (snd (m ! i)))])
                            [first..<last] ranges
          in Inr (merge_equal ranges))"

definition supports :: "range_attribute \<Rightarrow> bool" where
  "supports attribute = (attribute = READ_MOSTLY \<or> attribute = PREFERRED_LOCATION \<or> attribute = ACCESSED_BY)"

definition combine :: "advice_state \<Rightarrow> advice_state \<Rightarrow> advice_state" where
  "combine v w = \<lparr>read_mostly = (read_mostly v \<and> read_mostly w),
     preferred = (if preferred v \<noteq> preferred w then CU_DEVICE_INVALID else preferred v),
     accessed_by = {d \<in> accessed_by v. d \<in> accessed_by w}\<rparr>"

fun combine_runs :: "u64 \<Rightarrow> advice_state \<Rightarrow> advice_ranges \<Rightarrow> advice_state" where
  "combine_runs last_page v [] = v"
| "combine_runs last_page v ((k, w) # m) =
     (if k \<le> last_page then combine_runs last_page (combine v w) m else v)"

definition query_value :: "u64 \<Rightarrow> u64 \<Rightarrow> u64 \<Rightarrow> advice_ranges \<Rightarrow> advice_state" where
  "query_value offset count page_size ranges =
     (if ranges = [] then default_state
      else let it = upper_bound (offset div page_size) ranges - 1;
               last_page = (offset + count - 1) div page_size
           in combine_runs last_page (snd (ranges ! it)) (drop (Suc it) ranges))"

text \<open>The integers written to the caller's buffer, \<^verbatim>\<open>sizeof(int)\<close> being 4.\<close>

definition accessed_by_output :: "nat \<Rightarrow> int set \<Rightarrow> int list" where
  "accessed_by_output slots devices =
     (let gpus = take slots (filter (\<lambda>d. 0 \<le> d) (sorted_list_of_set devices));
          listed = (if CU_DEVICE_CPU \<in> devices \<and> length gpus < slots
                    then gpus @ [CU_DEVICE_CPU] else gpus)
      in listed @ replicate (slots - length listed) CU_DEVICE_INVALID)"

definition query ::
    "bool \<Rightarrow> u64 \<Rightarrow> range_attribute \<Rightarrow> u64 \<Rightarrow> u64 \<Rightarrow> u64 \<Rightarrow> advice_ranges \<Rightarrow> advice_error + int list" where
  "query data_present data_size attribute offset count page_size ranges =
     (if count = 0 \<or> page_size = 0 \<or> count > -1 - offset \<or> \<not> data_present \<or> \<not> supports attribute
         \<or> data_size = 0 \<or> data_size mod 4 \<noteq> 0 \<or> (attribute \<noteq> ACCESSED_BY \<and> data_size \<noteq> 4)
      then Inl CUDA_ERROR_INVALID_VALUE
      else let v = query_value offset count page_size ranges in
        if attribute \<noteq> ACCESSED_BY
        then Inr [if attribute = READ_MOSTLY then (if read_mostly v then 1 else 0) else preferred v]
        else Inr (accessed_by_output (unat (data_size div 4)) (accessed_by v)))"

section \<open>Advice per page\<close>

text \<open>The abstract state: the advice of every page.\<close>

fun state_from :: "advice_state \<Rightarrow> advice_ranges \<Rightarrow> u64 \<Rightarrow> advice_state" where
  "state_from d [] p = d"
| "state_from d ((k, v) # m) p = (if k \<le> p then state_from v m p else d)"

definition page_advice :: "advice_ranges \<Rightarrow> u64 \<Rightarrow> advice_state" where
  "page_advice ranges p = state_from default_state ranges p"

definition advice_ok :: "advice_ranges \<Rightarrow> bool" where
  "advice_ok ranges = (omap_ok ranges \<and> (ranges \<noteq> [] \<longrightarrow> fst (hd ranges) = 0))"

fun canonical :: "advice_ranges \<Rightarrow> bool" where
  "canonical (a # b # m) = (snd a \<noteq> snd b \<and> canonical (b # m))"
| "canonical m = True"

text \<open>The ranges both operations accept: not empty, and ending below the top of memory.\<close>

definition valid_range :: "u64 \<Rightarrow> u64 \<Rightarrow> u64 \<Rightarrow> bool" where
  "valid_range offset count page_size = (count \<noteq> 0 \<and> page_size \<noteq> 0 \<and> unat offset + unat count < 2 ^ 64)"

section \<open>Facts\<close>

lemma state_from_above:
  "\<forall>e \<in> set m. p < fst e \<Longrightarrow> state_from d m p = d"
  by (cases m) auto

lemma state_from_append:
  assumes "omap_ok (l @ r)"
  shows "state_from d (l @ r) p = state_from (state_from d l p) r p"
  using assms
proof (induction l arbitrary: d)
  case (Cons e l)
  obtain k v where e: "e = (k, v)" by (cases e)
  show ?case
  proof (cases "k \<le> p")
    case True
    with Cons e show ?thesis by (simp add: omap_simps)
  next
    case False
    moreover have "\<forall>e' \<in> set r. k < fst e'" using Cons.prems e by (simp add: omap_simps)
    ultimately have "\<forall>e' \<in> set r. p < fst e'" by (meson le_less_trans not_le_imp_less less_imp_le)
    with False e show ?thesis by (simp add: state_from_above)
  qed
qed simp

text \<open>A map that starts at or below the page hides the state in front of it.\<close>

lemma state_from_start:
  "m \<noteq> [] \<Longrightarrow> fst (hd m) \<le> p \<Longrightarrow> state_from d m p = state_from d' m p"
  by (cases m) auto

lemma state_from_map:
  assumes "m \<noteq> []" and "fst (hd m) \<le> p"
  shows "state_from d (map (\<lambda>e. (fst e, f (snd e))) m) p = f (state_from d m p)"
proof -
  have "state_from (f d) (map (\<lambda>e. (fst e, f (snd e))) m) p = f (state_from d m p)" for d
    by (induction m arbitrary: d) auto
  moreover have "state_from d (map (\<lambda>e. (fst e, f (snd e))) m) p
                   = state_from (f d) (map (\<lambda>e. (fst e, f (snd e))) m) p"
    using assms by (intro state_from_start) (auto simp: hd_map)
  ultimately show ?thesis by simp
qed

lemma state_from_last:
  assumes "omap_ok (l @ e # r)" and "fst e \<le> p" and "\<forall>e' \<in> set r. p < fst e'"
  shows "state_from d (l @ e # r) p = snd e"
  using assms by (cases e) (simp add: state_from_append state_from_above)

lemma merge_equal_hd: "m \<noteq> [] \<Longrightarrow> merge_equal m \<noteq> [] \<and> hd (merge_equal m) = hd m"
  by (induction m rule: merge_equal.induct) auto

lemma merge_equal_subset: "set (merge_equal m) \<subseteq> set m"
  by (induction m rule: merge_equal.induct) auto

lemma merge_equal_ok: "omap_ok m \<Longrightarrow> omap_ok (merge_equal m)"
proof (induction m rule: merge_equal.induct)
  case (1 a b m)
  have "\<forall>e \<in> set (merge_equal (b # m)). fst a < fst e"
    using "1.prems" merge_equal_subset [of "b # m"] by (auto simp: omap_ok_Cons)
  with 1 show ?case by (simp add: omap_ok_Cons)
qed (simp_all add: omap_ok_Cons)

lemma merge_equal_canonical: "canonical (merge_equal m)"
proof (induction m rule: merge_equal.induct)
  case (1 a b m)
  then show ?case using merge_equal_hd [of "b # m"] by (cases "merge_equal (b # m)") auto
qed auto

lemma merge_equal_state: "omap_ok m \<Longrightarrow> state_from d (merge_equal m) p = state_from d m p"
proof (induction m arbitrary: d rule: merge_equal.induct)
  case (1 a b m)
  obtain k v k' v' where ab: "a = (k, v)" "b = (k', v')" by (cases a; cases b)
  show ?case
  proof (cases "v = v'")
    case True
    with 1 ab have "state_from d (merge_equal (a # b # m)) p = state_from d (a # m) p"
      by (simp add: omap_simps)
    also have "\<dots> = state_from d (a # b # m) p"
    proof -
      have "k < k'" "\<forall>e \<in> set m. k' < fst e" using "1.prems" ab by (auto simp: omap_simps)
      then have "\<not> k' \<le> p \<Longrightarrow> state_from v' m p = v'" by (intro state_from_above) (meson less_trans not_le_imp_less)
      with True ab show ?thesis by auto
    qed
    finally show ?thesis .
  next
    case False
    with 1 ab show ?thesis by (simp add: omap_simps)
  qed
qed auto

section \<open>Splitting a run\<close>

lemma split_nonempty:
  assumes "omap_ok m" and "m \<noteq> []" and "fst (hd m) = 0"
  shows "omap_ok (split q m) \<and> split q m \<noteq> [] \<and> fst (hd (split q m)) = 0 \<and>
         state_from d (split q m) p = state_from d m p \<and> fst ` set (split q m) = insert q (fst ` set m)"
proof -
  obtain l r where s: "m = l @ r" "upper_bound q m = length l"
    "\<forall>e \<in> set l. fst e \<le> q" "\<forall>e \<in> set r. q < fst e"
    using upper_bound_split [OF assms(1)] by metis
  have "l \<noteq> []" using s assms(2,3) by (cases r) auto
  then obtain l' e where l: "l = l' @ [e]" by (cases l rule: rev_cases) auto
  obtain k v where e: "e = (k, v)" by (cases e)
  have it: "m ! (upper_bound q m - 1) = (k, v)" using s l e by (simp add: nth_append)
  have lt: "\<forall>x \<in> set l'. fst x < k" using assms(1) s(1) l e by (auto simp: omap_simps)
  show ?thesis
  proof (cases "k = q")
    case True
    have "omap_emplace q v m = (m, length l')"
      using omap_emplace_hit [of l' q v v r] lt True s l e by simp
    then have "split q m = m" using it assms(2) by (simp add: split_def Let_def)
    moreover have "q \<in> fst ` set m" using s l e True by force
    ultimately show ?thesis using assms by (simp add: insert_absorb)
  next
    case False
    then have kq: "k < q" using s(3) l e by fastforce
    have below: "\<forall>x \<in> set l. fst x < q" using lt kq l e by (auto dest: less_trans)
    have "omap_emplace q v m = (l @ (q, v) # r, length l)"
      using omap_emplace_miss [OF below s(4)] s(1) by simp
    then have sp: "split q m = l @ (q, v) # r" using it assms(2) by (simp add: split_def Let_def)
    have ok: "omap_ok (l @ (q, v) # r)" using assms(1) s(1,4) below by (auto simp: omap_simps)
    have "state_from d (l @ (q, v) # r) p = state_from d (l @ r) p"
    proof (cases "q \<le> p")
      case True
      then have "k \<le> p" using kq by simp
      with True show ?thesis using ok assms(1) s(1) l e by (simp add: state_from_append)
    next
      case False
      then have "\<forall>x \<in> set r. p < fst x" using s(4) by (meson le_less_trans less_imp_le not_le_imp_less)
      with False show ?thesis using ok assms(1) s(1) by (simp add: state_from_append state_from_above)
    qed
    with sp ok s(1) assms(3) \<open>l \<noteq> []\<close> show ?thesis by auto
  qed
qed

lemma split_props:
  assumes "advice_ok m"
  shows "omap_ok (split q m)" "split q m \<noteq> []" "fst (hd (split q m)) = 0"
    "page_advice (split q m) = page_advice m" "fst ` set (split q m) = insert q (insert 0 (fst ` set m))"
    "advice_ok (split q m)"
proof -
  let ?m = "if m = [] then [(0, default_state)] else m"
  have m: "omap_ok ?m" "?m \<noteq> []" "fst (hd ?m) = 0"
    using assms by (auto simp: advice_ok_def omap_simps)
  have sp: "split q ?m = split q m" by (simp add: split_def)
  have st: "page_advice ?m = page_advice m" by (auto simp: page_advice_def fun_eq_iff)
  have keys: "fst ` set ?m = insert 0 (fst ` set m)"
    using assms by (cases m) (auto simp: advice_ok_def)
  note S = split_nonempty [OF m, of q, unfolded sp]
  show "omap_ok (split q m)" "split q m \<noteq> []" "fst (hd (split q m)) = 0"
    "fst ` set (split q m) = insert q (insert 0 (fst ` set m))"
    using S [of default_state 0] keys by simp_all
  show "page_advice (split q m) = page_advice m"
    using S st by (simp add: page_advice_def fun_eq_iff)
  show "advice_ok (split q m)" using S [of default_state 0] by (simp add: advice_ok_def)
qed

section \<open>Advising a range\<close>

lemma fold_update_segment:
  "fold (\<lambda>i m. m[i := (fst (m ! i), f (snd (m ! i)))]) [length l..<length l + length mid] (l @ mid @ r)
     = l @ map (\<lambda>e. (fst e, f (snd e))) mid @ r"
proof (induction mid arbitrary: l)
  case (Cons e mid)
  have "[length l..<length l + length (e # mid)] = length l # [length (l @ [e])..<length (l @ [e]) + length mid]"
    by (simp add: upt_rec)
  then show ?case
    using Cons.IH [of "l @ [(fst e, f (snd e))]"] by (simp add: list_update_append nth_append)
qed simp

lemma two_key_split:
  assumes "omap_ok m" and "a \<in> fst ` set m" and "b \<in> fst ` set m" and "a < b"
  obtains l v mid w r where "m = l @ ((a, v) # mid) @ (b, w) # r"
proof -
  obtain v where v: "(a, v) \<in> set m" using assms(2) by auto
  then obtain l rest where m: "m = l @ (a, v) # rest" by (meson split_list)
  have "\<forall>e \<in> set l. fst e < a" using assms(1) m by (simp add: omap_simps)
  then have "b \<in> fst ` set rest" using assms(3,4) m by fastforce
  then obtain w where "(b, w) \<in> set rest" by auto
  then obtain mid r where "rest = mid @ (b, w) # r" by (meson split_list)
  with m show thesis by (intro that) simp
qed

lemma segment_update_state:
  assumes "omap_ok (l @ ((a, v) # mid) @ (b, w) # r)"
  defines "seg \<equiv> (a, v) # mid"
  shows "state_from d (l @ map (\<lambda>e. (fst e, f (snd e))) seg @ (b, w) # r) p
     = (if a \<le> p \<and> p < b then f (state_from d (l @ seg @ (b, w) # r) p)
        else state_from d (l @ seg @ (b, w) # r) p)"
proof -
  let ?fs = "map (\<lambda>e. (fst e, f (snd e))) seg"
  have ok: "omap_ok (l @ seg @ (b, w) # r)" using assms by simp
  have okf: "omap_ok (l @ ?fs @ (b, w) # r)" using ok by (rule omap_ok_rebuild) simp
  have app: "state_from d (l @ seg @ (b, w) # r) p
      = state_from (state_from (state_from d l p) seg p) ((b, w) # r) p"
    using ok by (simp add: state_from_append omap_ok_append)
  have appf: "state_from d (l @ ?fs @ (b, w) # r) p
      = state_from (state_from (state_from d l p) ?fs p) ((b, w) # r) p"
    using okf by (simp add: state_from_append omap_ok_append)
  have ab: "a < b" using ok by (simp add: seg_def omap_simps)
  consider "p < a" | "a \<le> p" "p < b" | "b \<le> p" by force
  then show ?thesis
  proof cases
    case 1
    then have "state_from x seg p = x" "state_from x ?fs p = x" for x by (simp_all add: seg_def)
    moreover have "\<not> (a \<le> p \<and> p < b)" using 1 by auto
    ultimately show ?thesis by (simp only: app appf if_False)
  next
    case 2
    have "\<forall>e \<in> set ((b, w) # r). p < fst e" using ok 2 by (auto simp: omap_simps dest: less_trans)
    then have "state_from x ((b, w) # r) p = x" for x by (rule state_from_above)
    with 2 show ?thesis
      using state_from_map [of seg p "state_from d l p" f] by (simp only: app appf) (simp add: seg_def)
  next
    case 3
    then have "\<not> (a \<le> p \<and> p < b)" by auto
    with 3 show ?thesis by (simp only: app appf if_False) simp
  qed
qed

lemma page_range:
  assumes "valid_range offset count page_size"
  shows "offset div page_size \<le> (offset + count - 1) div page_size"
    and "p < (offset + count - 1) div page_size + 1 \<longleftrightarrow> p \<le> (offset + count - 1) div page_size"
proof -
  have c: "0 < unat count" using assms by (simp add: valid_range_def unat_gt_0)
  have e: "unat (offset + count) = unat offset + unat count"
    using assms by (intro unat_add_no_wrap) (simp add: valid_range_def)
  then have "(1 :: u64) \<le> offset + count" using c by (simp add: word_le_nat_alt)
  then have l: "unat (offset + count - 1) = unat offset + unat count - 1" using e by (simp add: unat_sub)
  show "offset div page_size \<le> (offset + count - 1) div page_size"
    using l c by (simp add: word_le_nat_alt unat_div div_le_mono)
  let ?q = "(offset + count - 1) div page_size"
  have "unat ?q \<le> unat offset + unat count - 1" using l by (simp add: unat_div)
  moreover have "unat offset + unat count < 2 ^ 64" using assms by (simp add: valid_range_def)
  ultimately have "unat ?q + 1 < 2 ^ 64" using c by linarith
  then have "unat (?q + 1) = unat ?q + 1" by (simp add: unat_add_no_wrap)
  then show "p < ?q + 1 \<longleftrightarrow> p \<le> ?q" by (simp add: word_le_nat_alt word_less_nat_alt less_Suc_eq_le)
qed

lemma advise_effect:
  assumes "advice_ok m" and "valid_range offset count page_size" and "mem_advise_of advice = Some adv"
  shows "\<exists>m'. advise offset count page_size advice device m = Inr m' \<and> advice_ok m' \<and> canonical m' \<and>
     page_advice m' = (\<lambda>p. if offset div page_size \<le> p \<and> p \<le> (offset + count - 1) div page_size
                           then apply_advice adv device (page_advice m p) else page_advice m p)"
proof -
  define a where "a = offset div page_size"
  define b where "b = (offset + count - 1) div page_size + 1"
  define f where "f = apply_advice adv device"
  let ?m2 = "split b (split a m)"
  have ab: "a < b" and lt: "\<And>p. p < b \<longleftrightarrow> p \<le> (offset + count - 1) div page_size"
    unfolding a_def b_def using page_range [OF assms(2)] by auto
  note s1 = split_props [OF assms(1), of a]
  note s2 = split_props [OF s1(6), of b]
  have "a \<in> fst ` set ?m2" "b \<in> fst ` set ?m2" using s1(5) s2(5) by auto
  then obtain l v mid w r where m2: "?m2 = l @ ((a, v) # mid) @ (b, w) # r"
    using two_key_split [OF s2(1) _ _ ab] by metis
  let ?seg = "(a, v) # mid"
  let ?m3 = "l @ map (\<lambda>e. (fst e, f (snd e))) ?seg @ (b, w) # r"
  have "omap_find a ?m2 = length l"
    using omap_find_hit [of l a v "mid @ (b, w) # r"] s2(1) m2 by simp
  moreover have "omap_find b ?m2 = length l + length ?seg"
    using omap_find_hit [of "l @ ?seg" b w r] s2(1) m2 by simp
  ultimately have "fold (\<lambda>i m. m[i := (fst (m ! i), f (snd (m ! i)))]) [omap_find a ?m2..<omap_find b ?m2] ?m2 = ?m3"
    using fold_update_segment [of f l ?seg "(b, w) # r"] m2 by (simp del: list.map upt_Suc)
  moreover have "\<not> count > -1 - offset" "count \<noteq> 0" "page_size \<noteq> 0"
    using assms(2) by (simp_all add: valid_range_def size_max_guard)
  ultimately have res: "advise offset count page_size advice device m = Inr (merge_equal ?m3)"
    using assms(3) by (simp add: advise_def Let_def a_def b_def f_def del: list.map)
  have ok3: "omap_ok ?m3" using s2(1) unfolding m2 by (rule omap_ok_rebuild) simp
  have hd3: "fst (hd ?m3) = 0" using s2(3) unfolding m2 by (cases l) simp_all
  have "advice_ok (merge_equal ?m3)"
    using merge_equal_ok [OF ok3] merge_equal_hd [of ?m3] hd3 by (simp add: advice_ok_def)
  moreover have "page_advice (merge_equal ?m3) p
      = (if a \<le> p \<and> p < b then f (page_advice m p) else page_advice m p)" for p
    using merge_equal_state [OF ok3] segment_update_state [of l a v mid b w r default_state f p] s2(1,4) s1(4) m2
    by (simp add: page_advice_def fun_eq_iff)
  ultimately show ?thesis
    using res merge_equal_canonical by (auto simp: lt fun_eq_iff a_def f_def)
qed

lemma advise_invalid:
  "\<not> valid_range offset count page_size \<or> mem_advise_of advice = None \<Longrightarrow>
     advise offset count page_size advice device m = Inl CUDA_ERROR_INVALID_VALUE"
  by (auto simp: advise_def valid_range_def size_max_guard split: option.split)

section \<open>Querying a range\<close>

lemma combine_runs_fold:
  "combine_runs n v m = fold (\<lambda>e v. combine v (snd e)) (takeWhile (\<lambda>e. fst e \<le> n) m) v"
  by (induction m arbitrary: v) auto

lemma fold_combine:
  defines "r v es \<equiv> fold (\<lambda>e v. combine v (snd e)) es v"
  shows "read_mostly (r v es) = (read_mostly v \<and> (\<forall>e \<in> set es. read_mostly (snd e)))"
    and "accessed_by (r v es) = accessed_by v \<inter> (\<Inter>e \<in> set es. accessed_by (snd e))"
    and "preferred (r v es) = (if \<forall>e \<in> set es. preferred (snd e) = preferred v
           then preferred v else CU_DEVICE_INVALID)"
  unfolding r_def by (induction es arbitrary: v) (auto simp: combine_def)

lemma sorted_takeWhile_le:
  assumes "omap_ok m"
  shows "set (takeWhile (\<lambda>e. fst e \<le> n) m) = {e \<in> set m. fst e \<le> n}"
  using assms
proof (induction m)
  case (Cons e m)
  then show ?case by (auto simp: omap_simps)
qed simp

lemma pages_of_runs:
  assumes "omap_ok (l @ e # r)" and "fst e \<le> a" and "\<forall>x \<in> set r. a < fst x" and "a \<le> b"
  shows "state_from d (l @ e # r) ` {a..b} = insert (snd e) (snd ` {x \<in> set r. fst x \<le> b})"
proof (intro equalityI subsetI)
  fix s assume "s \<in> state_from d (l @ e # r) ` {a..b}"
  then obtain p where p: "a \<le> p" "p \<le> b" and s: "s = state_from d (l @ e # r) p" by auto
  have "fst e \<le> p" using assms(2) p(1) by simp
  then have s': "s = state_from (snd e) r p" using s assms(1) by (cases e) (simp add: state_from_append)
  have mem: "state_from v m p \<in> insert v (snd ` {x \<in> set m. fst x \<le> p})" for v m
    by (induction v m p rule: state_from.induct) force+
  show "s \<in> insert (snd e) (snd ` {x \<in> set r. fst x \<le> b})"
    using mem [of "snd e" r] p(2) s' by force
next
  fix s assume "s \<in> insert (snd e) (snd ` {x \<in> set r. fst x \<le> b})"
  then consider "s = snd e" | x where "x \<in> set r" "fst x \<le> b" "s = snd x" by auto
  then show "s \<in> state_from d (l @ e # r) ` {a..b}"
  proof cases
    case 1
    then have "s = state_from d (l @ e # r) a" using state_from_last [OF assms(1,2,3)] by simp
    with assms(4) show ?thesis by simp
  next
    case 2
    then obtain r1 r2 where r: "r = r1 @ x # r2" by (meson split_list)
    have ok: "omap_ok ((l @ e # r1) @ x # r2)" using assms(1) r by simp
    then have "\<forall>y \<in> set r2. fst x < fst y" by (simp add: omap_simps)
    then have "state_from d ((l @ e # r1) @ x # r2) (fst x) = snd x"
      using state_from_last [OF ok] by blast
    moreover have "a \<le> fst x" using assms(3) 2(1) by auto
    ultimately show ?thesis using 2 r by (intro image_eqI [of _ _ "fst x"]) simp_all
  qed
qed

lemma accessed_by_output_length [simp]: "length (accessed_by_output slots devices) = slots"
  by (simp add: accessed_by_output_def Let_def)

lemma query_value_pages:
  assumes "advice_ok m" and "valid_range offset count page_size"
  defines "P \<equiv> {offset div page_size..(offset + count - 1) div page_size}"
  defines "v \<equiv> query_value offset count page_size m"
  shows "read_mostly v \<longleftrightarrow> (\<forall>p \<in> P. read_mostly (page_advice m p))"
    and "accessed_by v = (\<Inter>p \<in> P. accessed_by (page_advice m p))"
    and "preferred v = (if \<exists>d. \<forall>p \<in> P. preferred (page_advice m p) = d
           then preferred (page_advice m (offset div page_size)) else CU_DEVICE_INVALID)"
proof -
  define a where "a = offset div page_size"
  define b where "b = (offset + count - 1) div page_size"
  have ab: "a \<le> b" unfolding a_def b_def using page_range(1) [OF assms(2)] .
  have P: "P = {a..b}" by (simp add: P_def a_def b_def)
  have aP: "a \<in> P" using ab P by simp
  obtain w S where wS: "page_advice m ` P = insert w S" "page_advice m a = w"
      "read_mostly v = (read_mostly w \<and> (\<forall>s \<in> S. read_mostly s))"
      "accessed_by v = accessed_by w \<inter> (\<Inter>s \<in> S. accessed_by s)"
      "preferred v = (if \<forall>s \<in> S. preferred s = preferred w then preferred w else CU_DEVICE_INVALID)"
  proof (cases "m = []")
    case True
    then have "page_advice m ` P = insert default_state {}" "v = default_state"
      using aP by (auto simp: page_advice_def v_def query_value_def)
    then show thesis using that [of default_state "{}"] True by (simp add: page_advice_def)
  next
    case False
    have ok: "omap_ok m" "fst (hd m) = 0" using assms(1) False by (auto simp: advice_ok_def)
    obtain l r where s: "m = l @ r" "upper_bound a m = length l"
      "\<forall>e \<in> set l. fst e \<le> a" "\<forall>e \<in> set r. a < fst e"
      using upper_bound_split [OF ok(1)] by metis
    have "l \<noteq> []" using s False ok(2) by (cases r) auto
    then obtain l' e where l: "l = l' @ [e]" by (cases l rule: rev_cases) auto
    let ?S = "snd ` {x \<in> set r. fst x \<le> b}"
    have m: "m = l' @ e # r" using s l by simp
    have "page_advice m ` P = insert (snd e) ?S"
      using pages_of_runs [of l' e r a b default_state] ok(1) s l ab
      by (simp add: m page_advice_def P fun_eq_iff [symmetric] image_def)
    moreover have "page_advice m a = snd e"
      using state_from_last [of l' e r a default_state] ok(1) s l by (simp add: m page_advice_def)
    moreover have "v = fold (\<lambda>e v. combine v (snd e)) (takeWhile (\<lambda>e. fst e \<le> b) r) (snd e)"
      using False s l by (simp add: v_def query_value_def Let_def a_def b_def nth_append combine_runs_fold)
    moreover have "set (takeWhile (\<lambda>e. fst e \<le> b) r) = {x \<in> set r. fst x \<le> b}"
      using ok(1) s(1) by (intro sorted_takeWhile_le) (simp add: omap_ok_append)
    ultimately show thesis by (intro that [of "snd e" ?S]) (simp_all add: fold_combine)
  qed
  have ball: "(\<forall>p \<in> P. Q (page_advice m p)) \<longleftrightarrow> (\<forall>s \<in> insert w S. Q s)" for Q
    unfolding wS(1) [symmetric] by simp
  have "(\<Inter>p \<in> P. accessed_by (page_advice m p)) = (\<Inter>s \<in> page_advice m ` P. accessed_by s)" by simp
  then show "accessed_by v = (\<Inter>p \<in> P. accessed_by (page_advice m p))" unfolding wS(1,4) by simp
  show "read_mostly v \<longleftrightarrow> (\<forall>p \<in> P. read_mostly (page_advice m p))" using wS(3) ball by simp
  have "(\<exists>d. \<forall>p \<in> P. preferred (page_advice m p) = d) \<longleftrightarrow> (\<forall>s \<in> S. preferred s = preferred w)"
    using ball [of "\<lambda>s. preferred s = d" for d] by auto
  with wS(2,5) show "preferred v = (if \<exists>d. \<forall>p \<in> P. preferred (page_advice m p) = d
      then preferred (page_advice m (offset div page_size)) else CU_DEVICE_INVALID)"
    by (simp add: a_def)
qed

section \<open>Properties\<close>

text \<open>
  C3: \<^verbatim>\<open>advise\<close> refuses exactly the empty, unpaged or overflowing ranges and the unknown
  advice values; otherwise it changes the advice of the pages the range touches,
  each as the switch says, and of no other page, keeps the stored runs sorted from
  page zero, and leaves no two neighbouring runs with the same advice.
\<close>

theorem advise_refines_page_function:
  assumes "advice_ok m"
  shows "case advise offset count page_size advice device m of
      Inl e \<Rightarrow> \<not> valid_range offset count page_size \<or> mem_advise_of advice = None
    | Inr m' \<Rightarrow> valid_range offset count page_size \<and> advice_ok m' \<and> canonical m' \<and>
        (\<exists>adv. mem_advise_of advice = Some adv \<and>
          page_advice m' = (\<lambda>p. if offset div page_size \<le> p \<and> p \<le> (offset + count - 1) div page_size
                               then apply_advice adv device (page_advice m p) else page_advice m p))"
  using advise_effect [OF assms, of offset count page_size advice _ device]
    advise_invalid [of offset count page_size advice device m]
  by (cases "valid_range offset count page_size"; cases "mem_advise_of advice") auto

theorem advise_refines_witness:
  "\<exists>m'. advise 4096 8192 4096 1 0 [] = Inr m' \<and> canonical m' \<and>
     page_advice m' = (\<lambda>p. if 1 \<le> p \<and> p \<le> 2 then apply_advice SET_READ_MOSTLY 0 default_state else default_state)"
proof -
  have "advice_ok []" by (simp add: advice_ok_def)
  from advise_refines_page_function [OF this, of 4096 8192 4096 1 0] show ?thesis
    by (auto simp: valid_range_def mem_advise_of_def page_advice_def split: sum.splits)
qed

text \<open>
  C27: a query of a range reports, over all pages the range touches, whether every page
  is read-mostly, the preferred location they share (invalid when they differ), and
  the devices that access every one of them: GPUs in ascending order, then the CPU,
  then invalid slots, cut off at the size of the buffer.
\<close>

theorem query_reports_all_pages:
  assumes "advice_ok m" and "valid_range offset count page_size"
    and "data_size \<noteq> 0" and "data_size mod 4 = 0"
  defines "P \<equiv> {offset div page_size..(offset + count - 1) div page_size}"
  shows "query True 4 READ_MOSTLY offset count page_size m
           = Inr [if \<forall>p \<in> P. read_mostly (page_advice m p) then 1 else 0] \<and>
         query True 4 PREFERRED_LOCATION offset count page_size m
           = Inr [if \<exists>d. \<forall>p \<in> P. preferred (page_advice m p) = d
                  then preferred (page_advice m (offset div page_size)) else CU_DEVICE_INVALID] \<and>
         query True data_size ACCESSED_BY offset count page_size m
           = Inr (accessed_by_output (unat (data_size div 4)) (\<Inter>p \<in> P. accessed_by (page_advice m p))) \<and>
         length (accessed_by_output (unat (data_size div 4)) (\<Inter>p \<in> P. accessed_by (page_advice m p)))
           = unat (data_size div 4)"
proof -
  have q: "query True n attribute offset count page_size m
      = (let v = query_value offset count page_size m in
         if attribute \<noteq> ACCESSED_BY
         then Inr [if attribute = READ_MOSTLY then (if read_mostly v then 1 else 0) else preferred v]
         else Inr (accessed_by_output (unat (n div 4)) (accessed_by v)))"
    if "supports attribute" "n \<noteq> 0" "n mod 4 = 0" "attribute = ACCESSED_BY \<or> n = 4" for n attribute
    using that assms(2) by (auto simp: query_def valid_range_def size_max_guard)
  show ?thesis
    using assms(3,4) unfolding P_def query_value_pages [OF assms(1,2), symmetric]
    by (simp add: q supports_def Let_def accessed_by_output_length)
qed

theorem query_reports_witness:
  "query True 4 READ_MOSTLY 4096 4096 4096 [(0, default_state), (1, default_state\<lparr>read_mostly := True\<rparr>)] = Inr [1] \<and>
   query True 8 ACCESSED_BY 0 4096 4096 [(0, default_state\<lparr>accessed_by := {-1, 2}\<rparr>)] = Inr [2, -1]"
proof -
  let ?m = "[(0, default_state), (1, default_state\<lparr>read_mostly := True\<rparr>)]"
  have "advice_ok ?m" "valid_range 4096 4096 4096" by (simp_all add: advice_ok_def omap_ok_def valid_range_def)
  from query_reports_all_pages [OF this, of 4]
  have "query True 4 READ_MOSTLY 4096 4096 4096 ?m = Inr [1]" by (simp add: page_advice_def)
  moreover have "query True 8 ACCESSED_BY 0 4096 4096 [(0, default_state\<lparr>accessed_by := {-1, 2}\<rparr>)] = Inr [2, -1]"
    by code_simp
  ultimately show ?thesis by blast
qed

end
