(* ===== verification/Events.thy ===== *)
theory Events
  imports Prelude
begin

text \<open>
  The client's cache of event completion (\<^verbatim>\<open>events.h\<close>, \<^verbatim>\<open>events.cpp\<close>): sixteen slots of
  recorded events, the counter that stamps records, and the semaphore of deferred
  copies. The interleavings of recording threads, forgetting and arriving answers
  form a step relation; its invariant gives the soundness of a local answer.
\<close>

section \<open>State\<close>

record event_slot =
  slot_event :: handle
  slot_record :: u64
  slot_complete :: bool

record event_table =
  slots :: "event_slot list"
  record_seq :: u64
  stale_semaphore :: u64

definition kLupineEventQueryBatch :: nat where
  "kLupineEventQueryBatch = 16"

definition empty_slot :: event_slot where
  "empty_slot = \<lparr>slot_event = null_handle, slot_record = 0, slot_complete = False\<rparr>"

definition initial_event_table :: event_table where
  "initial_event_table = \<lparr>slots = replicate kLupineEventQueryBatch empty_slot,
     record_seq = 0, stale_semaphore = 0\<rparr>"

section \<open>Operations\<close>

text \<open>
  Recording takes its stamp from the atomic counter before it locks the table, so
  another thread may run between the two; they are two operations here.
\<close>

definition event_take_stamp :: "event_table \<Rightarrow> u64 \<times> event_table" where
  "event_take_stamp t = (record_seq t + 1, t\<lparr>record_seq := record_seq t + 1\<rparr>)"

text \<open>The scan: the slot that has the event, or else the victim, the first slot of least record.\<close>

fun event_scan :: "handle \<Rightarrow> nat \<Rightarrow> nat \<Rightarrow> u64 \<Rightarrow> event_slot list \<Rightarrow> nat + nat" where
  "event_scan event i victim victim_record [] = Inr victim"
| "event_scan event i victim victim_record (s # ss) =
     (if slot_event s = event then Inl i
      else if slot_record s < victim_record then event_scan event (Suc i) i (slot_record s) ss
      else event_scan event (Suc i) victim victim_record ss)"

definition event_store_record :: "handle \<Rightarrow> u64 \<Rightarrow> event_table \<Rightarrow> event_table" where
  "event_store_record event stamp t =
     (case event_scan event 0 0 (slot_record (slots t ! 0)) (slots t) of
        Inl i \<Rightarrow> t\<lparr>slots := (slots t)[i := (slots t ! i)\<lparr>slot_record := stamp, slot_complete := False\<rparr>]\<rparr>
      | Inr victim \<Rightarrow> t\<lparr>slots := (slots t)[victim :=
          \<lparr>slot_event = event, slot_record = stamp, slot_complete = False\<rparr>]\<rparr>)"

definition event_invalidate_completion :: "handle \<Rightarrow> event_table \<Rightarrow> event_table" where
  "event_invalidate_completion event t =
     (let (stamp, t) = event_take_stamp t in event_store_record event stamp t)"

definition event_forget :: "handle \<Rightarrow> event_table \<Rightarrow> event_table" where
  "event_forget event t =
     t\<lparr>slots := map (\<lambda>s. if slot_event s = event then empty_slot else s) (slots t)\<rparr>"

definition event_query_needed :: "handle \<Rightarrow> event_table \<Rightarrow> bool \<times> u64" where
  "event_query_needed event t =
     (let copies_owed = (stale_semaphore t \<noteq> 0) in
      case find (\<lambda>s. slot_event s = event) (slots t) of
        Some s \<Rightarrow> (copies_owed \<or> \<not> slot_complete s, slot_record s)
      | None \<Rightarrow> (True, 0))"

text \<open>The resolver of an event's connection belongs to the routing layer: a parameter.\<close>

definition event_collect_query_batch ::
    "(handle \<Rightarrow> 'conn) \<Rightarrow> handle \<Rightarrow> 'conn \<Rightarrow> event_table \<Rightarrow> (handle \<times> u64) list" where
  "event_collect_query_batch resolver exclude conn t =
     take kLupineEventQueryBatch
       (map (\<lambda>s. (slot_event s, slot_record s))
         (filter (\<lambda>s. \<not> (slot_event s = null_handle \<or> slot_event s = exclude \<or> slot_complete s
                          \<or> resolver (slot_event s) \<noteq> conn)) (slots t)))"

fun complete_first :: "handle \<Rightarrow> u64 \<Rightarrow> event_slot list \<Rightarrow> event_slot list" where
  "complete_first event rec [] = []"
| "complete_first event rec (s # ss) =
     (if slot_event s = event \<and> slot_record s = rec then s\<lparr>slot_complete := True\<rparr> # ss
      else s # complete_first event rec ss)"

text \<open>The answers: event, record stamp and whether the result was \<^verbatim>\<open>CUDA_SUCCESS\<close>.\<close>

fun cache_answers :: "(handle \<times> u64 \<times> bool) list \<Rightarrow> event_slot list \<Rightarrow> event_slot list" where
  "cache_answers [] ss = ss"
| "cache_answers ((event, rec, success) # rest) ss =
     (if \<not> success \<or> rec = 0 then cache_answers rest ss
      else cache_answers rest (complete_first event rec ss))"

definition event_cache_completions :: "(handle \<times> u64 \<times> bool) list \<Rightarrow> event_table \<Rightarrow> event_table" where
  "event_cache_completions answers t = t\<lparr>slots := cache_answers answers (slots t)\<rparr>"

text \<open>
  The compare-and-exchange loop of a negative delta commits the saturating
  difference to the value it finds at the moment it succeeds.
\<close>

definition event_stale_semaphore_add :: "int \<Rightarrow> event_table \<Rightarrow> event_table" where
  "event_stale_semaphore_add delta t =
     (if delta \<ge> 0 then t\<lparr>stale_semaphore := stale_semaphore t + word_of_int delta\<rparr>
      else let delivered = word_of_int (- delta); owed = stale_semaphore t in
        if owed = 0 then t
        else t\<lparr>stale_semaphore := (if delivered \<ge> owed then 0 else owed - delivered)\<rparr>)"

section \<open>The interleaved system\<close>

text \<open>
  Beside the table the state carries what happened: stamps taken and not yet
  stored, the records stored so far (newest first), and the successful answers.
\<close>

record event_system =
  table :: event_table
  pending :: "(handle \<times> u64) set"
  history :: "(handle \<times> u64) list"
  answered :: "(handle \<times> u64) set"

inductive event_init :: "event_system \<Rightarrow> bool" where
  "event_init \<lparr>table = initial_event_table, pending = {}, history = [], answered = {}\<rparr>"

text \<open>An event is a nonnull handle, and the stamp counter has not run through all 64-bit values.\<close>

inductive event_step :: "event_system \<Rightarrow> event_system \<Rightarrow> bool" where
  step_take: "event \<noteq> null_handle \<Longrightarrow> record_seq (table s) \<noteq> -1 \<Longrightarrow>
    event_take_stamp (table s) = (stamp, t) \<Longrightarrow>
    event_step s (s\<lparr>table := t, pending := insert (event, stamp) (pending s)\<rparr>)"
| step_store: "(event, stamp) \<in> pending s \<Longrightarrow>
    event_step s (s\<lparr>table := event_store_record event stamp (table s),
      pending := pending s - {(event, stamp)}, history := (event, stamp) # history s\<rparr>)"
| step_forget: "event \<noteq> null_handle \<Longrightarrow>
    event_step s (s\<lparr>table := event_forget event (table s)\<rparr>)"
| step_answers: "event_step s (s\<lparr>table := event_cache_completions answers (table s),
      answered := answered s \<union> {(e, r). (e, r, True) \<in> set answers}\<rparr>)"
| step_stale: "event_step s (s\<lparr>table := event_stale_semaphore_add delta (table s)\<rparr>)"

abbreviation event_reachable :: "event_system \<Rightarrow> bool" where
  "event_reachable \<equiv> reachable event_init event_step"

section \<open>Invariant\<close>

text \<open>The stamp of the newest record of an event.\<close>

definition newest_record :: "(handle \<times> u64) list \<Rightarrow> handle \<Rightarrow> u64 option" where
  "newest_record h event = map_of h event"

definition slots_ok :: "event_slot list \<Rightarrow> (handle \<times> u64) list \<Rightarrow> (handle \<times> u64) set \<Rightarrow> bool" where
  "slots_ok ss h answers = (length ss = kLupineEventQueryBatch \<and>
     (\<forall>i < length ss. \<forall>j < length ss. slot_event (ss ! i) = slot_event (ss ! j) \<longrightarrow>
        slot_event (ss ! i) \<noteq> null_handle \<longrightarrow> i = j) \<and>
     (\<forall>s \<in> set ss. slot_event s \<noteq> null_handle \<longrightarrow>
        newest_record h (slot_event s) = Some (slot_record s) \<and>
        (slot_complete s \<longrightarrow> (slot_event s, slot_record s) \<in> answers)) \<and>
     (\<forall>s \<in> set ss. slot_event s = null_handle \<longrightarrow> s = empty_slot))"

definition stamps_ok :: "u64 \<Rightarrow> (handle \<times> u64) set \<Rightarrow> (handle \<times> u64) list \<Rightarrow> bool" where
  "stamps_ok seq p h = (inj_on snd p \<and> distinct (map snd h) \<and> snd ` p \<inter> snd ` set h = {} \<and>
     (\<forall>x \<in> p \<union> set h. fst x \<noteq> null_handle \<and> snd x \<noteq> 0 \<and> snd x \<le> seq))"

definition event_inv :: "event_system \<Rightarrow> bool" where
  "event_inv s = (slots_ok (slots (table s)) (history s) (answered s) \<and>
     stamps_ok (record_seq (table s)) (pending s) (history s))"

definition recorded :: "handle \<Rightarrow> u64 \<Rightarrow> event_slot" where
  "recorded event stamp = \<lparr>slot_event = event, slot_record = stamp, slot_complete = False\<rparr>"

section \<open>The scan\<close>

lemma event_scan_hit:
  "event_scan event i v vr ss = Inl j \<Longrightarrow>
     i \<le> j \<and> j < i + length ss \<and> slot_event (ss ! (j - i)) = event"
proof (induction ss arbitrary: i v vr)
  case (Cons s ss)
  then show ?case
    by (auto simp: Suc_diff_le nth_Cons' split: if_splits dest!: Cons.IH)
qed simp

lemma event_scan_miss:
  "event_scan event i v vr ss = Inr j \<Longrightarrow>
     (\<forall>s \<in> set ss. slot_event s \<noteq> event) \<and>
     (j = v \<and> (\<forall>s \<in> set ss. vr \<le> slot_record s) \<or>
      i \<le> j \<and> j < i + length ss \<and> slot_record (ss ! (j - i)) \<le> vr \<and>
        (\<forall>s \<in> set ss. slot_record (ss ! (j - i)) \<le> slot_record s))"
proof (induction ss arbitrary: i v vr)
  case (Cons s ss)
  show ?case
  proof (cases "slot_record s < vr")
    case True
    with Cons.prems have h: "event_scan event (Suc i) i (slot_record s) ss = Inr j" "slot_event s \<noteq> event"
      by (auto split: if_splits)
    from Cons.IH [OF h(1)] h(2) True show ?thesis
      by (auto simp: nth_Cons' Suc_diff_le intro: order_trans less_imp_le)
  next
    case False
    with Cons.prems have h: "event_scan event (Suc i) v vr ss = Inr j" "slot_event s \<noteq> event"
      by (auto split: if_splits)
    from Cons.IH [OF h(1)] h(2) False show ?thesis
      by (auto simp: nth_Cons' Suc_diff_le not_less intro: order_trans)
  qed
qed simp

section \<open>Updates of one slot\<close>

lemma event_store_record_slot:
  assumes "slots t \<noteq> []"
  obtains i where "i < length (slots t)"
    "event_store_record event stamp t = t\<lparr>slots := (slots t)[i := recorded event stamp]\<rparr>"
    "slot_event (slots t ! i) = event \<or>
     ((\<forall>s \<in> set (slots t). slot_event s \<noteq> event) \<and>
      (\<forall>s \<in> set (slots t). slot_record (slots t ! i) \<le> slot_record s))"
proof (cases "event_scan event 0 0 (slot_record (slots t ! 0)) (slots t)")
  case (Inl i)
  with event_scan_hit [OF Inl] have hit: "i < length (slots t)" "slot_event (slots t ! i) = event" by simp_all
  then have "(slots t ! i)\<lparr>slot_record := stamp, slot_complete := False\<rparr> = recorded event stamp"
    by (cases "slots t ! i") (simp add: recorded_def)
  with Inl hit show thesis by (intro that [of i]) (simp_all add: event_store_record_def)
next
  case (Inr i)
  from event_scan_miss [OF Inr] assms have "i < length (slots t)"
    "\<forall>s \<in> set (slots t). slot_event s \<noteq> event" "\<forall>s \<in> set (slots t). slot_record (slots t ! i) \<le> slot_record s"
    by auto
  with Inr show thesis by (intro that [of i]) (simp_all add: event_store_record_def recorded_def)
qed

lemma complete_first_cases:
  "complete_first event rec ss = ss \<or>
   (\<exists>i < length ss. slot_event (ss ! i) = event \<and> slot_record (ss ! i) = rec \<and>
      complete_first event rec ss = ss[i := (ss ! i)\<lparr>slot_complete := True\<rparr>])"
proof (induction ss)
  case (Cons s ss)
  show ?case
  proof (cases "slot_event s = event \<and> slot_record s = rec")
    case True
    then show ?thesis by (intro disjI2 exI [of _ 0]) simp
  next
    case False
    with Cons show ?thesis by (auto intro!: exI [of _ "Suc i" for i])
  qed
qed simp

lemma slots_ok_unique:
  assumes "slots_ok ss h A" and "j < length ss" and "k < length ss"
    and "slot_event (ss ! j) = slot_event (ss ! k)" and "slot_event (ss ! j) \<noteq> null_handle"
  shows "j = k"
  using assms unfolding slots_ok_def by blast

lemma slots_ok_update:
  assumes "slots_ok ss h A" and "i < length ss" and "slot_event x \<noteq> null_handle"
    and "newest_record h' (slot_event x) = Some (slot_record x)"
    and "slot_complete x \<longrightarrow> (slot_event x, slot_record x) \<in> A'"
    and "\<And>j. j < length ss \<Longrightarrow> j \<noteq> i \<Longrightarrow> slot_event (ss ! j) \<noteq> slot_event x"
    and "A \<subseteq> A'" and "\<And>e. e \<noteq> slot_event x \<Longrightarrow> newest_record h' e = newest_record h e"
  shows "slots_ok (ss[i := x]) h' A'"
proof -
  have old: "(slot_event s \<noteq> null_handle \<longrightarrow>
        newest_record h' (slot_event s) = Some (slot_record s) \<and>
        (slot_complete s \<longrightarrow> (slot_event s, slot_record s) \<in> A')) \<and>
      (slot_event s = null_handle \<longrightarrow> s = empty_slot)" if "s \<in> set (ss[i := x])" for s
  proof (cases "s = x")
    case False
    from that obtain j where "j < length ss" "s = ss[i := x] ! j" by (auto simp: in_set_conv_nth)
    with False have j: "j < length ss" "j \<noteq> i" "s = ss ! j" using assms(2) by (auto simp: nth_list_update)
    then have "s \<in> set ss" "slot_event s \<noteq> slot_event x" using assms(6) by auto
    with assms(1,7,8) show ?thesis by (auto simp: slots_ok_def)
  qed (use assms(3,4,5) in auto)
  moreover have "j = k" if "j < length ss" "k < length ss"
      "slot_event (ss[i := x] ! j) = slot_event (ss[i := x] ! k)" "slot_event (ss[i := x] ! j) \<noteq> null_handle" for j k
    using that assms(6) slots_ok_unique [OF assms(1)]
    by (cases "j = i"; cases "k = i") (auto simp: nth_list_update)
  ultimately show ?thesis using assms(1) by (auto simp: slots_ok_def)
qed

lemma slots_ok_mono: "slots_ok ss h A \<Longrightarrow> A \<subseteq> A' \<Longrightarrow> slots_ok ss h A'"
  by (auto simp: slots_ok_def)

lemma slots_ok_store:
  assumes "slots_ok (slots t) h A" and "event \<noteq> null_handle"
  shows "slots_ok (slots (event_store_record event stamp t)) ((event, stamp) # h) A"
proof -
  have "slots t \<noteq> []" using assms(1) by (auto simp: slots_ok_def kLupineEventQueryBatch_def)
  then obtain i where i: "i < length (slots t)"
    "event_store_record event stamp t = t\<lparr>slots := (slots t)[i := recorded event stamp]\<rparr>"
    "slot_event (slots t ! i) = event \<or>
     (\<forall>s \<in> set (slots t). slot_event s \<noteq> event) \<and>
      (\<forall>s \<in> set (slots t). slot_record (slots t ! i) \<le> slot_record s)"
    by (rule event_store_record_slot)
  have "slot_event (slots t ! j) \<noteq> event" if "j < length (slots t)" "j \<noteq> i" for j
    using i(1,3) that slots_ok_unique [OF assms(1) that(1) i(1)] assms(2) by auto
  then show ?thesis
    using slots_ok_update [OF assms(1) i(1), of "recorded event stamp" "(event, stamp) # h" A] assms(2) i(2)
    by (simp add: recorded_def newest_record_def)
qed

lemma slots_ok_complete:
  assumes "slots_ok ss h A" and "rec \<noteq> 0" and "(event, rec) \<in> A"
  shows "slots_ok (complete_first event rec ss) h A"
proof (cases "complete_first event rec ss = ss")
  case True
  then show ?thesis using assms(1) by simp
next
  case False
  then obtain i where i: "i < length ss" "slot_event (ss ! i) = event" "slot_record (ss ! i) = rec"
      "complete_first event rec ss = ss[i := (ss ! i)\<lparr>slot_complete := True\<rparr>]"
    using complete_first_cases by blast
  have mem: "ss ! i \<in> set ss" using i(1) by simp
  then have ev: "event \<noteq> null_handle"
    using assms(1,2) i(2,3) by (auto simp: slots_ok_def empty_slot_def)
  show ?thesis
    unfolding i(4)
    using assms mem i ev by (intro slots_ok_update [OF assms(1) i(1)]) (auto simp: slots_ok_def)
qed

lemma slots_ok_answers:
  assumes "slots_ok ss h A" and "\<forall>(e, r, ok) \<in> set answers. ok \<longrightarrow> (e, r) \<in> A"
  shows "slots_ok (cache_answers answers ss) h A"
  using assms by (induction answers ss rule: cache_answers.induct) (auto intro: slots_ok_complete)

lemma slots_ok_forget:
  assumes "slots_ok ss h A" and "event \<noteq> null_handle"
  shows "slots_ok (map (\<lambda>s. if slot_event s = event then empty_slot else s) ss) h A"
  using assms by (auto simp: slots_ok_def empty_slot_def split: if_splits)

section \<open>Every step keeps the invariant\<close>

lemma stamps_ok_take:
  assumes "stamps_ok seq p h" and "seq \<noteq> -1" and "event \<noteq> null_handle"
  shows "stamps_ok (seq + 1) (insert (event, seq + 1) p) h"
proof -
  have lt: "snd x < seq + 1" if "x \<in> p \<union> set h" for x
    using assms(1,2) that by (intro less_Suc_word) (auto simp: stamps_ok_def)
  have "0 < seq + 1" using assms(2) by (intro less_Suc_word) simp_all
  then have nz: "seq + 1 \<noteq> 0" by simp
  have "seq + 1 \<notin> snd ` p"
  proof
    assume "seq + 1 \<in> snd ` p"
    then obtain x where "x \<in> p" "snd x = seq + 1" by force
    with lt [of x] show False by simp
  qed
  moreover from this have "seq + 1 \<notin> snd ` (p - {(event, seq + 1)})" by blast
  moreover have "seq + 1 \<notin> snd ` set h"
  proof
    assume "seq + 1 \<in> snd ` set h"
    then obtain x where "x \<in> set h" "snd x = seq + 1" by force
    with lt [of x] show False by simp
  qed
  moreover have "fst x \<noteq> null_handle \<and> snd x \<noteq> 0 \<and> snd x \<le> seq + 1"
    if "x \<in> insert (event, seq + 1) p \<union> set h" for x
  proof (cases "x = (event, seq + 1)")
    case True
    then show ?thesis using assms(3) nz by simp
  next
    case False
    then have x: "x \<in> p \<union> set h" using that by simp
    then have "fst x \<noteq> null_handle \<and> snd x \<noteq> 0" using assms(1) unfolding stamps_ok_def by blast
    with lt [OF x] show ?thesis by simp
  qed
  moreover have "inj_on snd p" "distinct (map snd h)" "snd ` p \<inter> snd ` set h = {}"
    using assms(1) by (simp_all add: stamps_ok_def)
  ultimately show ?thesis unfolding stamps_ok_def by (simp add: inj_on_insert)
qed

lemma stamps_ok_store:
  assumes "stamps_ok seq p h" and "(event, stamp) \<in> p"
  shows "stamps_ok seq (p - {(event, stamp)}) ((event, stamp) # h)"
proof -
  have "x = (event, stamp)" if "x \<in> p" "snd x = stamp" for x
    using assms that inj_onD [of snd p x "(event, stamp)"] by (simp add: stamps_ok_def)
  then have "stamp \<notin> snd ` (p - {(event, stamp)})" by auto
  moreover have "stamp \<notin> snd ` set h" using assms by (force simp: stamps_ok_def)
  moreover have "inj_on snd (p - {(event, stamp)})"
    using assms by (auto simp: stamps_ok_def intro: inj_on_diff)
  moreover have "\<forall>x \<in> (p - {(event, stamp)}) \<union> set ((event, stamp) # h).
      fst x \<noteq> null_handle \<and> snd x \<noteq> 0 \<and> snd x \<le> seq"
  proof
    fix x assume "x \<in> (p - {(event, stamp)}) \<union> set ((event, stamp) # h)"
    then have "x \<in> p \<union> set h" using assms(2) by auto
    then show "fst x \<noteq> null_handle \<and> snd x \<noteq> 0 \<and> snd x \<le> seq"
      using assms(1) unfolding stamps_ok_def by blast
  qed
  ultimately show ?thesis using assms(1) by (auto simp: stamps_ok_def)
qed

lemma event_step_table_facts [simp]:
  "record_seq (event_store_record event stamp t) = record_seq t"
  "stale_semaphore (event_store_record event stamp t) = stale_semaphore t"
  "record_seq (event_forget event t) = record_seq t"
  "record_seq (event_cache_completions answers t) = record_seq t"
  "record_seq (event_stale_semaphore_add delta t) = record_seq t"
  "slots (event_stale_semaphore_add delta t) = slots t"
  by (auto simp: event_store_record_def event_forget_def event_cache_completions_def
      event_stale_semaphore_add_def Let_def split: sum.splits)

lemma event_inv_init: "event_init s \<Longrightarrow> event_inv s"
  by (auto simp: event_init.simps event_inv_def slots_ok_def stamps_ok_def initial_event_table_def
      empty_slot_def)

lemma event_inv_step:
  assumes "event_step s s'" and "event_inv s"
  shows "event_inv s'"
  using assms
proof (induction rule: event_step.induct)
  case (step_take event s stamp t)
  then show ?case
    using stamps_ok_take by (auto simp: event_inv_def event_take_stamp_def)
next
  case (step_store event stamp s)
  then have "fst (event, stamp) \<noteq> null_handle" unfolding event_inv_def stamps_ok_def by blast
  then have "event \<noteq> null_handle" by simp
  with step_store show ?case using slots_ok_store stamps_ok_store by (auto simp: event_inv_def)
next
  case (step_forget event s)
  then show ?case using slots_ok_forget by (auto simp: event_inv_def event_forget_def)
next
  case (step_answers s answers)
  let ?A = "answered s \<union> {(e, r). (e, r, True) \<in> set answers}"
  have "slots_ok (slots (table s)) (history s) ?A"
    using step_answers slots_ok_mono by (auto simp: event_inv_def)
  then have "slots_ok (cache_answers answers (slots (table s))) (history s) ?A"
    by (rule slots_ok_answers) auto
  with step_answers show ?case by (simp add: event_inv_def event_cache_completions_def)
next
  case (step_stale s delta)
  then show ?case by (simp add: event_inv_def)
qed

interpretation ev: step_invariant event_init event_step event_inv
  by unfold_locales (auto intro: event_inv_init event_inv_step)

section \<open>Properties\<close>

lemma find_slot_unique:
  assumes "slots_ok ss h A" and "event \<noteq> null_handle" and "i < length ss" and "slot_event (ss ! i) = event"
  shows "find (\<lambda>s. slot_event s = event) ss = Some (ss ! i)"
proof -
  have "\<exists>j. j < length ss \<and> slot_event (ss ! j) = event \<and> find (\<lambda>s. slot_event s = event) ss = Some (ss ! j)"
  proof (cases "find (\<lambda>s. slot_event s = event) ss")
    case None
    then show ?thesis using assms(3,4) by (auto simp: find_None_iff)
  next
    case (Some s)
    then show ?thesis by (auto simp: find_Some_iff)
  qed
  then show ?thesis using slots_ok_unique [OF assms(1) _ assms(3)] assms(2,4) by auto
qed

lemma newest_record_split:
  assumes "newest_record h event = Some r"
  obtains h1 h2 where "h = h1 @ (event, r) # h2" "event \<notin> fst ` set h1"
proof -
  have "\<exists>h1 h2. h = h1 @ (event, r) # h2 \<and> event \<notin> fst ` set h1"
    using assms
  proof (induction h)
    case (Cons x h)
    show ?case
    proof (cases "fst x = event")
      case True
      with Cons.prems have "x # h = [] @ (event, r) # h" by (cases x) (simp add: newest_record_def)
      then show ?thesis by fastforce
    next
      case False
      with Cons obtain h1 h2 where "h = h1 @ (event, r) # h2" "event \<notin> fst ` set h1"
        by (cases x) (auto simp: newest_record_def)
      with False show ?thesis by (intro exI [of _ "x # h1"] exI [of _ h2]) auto
    qed
  qed (simp add: newest_record_def)
  then show thesis using that by blast
qed

text \<open>
  C10: however recording threads, forgets, arriving answers and semaphore changes
  interleave, a query is answered locally only when no deferred copy is owed, and
  then for the newest record of the event: that record's stamp is the one reported,
  no other record ever carried the stamp, and the server has answered with success
  a query that carried this event and this stamp.
\<close>

theorem local_answer_is_sound:
  assumes "event_reachable s" and "event \<noteq> null_handle"
    and "event_query_needed event (table s) = (False, r)"
  shows "stale_semaphore (table s) = 0 \<and> (event, r) \<in> answered s \<and>
    (\<exists>h1 h2. history s = h1 @ (event, r) # h2 \<and> event \<notin> fst ` set h1 \<and>
       r \<notin> snd ` set (h1 @ h2) \<and> r \<notin> snd ` pending s)"
proof -
  have inv: "event_inv s" using assms(1) by (rule ev.inv_reachable)
  from assms(3) obtain x where x: "find (\<lambda>s. slot_event s = event) (slots (table s)) = Some x"
      "slot_complete x" "slot_record x = r" and owed: "stale_semaphore (table s) = 0"
    by (auto simp: event_query_needed_def Let_def split: option.splits)
  then have "x \<in> set (slots (table s))" "slot_event x = event" by (auto simp: find_Some_iff)
  then have nr: "newest_record (history s) event = Some r" and ans: "(event, r) \<in> answered s"
    using inv x assms(2) by (auto simp: event_inv_def slots_ok_def)
  from nr obtain h1 h2 where h: "history s = h1 @ (event, r) # h2" "event \<notin> fst ` set h1"
    by (rule newest_record_split)
  have st: "stamps_ok (record_seq (table s)) (pending s) (history s)" using inv by (simp add: event_inv_def)
  then have "r \<notin> snd ` set (h1 @ h2)" unfolding stamps_ok_def h(1) by auto
  moreover have "r \<notin> snd ` pending s" using st unfolding stamps_ok_def h(1) by auto
  ultimately show ?thesis using owed ans h by blast
qed

theorem local_answer_witness:
  "\<exists>s. event_reachable s \<and> event_query_needed 7 (table s) = (False, 1) \<and> (7, 1) \<in> answered s"
proof -
  let ?s0 = "\<lparr>table = initial_event_table, pending = {}, history = [], answered = {}\<rparr>"
  let ?t1 = "snd (event_take_stamp initial_event_table)"
  let ?s1 = "?s0\<lparr>table := ?t1, pending := insert (7, 1) {}\<rparr>"
  let ?s2 = "?s1\<lparr>table := event_store_record 7 1 ?t1, pending := insert (7, 1) {} - {(7, 1)}, history := [(7, 1)]\<rparr>"
  let ?s3 = "?s2\<lparr>table := event_cache_completions [(7, 1, True)] (event_store_record 7 1 ?t1),
      answered := {} \<union> {(e, r). (e, r, True) \<in> set [(7, 1, True)]}\<rparr>"
  have "event_reachable ?s0" by (intro reach_init event_init.intros)
  moreover have "event_step ?s0 ?s1"
    using event_step.step_take [of 7 ?s0 1 ?t1] by (simp add: initial_event_table_def event_take_stamp_def)
  moreover have "event_step ?s1 ?s2" using event_step.step_store [of 7 1 ?s1] by simp
  moreover have "event_step ?s2 ?s3" using event_step.step_answers [of ?s2 "[(7, 1, True)]"] by simp
  ultimately have reach: "event_reachable ?s3" by (meson reach_step)
  have q: "event_query_needed 7 (table ?s3) = (False, 1)"
    by (simp add: event_query_needed_def event_cache_completions_def event_store_record_def
        event_take_stamp_def initial_event_table_def kLupineEventQueryBatch_def numeral_eq_Suc empty_slot_def)
  from local_answer_is_sound [OF reach _ q] have "(7, 1) \<in> answered ?s3" by simp
  with reach q show ?thesis by blast
qed

text \<open>
  C28: recording an event voids its cached completion and tracks it under the new
  stamp; it takes over a slot only when the event has none, and then the slot of the
  oldest record (an unused slot, while there is one), so every other tracked event keeps its slot.
\<close>

theorem record_tracks_event:
  assumes "event_reachable s" and "event \<noteq> null_handle"
  defines "t \<equiv> table s"
  defines "t' \<equiv> event_invalidate_completion event t"
  shows "event_query_needed event t' = (True, record_seq t + 1) \<and>
    (\<exists>i < length (slots t). slots t' = (slots t)[i := recorded event (record_seq t + 1)] \<and>
      (slot_event (slots t ! i) = event \<or>
       ((\<forall>x \<in> set (slots t). slot_event x \<noteq> event) \<and>
        (\<forall>x \<in> set (slots t). slot_record (slots t ! i) \<le> slot_record x))))"
proof -
  have inv: "slots_ok (slots t) (history s) (answered s)"
    using ev.inv_reachable [OF assms(1)] by (simp add: event_inv_def t_def)
  let ?t = "t\<lparr>record_seq := record_seq t + 1\<rparr>"
  have t': "t' = event_store_record event (record_seq t + 1) ?t"
    by (simp add: t'_def event_invalidate_completion_def event_take_stamp_def)
  have "slots ?t \<noteq> []" using inv by (auto simp: slots_ok_def kLupineEventQueryBatch_def)
  then obtain i where i: "i < length (slots ?t)"
    "event_store_record event (record_seq t + 1) ?t = ?t\<lparr>slots := (slots ?t)[i := recorded event (record_seq t + 1)]\<rparr>"
    "slot_event (slots ?t ! i) = event \<or>
     ((\<forall>x \<in> set (slots ?t). slot_event x \<noteq> event) \<and>
      (\<forall>x \<in> set (slots ?t). slot_record (slots ?t ! i) \<le> slot_record x))"
    by (rule event_store_record_slot)
  have ok: "slots_ok (slots t') ((event, record_seq t + 1) # history s) (answered s)"
    using slots_ok_store [of ?t] inv assms(2) t' by simp
  have "slots t' ! i = recorded event (record_seq t + 1)" using i t' by simp
  then have "find (\<lambda>x. slot_event x = event) (slots t') = Some (recorded event (record_seq t + 1))"
    using find_slot_unique [OF ok assms(2), of i] i t' by (simp add: recorded_def)
  then have "event_query_needed event t' = (True, record_seq t + 1)"
    by (simp add: event_query_needed_def recorded_def Let_def)
  with i t' show ?thesis by auto
qed

theorem record_tracks_witness:
  "event_query_needed 9 (event_invalidate_completion 9 initial_event_table) = (True, 1)"
proof -
  let ?s0 = "\<lparr>table = initial_event_table, pending = {}, history = [], answered = {}\<rparr>"
  have "event_reachable ?s0" by (intro reach_init event_init.intros)
  from record_tracks_event [OF this, of 9] show ?thesis by (simp add: initial_event_table_def)
qed

end
