(* ===== verification/Std_String.thy ===== *)
theory Std_String
  imports Prelude
begin

text \<open>
  The parts of the C++ string library the code uses, on character lists: searches
  that give a position or \<^verbatim>\<open>npos\<close> (\<^term>\<open>None\<close>), substrings, ASCII case, decimal and
  hexadecimal numerals, with the lemmas that parsing and printing proofs share.
\<close>

section \<open>Searching\<close>

fun find_index :: "('a \<Rightarrow> bool) \<Rightarrow> 'a list \<Rightarrow> nat option" where
  "find_index P [] = None"
| "find_index P (x # xs) = (if P x then Some 0 else map_option Suc (find_index P xs))"

definition str_find_char :: "char \<Rightarrow> string \<Rightarrow> nat \<Rightarrow> nat option" where
  "str_find_char c s pos = map_option (\<lambda>i. pos + i) (find_index (\<lambda>x. x = c) (drop pos s))"

definition starts_with :: "string \<Rightarrow> string \<Rightarrow> bool" where
  "starts_with p s = (take (length p) s = p)"

fun find_sub :: "string \<Rightarrow> string \<Rightarrow> nat option" where
  "find_sub p [] = (if p = [] then Some 0 else None)"
| "find_sub p (c # s) = (if starts_with p (c # s) then Some 0 else map_option Suc (find_sub p s))"

definition str_find :: "string \<Rightarrow> string \<Rightarrow> nat \<Rightarrow> nat option" where
  "str_find p s pos = (if pos \<le> length s then map_option (\<lambda>i. pos + i) (find_sub p (drop pos s)) else None)"

text \<open>\<^verbatim>\<open>substr(pos, n)\<close>, with \<^verbatim>\<open>npos\<close> for the rest of the string.\<close>

definition substr :: "string \<Rightarrow> nat \<Rightarrow> nat option \<Rightarrow> string" where
  "substr s pos n = (case n of None \<Rightarrow> drop pos s | Some n \<Rightarrow> take n (drop pos s))"

text \<open>The specification: the text cut at its commas.\<close>

fun split_commas :: "string \<Rightarrow> string list" where
  "split_commas [] = [[]]"
| "split_commas (c # s) =
     (if c = CHR '','' then [] # split_commas s
      else case split_commas s of [] \<Rightarrow> [[c]] | t # ts \<Rightarrow> (c # t) # ts)"

fun join_commas :: "string list \<Rightarrow> string" where
  "join_commas [] = []"
| "join_commas [t] = t"
| "join_commas (t # ts) = t @ CHR '','' # join_commas ts"

section \<open>Characters and numerals\<close>

definition code :: "char \<Rightarrow> nat" where
  "code c = of_char c"

definition is_digit :: "char \<Rightarrow> bool" where
  "is_digit c = (48 \<le> code c \<and> code c \<le> 57)"

definition is_blank :: "char \<Rightarrow> bool" where
  "is_blank c = (c = CHR '' '' \<or> c = CHR 0x09)"

text \<open>\<^verbatim>\<open>tolower\<close> of the C locale, and the hand-written \<^verbatim>\<open>ascii_lower\<close>, on one character.\<close>

definition char_lower :: "char \<Rightarrow> char" where
  "char_lower c = (if 65 \<le> code c \<and> code c \<le> 90 then char_of (code c + 32) else c)"

definition digit_char :: "nat \<Rightarrow> char" where
  "digit_char d = char_of (48 + d)"

text \<open>\<^verbatim>\<open>std::to_string\<close> of an unsigned value.\<close>

fun to_decimal :: "nat \<Rightarrow> string" where
  "to_decimal n = (if n < 10 then [digit_char n] else to_decimal (n div 10) @ [digit_char (n mod 10)])"

declare to_decimal.simps [simp del]

definition digit_value :: "char \<Rightarrow> nat" where
  "digit_value c = code c - 48"

definition decimal_value :: "string \<Rightarrow> nat" where
  "decimal_value s = foldl (\<lambda>n c. 10 * n + digit_value c) 0 s"

section \<open>Lemmas on searches\<close>

lemma find_index_None: "find_index P xs = None \<longleftrightarrow> (\<forall>x \<in> set xs. \<not> P x)"
  by (induction xs) auto

lemma find_index_first:
  "\<forall>x \<in> set xs. \<not> P x \<Longrightarrow> P y \<Longrightarrow> find_index P (xs @ y # ys) = Some (length xs)"
  by (induction xs) auto

lemma find_index_Some:
  "find_index P xs = Some i \<Longrightarrow> i < length xs \<and> P (xs ! i) \<and> (\<forall>x \<in> set (take i xs). \<not> P x)"
  by (induction xs arbitrary: i) (auto split: if_splits)

lemma str_find_char_bounds:
  "str_find_char c s pos = Some i \<Longrightarrow> pos \<le> i \<and> i < length s"
  by (auto simp: str_find_char_def dest!: find_index_Some)

lemma starts_with_append [simp]: "starts_with p (p @ s)"
  by (simp add: starts_with_def)

lemma starts_with_iff: "starts_with p s \<longleftrightarrow> (\<exists>r. s = p @ r)"
  by (metis append_take_drop_id starts_with_append starts_with_def)

lemma starts_with_length: "starts_with p s \<Longrightarrow> length p \<le> length s"
  by (auto simp: starts_with_iff)

lemma find_sub_bounds: "find_sub p s = Some i \<Longrightarrow> i + length p \<le> length s"
proof (induction p s arbitrary: i rule: find_sub.induct)
  case (2 p c s)
  then show ?case using starts_with_length [of p "c # s"] by (auto split: if_splits)
qed (auto split: if_splits)

lemma str_find_bounds: "str_find p s pos = Some i \<Longrightarrow> pos \<le> i \<and> i + length p \<le> length s"
  by (auto simp: str_find_def split: if_splits dest!: find_sub_bounds)

text \<open>A separator is found at the end of a text that does not contain its first character.\<close>

lemma find_sub_first:
  assumes "c \<notin> set line"
  shows "find_sub (c # p) (line @ (c # p) @ rest) = Some (length line)"
  using assms
proof (induction line)
  case Nil
  have "starts_with (c # p) ((c # p) @ rest)" by (rule starts_with_append)
  then show ?case by simp
next
  case (Cons x line)
  then have "\<not> starts_with (c # p) (x # line @ (c # p) @ rest)" by (auto simp: starts_with_def)
  with Cons show ?case by simp
qed

section \<open>Lemmas on characters\<close>

lemma code_inject: "code a = code b \<Longrightarrow> a = b"
  by (simp add: code_def of_char_eq_iff)

lemma code_char_of: "n < 256 \<Longrightarrow> code (char_of n) = n"
  by (simp add: code_def)

lemma digit_char_code: "d < 10 \<Longrightarrow> code (digit_char d) = 48 + d"
  by (simp add: digit_char_def code_char_of)

lemma digit_char_is_digit [simp]: "d < 10 \<Longrightarrow> is_digit (digit_char d)"
  by (simp add: is_digit_def digit_char_code)

lemma digit_value_char [simp]: "d < 10 \<Longrightarrow> digit_value (digit_char d) = d"
  by (simp add: digit_value_def digit_char_code)

lemma is_digit_not_blank: "is_digit c \<Longrightarrow> \<not> is_blank c"
  by (auto simp: is_digit_def is_blank_def code_def)

lemma is_digit_not_special:
  "is_digit c \<Longrightarrow> c \<noteq> CHR '','' \<and> c \<noteq> CHR ''-'' \<and> c \<noteq> CHR ''G'' \<and> c \<noteq> CHR '':'' \<and> c \<noteq> CHR 0x0D"
  by (auto simp: is_digit_def code_def)

lemma char_lower_digit: "is_digit c \<Longrightarrow> char_lower c = c"
  by (simp add: is_digit_def char_lower_def)

lemma char_lower_idem [simp]: "char_lower (char_lower c) = char_lower c"
  by (simp add: char_lower_def code_char_of)

lemma to_decimal_digits: "\<forall>c \<in> set (to_decimal n). is_digit c"
  by (induction n rule: to_decimal.induct) (subst to_decimal.simps, auto)

lemma to_decimal_nonempty [simp]: "to_decimal n \<noteq> []"
  by (subst to_decimal.simps) simp

lemma decimal_value_append:
  "decimal_value (s @ [c]) = 10 * decimal_value s + digit_value c"
  by (simp add: decimal_value_def)

text \<open>Printing and reading a decimal numeral is the identity.\<close>

lemma decimal_value_to_decimal [simp]: "decimal_value (to_decimal n) = n"
proof (induction n rule: to_decimal.induct)
  case (1 n)
  show ?case
  proof (cases "n < 10")
    case True
    then show ?thesis by (subst to_decimal.simps) (simp add: decimal_value_def)
  next
    case False
    with 1 show ?thesis by (subst to_decimal.simps) (simp add: decimal_value_append)
  qed
qed

section \<open>Texts cut at commas\<close>

lemma split_commas_nonempty [simp]: "split_commas s \<noteq> []"
  by (cases s) (auto split: list.splits)

lemma split_commas_none: "CHR '','' \<notin> set s \<Longrightarrow> split_commas s = [s]"
  by (induction s) auto

lemma split_commas_first:
  "CHR '','' \<notin> set t \<Longrightarrow> split_commas (t @ CHR '','' # s) = t # split_commas s"
  by (induction t) auto

lemma split_join_commas:
  "ts \<noteq> [] \<Longrightarrow> \<forall>t \<in> set ts. CHR '','' \<notin> set t \<Longrightarrow> split_commas (join_commas ts) = ts"
  by (induction ts rule: join_commas.induct) (auto simp: split_commas_none split_commas_first)

lemma split_commas_last:
  assumes "str_find_char (CHR '','') str pos = None"
  shows "split_commas (drop pos str) = [substr str pos None]"
proof -
  have "find_index (\<lambda>x. x = CHR '','') (drop pos str) = None"
    using assms by (simp add: str_find_char_def)
  then have "CHR '','' \<notin> set (drop pos str)" by (simp only: find_index_None) blast
  then show ?thesis unfolding substr_def option.case by (rule split_commas_none)
qed

lemma split_commas_next:
  assumes "str_find_char (CHR '','') str pos = Some c"
  shows "split_commas (drop pos str) = substr str pos (Some (c - pos)) # split_commas (drop (Suc c) str)"
proof -
  obtain i where i: "find_index (\<lambda>x. x = CHR '','') (drop pos str) = Some i" "c = pos + i"
    using assms by (auto simp: str_find_char_def)
  from find_index_Some [OF i(1)] have
    lt: "i < length (drop pos str)" and comma: "drop pos str ! i = CHR '',''"
    and free: "CHR '','' \<notin> set (take i (drop pos str))" by auto
  have "drop pos str = take i (drop pos str) @ CHR '','' # drop (Suc c) str"
    using id_take_nth_drop [OF lt] comma i(2) by (simp add: add.commute)
  then have "split_commas (drop pos str) = take i (drop pos str) # split_commas (drop (Suc c) str)"
    using split_commas_first [OF free] by metis
  then show ?thesis by (simp add: substr_def i(2))
qed

end
