(* ===== verification/Visible_Devices.thy ===== *)
theory Visible_Devices
  imports Std_String
begin

text \<open>
  The selection of visible devices (\<^verbatim>\<open>visible_devices.cpp\<close>): the value of
  \<^verbatim>\<open>CUDA_VISIBLE_DEVICES\<close> is read into a list of device indices.
\<close>

section \<open>Definitions\<close>

text \<open>
  Blanks around the token go, then one \<^verbatim>\<open>GPU-\<close> prefix, hyphens and upper case.
\<close>

definition normalize_token :: "string \<Rightarrow> string" where
  "normalize_token token =
     (let token = dropWhile is_blank token in
      if token = [] then []
      else let token = rev (dropWhile is_blank (rev token));
               token = (if starts_with ''GPU-'' token then drop 4 token else token)
           in map char_lower (filter (\<lambda>c. c \<noteq> CHR ''-'') token))"

text \<open>\<^verbatim>\<open>strtol\<close> of a string of digits: the value, saturating at \<^verbatim>\<open>LONG_MAX\<close>.\<close>

definition strtol_digits :: "string \<Rightarrow> int" where
  "strtol_digits s = int (min (decimal_value s) (2 ^ 63 - 1))"

text \<open>The first device that has the UUID; the UUIDs come from the driver, a parameter.\<close>

definition uuid_match :: "(int \<Rightarrow> string) \<Rightarrow> int \<Rightarrow> string \<Rightarrow> int option" where
  "uuid_match uuid_hex count token =
     find (\<lambda>i. uuid_hex i \<noteq> [] \<and> uuid_hex i = token) (map int [0..<nat count])"

definition select_token :: "(int \<Rightarrow> string) \<Rightarrow> int \<Rightarrow> string \<Rightarrow> int list" where
  "select_token uuid_hex count token =
     (if token = [] then []
      else if list_all is_digit token
           then let index = strtol_digits token in
                if 0 \<le> index \<and> index < count then [index] else []
      else if length token \<ge> 16
           then (case uuid_match uuid_hex count token of None \<Rightarrow> [] | Some i \<Rightarrow> [i])
      else [])"

text \<open>The loop over the comma-separated tokens, by position.\<close>

function select_loop :: "(int \<Rightarrow> string) \<Rightarrow> int \<Rightarrow> string \<Rightarrow> nat \<Rightarrow> int list" where
  "select_loop uuid_hex count str pos =
     (if length str < pos then []
      else let comma = str_find_char (CHR '','') str pos;
               token = normalize_token (substr str pos (map_option (\<lambda>c. c - pos) comma));
               chosen = select_token uuid_hex count token
           in case comma of
                None \<Rightarrow> chosen
              | Some c \<Rightarrow> chosen @ select_loop uuid_hex count str (Suc c))"
  by pat_completeness auto
termination
  by (relation "measure (\<lambda>(u, n, str, pos). Suc (length str) - pos)")
     (auto dest!: str_find_char_bounds [OF sym])

declare select_loop.simps [simp del]

definition select_visible_devices ::
    "string option \<Rightarrow> int \<Rightarrow> (int \<Rightarrow> string) \<Rightarrow> int list" where
  "select_visible_devices spec count uuid_hex =
     (if count \<le> 0 then []
      else case spec of
        None \<Rightarrow> map int [0..<nat count]
      | Some str \<Rightarrow>
          if str = [] \<or> str = ''-1'' then []
          else select_loop uuid_hex count str 0)"

section \<open>Tokens\<close>

lemma select_loop_split:
  "pos \<le> length str \<Longrightarrow> select_loop uuid_hex count str pos
     = concat (map (\<lambda>t. select_token uuid_hex count (normalize_token t)) (split_commas (drop pos str)))"
proof (induction uuid_hex count str pos rule: select_loop.induct)
  case (1 uuid_hex count str pos)
  show ?case
  proof (cases "str_find_char (CHR '','') str pos")
    case None
    with "1.prems" show ?thesis by (subst select_loop.simps) (simp add: split_commas_last [OF None])
  next
    case (Some c)
    with "1.IH" "1.prems" str_find_char_bounds [OF Some] show ?thesis
      by (subst select_loop.simps) (simp add: split_commas_next [OF Some])
  qed
qed

section \<open>Bounds\<close>

lemma uuid_match_range:
  assumes "uuid_match uuid_hex count t = Some j"
  shows "0 \<le> j \<and> j < count"
proof -
  have "find P xs = Some j \<Longrightarrow> j \<in> set xs" for P and xs :: "int list"
    by (induction xs) (auto split: if_splits)
  with assms have "j \<in> set (map int [0..<nat count])" unfolding uuid_match_def by blast
  then show ?thesis by auto
qed

lemma select_token_range: "list_all (\<lambda>i. 0 \<le> i \<and> i < count) (select_token uuid_hex count t)"
  unfolding select_token_def Let_def by (simp add: uuid_match_range split: option.split)

lemma select_loop_range:
  assumes "pos \<le> length str"
  shows "list_all (\<lambda>i. 0 \<le> i \<and> i < count) (select_loop uuid_hex count str pos)"
  unfolding select_loop_split [OF assms] list_all_iff using select_token_range by (fastforce simp: list_all_iff)

lemma select_visible_range: "list_all (\<lambda>i. 0 \<le> i \<and> i < count) (select_visible_devices spec count uuid_hex)"
proof -
  have "list_all (\<lambda>i. 0 \<le> i \<and> i < count) (map int [0..<nat count])" by (auto simp: list_all_iff)
  then show ?thesis by (simp add: select_visible_devices_def select_loop_range split: option.split)
qed

lemma normalize_digits:
  assumes "list_all is_digit t"
  shows "normalize_token t = t"
proof (cases t)
  case Nil
  then show ?thesis by (simp add: normalize_token_def)
next
  case (Cons c s)
  have d: "\<forall>x \<in> set t. is_digit x" using assms by (simp add: list_all_iff)
  then have nb: "\<forall>x \<in> set t. \<not> is_blank x" using is_digit_not_blank by blast
  have dw: "dropWhile is_blank u = u" if "\<forall>x \<in> set u. \<not> is_blank x" for u
    using that by (cases u) auto
  have "\<not> starts_with ''GPU-'' t" using d Cons is_digit_not_special [of c] by (auto simp: starts_with_def)
  moreover have "filter (\<lambda>c. c \<noteq> CHR ''-'') t = t" using d is_digit_not_special by (auto simp: filter_id_conv)
  moreover have "map char_lower t = t" using d char_lower_digit by (simp add: map_idI)
  ultimately show ?thesis using Cons nb by (simp add: normalize_token_def dw Let_def)
qed

lemma select_decimal:
  assumes "count \<le> 2 ^ 31 - 1"
  shows "select_token uuid_hex count (normalize_token (to_decimal n)) = (if int n < count then [int n] else [])"
proof -
  have d: "list_all is_digit (to_decimal n)" using to_decimal_digits by (simp add: list_all_iff)
  have "strtol_digits (to_decimal n) = int (min n (2 ^ 63 - 1))" by (simp add: strtol_digits_def)
  moreover have "int (min n (2 ^ 63 - 1)) < count \<longleftrightarrow> int n < count"
    "int n < count \<Longrightarrow> min n (2 ^ 63 - 1) = n" using assms by auto
  ultimately show ?thesis using d by (simp add: normalize_digits select_token_def Let_def)
qed

section \<open>Properties\<close>

text \<open>
  Every selected index names a device: whatever the variable holds and whatever
  UUIDs the driver reports, the result lies in the device list, and an unset
  variable selects all of it in order.
\<close>

theorem visible_devices_in_range:
  "list_all (\<lambda>i. 0 \<le> i \<and> i < count) (select_visible_devices spec count uuid_hex) \<and>
   select_visible_devices None count uuid_hex = map int [0..<nat count]"
  using select_visible_range by (simp add: select_visible_devices_def)

text \<open>
  C33: a comma-separated list of decimal indices selects exactly the indices that are
  in range, in the order written and with repetitions kept.
\<close>

theorem visible_devices_roundtrip:
  assumes "0 < count" and "count \<le> 2 ^ 31 - 1" and "ns \<noteq> []"
  shows "select_visible_devices (Some (join_commas (map to_decimal ns))) count uuid_hex
           = filter (\<lambda>i. i < count) (map int ns)"
proof -
  let ?s = "join_commas (map to_decimal ns)"
  have free: "\<forall>t \<in> set (map to_decimal ns). CHR '','' \<notin> set t"
    using to_decimal_digits is_digit_not_special by fastforce
  have first: "\<exists>c r. ?s = c # r \<and> is_digit c"
  proof -
    obtain n ns' where ns: "ns = n # ns'" using assms(3) by (cases ns) auto
    obtain c r where c: "to_decimal n = c # r" using to_decimal_nonempty [of n] by (cases "to_decimal n") auto
    then have "is_digit c" using to_decimal_digits [of n] by simp
    with ns c show ?thesis by (cases ns') auto
  qed
  then have "?s \<noteq> []" "?s \<noteq> ''-1''" using is_digit_not_special by fastforce+
  then have "select_visible_devices (Some ?s) count uuid_hex
      = concat (map (\<lambda>t. select_token uuid_hex count (normalize_token t)) (split_commas ?s))"
    using assms(1) by (simp add: select_visible_devices_def select_loop_split)
  also have "split_commas ?s = map to_decimal ns"
    using split_join_commas [OF _ free] assms(3) by simp
  also have "concat (map (\<lambda>t. select_token uuid_hex count (normalize_token t)) (map to_decimal ns))
      = filter (\<lambda>i. i < count) (map int ns)"
    by (induction ns) (auto simp: select_decimal [OF assms(2)])
  finally show ?thesis .
qed

theorem visible_devices_witness:
  "select_visible_devices (Some (join_commas (map to_decimal [3, 9, 1]))) 4 (\<lambda>i. ''aaaa'') = [3, 1]"
  using visible_devices_roundtrip [of 4 "[3, 9, 1]" "\<lambda>i. ''aaaa''"] by simp



end
