(* ===== verification/Http_Dispatch.thy ===== *)
theory Http_Dispatch
  imports Std_String
begin

text \<open>
  Protocol dispatch on the server's port (\<^verbatim>\<open>dispatch.cpp\<close>) and the client bundles it
  serves (\<^verbatim>\<open>client_bundle.cpp\<close>): classification of the first bytes, the HTTP/1.x
  responses, the request header lookup and the request handlers. The socket calls
  are parameters: the outcomes of the receives and of the sends are lists.
\<close>

section \<open>Client bundles\<close>

text \<open>A chunk is its bytes, or nothing for a null pointer.\<close>

record client_bundle_payload =
  etag :: string
  content_digest :: string
  chunks :: "string option list"
  bundle_size :: nat

record client_bundle_entry =
  entry_platform :: "string option"
  entry_payload :: "client_bundle_payload option"

type_synonym client_bundle_registry = "client_bundle_entry list"

definition kClientBundlePrefix :: string where
  "kClientBundlePrefix = ''/.well-known/lupine/client/v1/''"

definition kClientPlatforms :: "string list" where
  "kClientPlatforms = [''linux/amd64'', ''linux/arm64'', ''macos/amd64'',
     ''macos/arm64'', ''windows/amd64'', ''windows/arm64'']"

definition platform_supported :: "string \<Rightarrow> bool" where
  "platform_supported platform = list_ex (\<lambda>s. platform = s) kClientPlatforms"

fun bundle_scan :: "string \<Rightarrow> client_bundle_registry \<Rightarrow> client_bundle_payload option" where
  "bundle_scan platform [] = None"
| "bundle_scan platform (e # es) =
     (if entry_platform e \<noteq> None \<and> entry_payload e \<noteq> None \<and> entry_platform e = Some platform
      then entry_payload e else bundle_scan platform es)"

definition client_bundle_lookup ::
    "client_bundle_registry option \<Rightarrow> string \<Rightarrow> client_bundle_payload option" where
  "client_bundle_lookup registry platform =
     (case registry of None \<Rightarrow> None | Some es \<Rightarrow> bundle_scan platform es)"

definition client_bundle_request_platform :: "string \<Rightarrow> string option" where
  "client_bundle_request_platform path =
     (if \<not> starts_with kClientBundlePrefix path then None
      else let candidate = drop (length kClientBundlePrefix) path in
        if platform_supported candidate then Some candidate else None)"

section \<open>The socket\<close>

text \<open>
  What the process has written, and the results of the sends to come: each call
  accepts that many bytes of what it is given; a result that is not positive, or
  none left, is an error.
\<close>

record http_socket =
  written :: string
  send_results :: "int list"

function send_all :: "string \<Rightarrow> http_socket \<Rightarrow> bool \<times> http_socket" where
  "send_all data fd =
     (if data = [] then (True, fd)
      else case send_results fd of
        [] \<Rightarrow> (False, fd)
      | sent # rest \<Rightarrow>
          if sent \<le> 0 then (False, fd\<lparr>send_results := rest\<rparr>)
          else send_all (drop (nat sent) data)
                 (fd\<lparr>written := written fd @ take (nat sent) data, send_results := rest\<rparr>))"
  by pat_completeness auto
termination
  by (relation "measure (\<lambda>(data, fd). length data)") auto

declare send_all.simps [simp del]

section \<open>Responses\<close>

record server_metadata =
  backend_version :: "string option"
  client_bundles :: "client_bundle_registry option"

definition crlf :: string where
  "crlf = [CHR 0x0D, CHR 0x0A]"

definition header_line :: "string \<times> string \<Rightarrow> string" where
  "header_line h = fst h @ '': '' @ snd h @ crlf"

definition http1_headers ::
    "nat \<Rightarrow> string \<Rightarrow> nat \<Rightarrow> string option \<Rightarrow> (string \<times> string) list \<Rightarrow> server_metadata option \<Rightarrow> string" where
  "http1_headers status reason content_length content_type headers metadata =
     (let response = ''HTTP/1.1 '' @ to_decimal status @ '' '' @ reason @ crlf;
          response = (case metadata of
              None \<Rightarrow> response
            | Some m \<Rightarrow> (case backend_version m of
                None \<Rightarrow> response
              | Some v \<Rightarrow> if v \<noteq> [] then response @ ''x-lupine-cuda-version: '' @ v @ crlf else response));
          response = (case content_type of
              None \<Rightarrow> response
            | Some t \<Rightarrow> response @ ''content-type: '' @ t @ crlf);
          response = response @ concat (map header_line headers);
          response = response @ ''content-length: '' @ to_decimal content_length @ crlf
      in response @ ''connection: close'' @ crlf @ crlf)"

definition http1_response ::
    "nat \<Rightarrow> string \<Rightarrow> string \<Rightarrow> bool \<Rightarrow> server_metadata option \<Rightarrow> (string \<times> string) list \<Rightarrow> string \<Rightarrow> string" where
  "http1_response status reason body include_body metadata headers content_type =
     (let response = http1_headers status reason (length body) (Some content_type) headers metadata
      in if include_body then response @ body else response)"

fun send_chunks :: "string option list \<Rightarrow> nat \<Rightarrow> http_socket \<Rightarrow> nat option \<times> http_socket" where
  "send_chunks [] sent fd = (Some sent, fd)"
| "send_chunks (None # cs) sent fd = (None, fd)"
| "send_chunks (Some data # cs) sent fd =
     (case send_all data fd of
        (False, fd) \<Rightarrow> (None, fd)
      | (True, fd) \<Rightarrow> send_chunks cs (sent + length data) fd)"

definition send_bundle :: "client_bundle_payload \<Rightarrow> http_socket \<Rightarrow> bool \<times> http_socket" where
  "send_bundle bundle fd =
     (case send_chunks (chunks bundle) 0 fd of
        (None, fd) \<Rightarrow> (False, fd)
      | (Some sent, fd) \<Rightarrow> (sent = bundle_size bundle, fd))"

section \<open>Requests\<close>

definition ascii_lower :: "string \<Rightarrow> string" where
  "ascii_lower v = map char_lower v"

definition strip_blanks :: "string \<Rightarrow> string" where
  "strip_blanks v = rev (dropWhile is_blank (rev (dropWhile is_blank v)))"

function request_header_from :: "string \<Rightarrow> string \<Rightarrow> nat \<Rightarrow> string" where
  "request_header_from request wanted line_start =
     (if length request \<le> line_start then []
      else case str_find crlf request line_start of
        None \<Rightarrow> []
      | Some line_end \<Rightarrow>
          if line_end = line_start then []
          else case str_find_char (CHR '':'') request line_start of
            Some colon \<Rightarrow>
              if colon < line_end \<and>
                 ascii_lower (substr request line_start (Some (colon - line_start))) = wanted
              then strip_blanks (substr request (Suc colon) (Some (line_end - Suc colon)))
              else request_header_from request wanted (line_end + 2)
          | None \<Rightarrow> request_header_from request wanted (line_end + 2))"
  by pat_completeness auto
termination
  by (relation "measure (\<lambda>(r, w, p). Suc (length r) - p)")
     (auto dest!: str_find_bounds)

declare request_header_from.simps [simp del]

definition request_header :: "string \<Rightarrow> string \<Rightarrow> string" where
  "request_header request wanted =
     (case str_find crlf request 0 of
        None \<Rightarrow> []
      | Some line_start \<Rightarrow> request_header_from request wanted (line_start + 2))"

text \<open>The result of a handler: served (1), left to the next route (0), failed (-1).\<close>

definition serve_client_bundle ::
    "string \<Rightarrow> string \<Rightarrow> string \<Rightarrow> server_metadata option \<Rightarrow> http_socket \<Rightarrow> int \<times> http_socket" where
  "serve_client_bundle mthd path request metadata fd =
     (let head = (mthd = ''HEAD'') in
      if \<not> head \<and> mthd \<noteq> ''GET''
      then (1, snd (send_all (http1_response 405 ''Method Not Allowed''
              (''method not allowed'' @ [CHR 0x0A]) True metadata [(''allow'', ''GET, HEAD'')] ''text/plain'') fd))
      else case client_bundle_request_platform path of
        None \<Rightarrow> (0, fd)
      | Some platform \<Rightarrow>
          (case client_bundle_lookup (case metadata of None \<Rightarrow> None | Some m \<Rightarrow> client_bundles m) platform of
             None \<Rightarrow> (1, snd (send_all (http1_response 503 ''Service Unavailable''
               (''client bundle unavailable'' @ [CHR 0x0A]) (\<not> head) metadata [] ''text/plain'') fd))
           | Some bundle \<Rightarrow>
               let headers = [(''etag'', etag bundle), (''content-digest'', content_digest bundle),
                              (''cache-control'', ''no-cache'')]
               in if request_header request ''if-none-match'' = etag bundle
                  then (case send_all (http1_headers 304 ''Not Modified'' 0 None headers metadata) fd of
                          (ok, fd) \<Rightarrow> (if ok then 1 else -1, fd))
                  else case send_all (http1_headers 200 ''OK'' (bundle_size bundle)
                              (Some ''application/vnd.lupine.client-bundle.v1+zip'') headers metadata) fd of
                      (False, fd) \<Rightarrow> (-1, fd)
                    | (True, fd) \<Rightarrow>
                        if head then (1, fd)
                        else (case send_bundle bundle fd of (ok, fd) \<Rightarrow> (if ok then 1 else -1, fd))))"

text \<open>What a receive returns: interrupted, bytes, or the end (zero or an error).\<close>

datatype receive = Interrupted | Bytes string | Ended

definition kMaxHttp1RequestBytes :: nat where
  "kMaxHttp1RequestBytes = 8192"

fun read_request :: "string \<Rightarrow> receive list \<Rightarrow> string option" where
  "read_request request rs =
     (if str_find (crlf @ crlf) request 0 \<noteq> None then Some request
      else if kMaxHttp1RequestBytes \<le> length request then None
      else case rs of
        [] \<Rightarrow> None
      | Interrupted # rs \<Rightarrow> read_request request rs
      | Ended # rs \<Rightarrow> None
      | Bytes chunk # rs \<Rightarrow> if chunk = [] then None else read_request (request @ chunk) rs)"

declare read_request.simps [simp del]

definition serve_request ::
    "string \<Rightarrow> server_metadata option \<Rightarrow> string option \<Rightarrow> http_socket \<Rightarrow> int \<times> http_socket" where
  "serve_request request metadata metrics fd =
     (let line = substr request 0 (str_find crlf request 0);
          method_end = str_find_char (CHR '' '') line 0;
          path_end = (case method_end of None \<Rightarrow> None | Some e \<Rightarrow> str_find_char (CHR '' '') line (Suc e))
      in case (method_end, path_end) of
        (Some me, Some pe) \<Rightarrow>
          let mthd = substr line 0 (Some me);
              path = substr line (Suc me) (Some (pe - me - 1));
              (result, fd) = (if starts_with kClientBundlePrefix path
                              then serve_client_bundle mthd path request metadata fd else (0, fd))
          in if result \<noteq> 0 then (result, fd)
             else let head = (mthd = ''HEAD'') in
               if path = ''/'' \<and> (head \<or> mthd = ''GET'')
               then (1, snd (send_all (http1_response 200 ''OK'' (''lupine'' @ [CHR 0x0A]) (\<not> head) metadata [] ''text/plain'') fd))
               else if metrics \<noteq> None \<and> mthd = ''GET'' \<and> (path = ''/metrics'' \<or> starts_with ''/metrics?'' path)
               then (1, snd (send_all (http1_response 200 ''OK'' (the metrics) True metadata []
                       ''text/plain; version=0.0.4; charset=utf-8'') fd))
               else (1, snd (send_all (http1_response 404 ''Not Found'' (''not found'' @ [CHR 0x0A]) (\<not> head) metadata [] ''text/plain'') fd))
      | _ \<Rightarrow> (1, snd (send_all (http1_response 400 ''Bad Request'' (''bad request'' @ [CHR 0x0A]) True metadata [] ''text/plain'') fd)))"

definition serve_http1 ::
    "receive list \<Rightarrow> server_metadata option \<Rightarrow> string option \<Rightarrow> http_socket \<Rightarrow> int \<times> http_socket" where
  "serve_http1 rs metadata metrics fd =
     (case read_request [] rs of
        None \<Rightarrow> (-1, fd)
      | Some request \<Rightarrow> serve_request request metadata metrics fd)"

section \<open>Classification\<close>

definition kH2Preface :: string where
  "kH2Preface = ''PRI * HTTP/2.0'' @ crlf @ crlf @ ''SM'' @ crlf @ crlf"

definition h2_preface_check :: "string \<Rightarrow> int" where
  "h2_preface_check data =
     (let compare = min (length data) (length kH2Preface) in
      if take compare data \<noteq> take compare kH2Preface then -1
      else if length kH2Preface \<le> length data then 1 else 0)"

text \<open>
  The peeks do not consume: each outcome is what is queued at that moment, cut at
  the length of the preface. \<^term>\<open>None\<close> is a loop that still waits for bytes.
\<close>

fun connection_dispatch ::
    "receive list \<Rightarrow> receive list \<Rightarrow> server_metadata option \<Rightarrow> string option \<Rightarrow> http_socket \<Rightarrow> (int \<times> http_socket) option" where
  "connection_dispatch [] rs metadata metrics fd = None"
| "connection_dispatch (Interrupted # peeks) rs metadata metrics fd =
     connection_dispatch peeks rs metadata metrics fd"
| "connection_dispatch (Ended # peeks) rs metadata metrics fd = Some (-1, fd)"
| "connection_dispatch (Bytes data # peeks) rs metadata metrics fd =
     (let data = take (length kH2Preface) data in
      if data = [] then Some (-1, fd)
      else let verdict = h2_preface_check data in
        if verdict > 0 then Some (0, fd)
        else if verdict < 0 then Some (serve_http1 rs metadata metrics fd)
        else connection_dispatch peeks rs metadata metrics fd)"

section \<open>Framing of responses and requests\<close>












section \<open>Sending a bundle\<close>




section \<open>Properties\<close>

text \<open>
  The preface check is exact and decisive: it accepts the bytes that begin with the
  whole HTTP/2 preface, asks for more exactly on a proper beginning of the preface,
  and rejects exactly the bytes that no continuation can turn into the preface.
\<close>

theorem preface_check_decides:
  "(h2_preface_check data = 1 \<longleftrightarrow> (\<exists>r. data = kH2Preface @ r)) \<and>
   (h2_preface_check data = 0 \<longleftrightarrow> (\<exists>r. r \<noteq> [] \<and> kH2Preface = data @ r)) \<and>
   (h2_preface_check data = -1 \<longleftrightarrow> (\<nexists>r s. data @ r = kH2Preface @ s))"
proof (cases "length kH2Preface \<le> length data")
  case True
  have "take (length kH2Preface) data = kH2Preface \<longleftrightarrow> (\<exists>r. data = kH2Preface @ r)"
    by (metis append_eq_conv_conj append_take_drop_id)
  moreover have "(\<exists>r s. data @ r = kH2Preface @ s) \<longleftrightarrow> take (length kH2Preface) data = kH2Preface"
    using True by (metis append_eq_append_conv_if append_take_drop_id append_assoc)
  moreover have "\<not> (\<exists>r. r \<noteq> [] \<and> kH2Preface = data @ r)"
  proof
    assume "\<exists>r. r \<noteq> [] \<and> kH2Preface = data @ r"
    then obtain r where r: "r \<noteq> []" "kH2Preface = data @ r" by blast
    from r(2) have "length kH2Preface = length data + length r" by (metis length_append)
    with True r(1) show False by simp
  qed
  ultimately show ?thesis using True by (auto simp: h2_preface_check_def Let_def min_def)
next
  case False
  have "data = take (length data) kH2Preface \<longleftrightarrow> (\<exists>r. r \<noteq> [] \<and> kH2Preface = data @ r)"
    using False by (metis append_eq_conv_conj append_take_drop_id drop_eq_Nil2)
  moreover have "(\<exists>r s. data @ r = kH2Preface @ s) \<longleftrightarrow> data = take (length data) kH2Preface"
    using False by (metis append_eq_append_conv_if append_take_drop_id nle_le append_assoc)
  moreover have "\<not> (\<exists>r. data = kH2Preface @ r)" using False by auto
  ultimately show ?thesis using False by (auto simp: h2_preface_check_def Let_def min_def)
qed





end
