(* ===== verification/Va_Arena.thy ===== *)
theory Va_Arena
  imports Prelude
begin

text \<open>
  The virtual-address arenas of a connection (\<^verbatim>\<open>rpc.h\<close>, \<^verbatim>\<open>rpc.cpp\<close>): reservation by the
  client and the server, release, bump claims by concurrent threads, containment,
  and the writable alias of a host allocation. The kernel's answer to a fixed
  mapping request is a parameter.
\<close>

unbundle bit_operations_syntax

section \<open>State\<close>

definition LUPINE_HOST_ALLOCATION_SERVER_BASE :: u64 where
  "LUPINE_HOST_ALLOCATION_SERVER_BASE = 0x700000000000"
definition LUPINE_HOST_ALLOCATION_WINDOW_SIZE :: u64 where
  "LUPINE_HOST_ALLOCATION_WINDOW_SIZE = 0x100000000000"
definition LUPINE_HOST_ALLOCATION_R_OFFSET :: u64 where
  "LUPINE_HOST_ALLOCATION_R_OFFSET = - 0x500000000000"
definition LUPINE_VA_FIRST_BASE :: u64 where
  "LUPINE_VA_FIRST_BASE = LUPINE_HOST_ALLOCATION_SERVER_BASE"
definition LUPINE_VA_ARENA_SIZE :: u64 where
  "LUPINE_VA_ARENA_SIZE = 0x010000000000"
definition LUPINE_VA_ARENA_COUNT :: nat where
  "LUPINE_VA_ARENA_COUNT = 8"
definition LUPINE_VA_WRITE_BASE :: u64 where
  "LUPINE_VA_WRITE_BASE = 0x500000000000"

record va_window =
  window_base :: u64
  window_size :: u64

record va_conn =
  va_base :: u64
  va_size :: u64
  va_next :: u64
  w_offset :: u64

text \<open>
  The address ranges this process holds reserved. The kernel's decision on a
  \<^verbatim>\<open>MAP_FIXED_NOREPLACE\<close> request is the parameter \<^verbatim>\<open>grant\<close>.
\<close>

type_synonym mappings = "(u64 \<times> u64) list"
type_synonym mmap_grant = "mappings \<Rightarrow> u64 \<Rightarrow> u64 \<Rightarrow> bool"

section \<open>Operations\<close>

definition va_reserve_exact :: "mmap_grant \<Rightarrow> u64 \<Rightarrow> u64 \<Rightarrow> mappings \<Rightarrow> mappings option" where
  "va_reserve_exact grant base sz maps =
     (if grant maps base sz then Some (maps @ [(base, sz)]) else None)"

definition munmap :: "u64 \<Rightarrow> u64 \<Rightarrow> mappings \<Rightarrow> mappings" where
  "munmap base sz maps = filter (\<lambda>r. r \<noteq> (base, sz)) maps"

definition va_release :: "('a va_conn_scheme \<times> mappings) \<Rightarrow> ('a va_conn_scheme \<times> mappings)" where
  "va_release = (\<lambda>(conn, maps).
     if va_size conn = 0 then (conn, maps)
     else let maps = munmap (va_base conn + w_offset conn) (va_size conn) maps;
              maps = munmap (va_base conn) (va_size conn) maps
          in (conn\<lparr>va_base := 0, va_size := 0, va_next := 0\<rparr>, maps))"

definition va_local_window :: va_window where
  "va_local_window = \<lparr>window_base = LUPINE_VA_FIRST_BASE,
     window_size = LUPINE_VA_ARENA_SIZE * of_nat LUPINE_VA_ARENA_COUNT\<rparr>"

text \<open>The candidates in turn: the slot taken, or no slot left.\<close>

fun va_try_slots :: "mmap_grant \<Rightarrow> va_window \<Rightarrow> u64 \<Rightarrow> nat list \<Rightarrow> 'a va_conn_scheme \<times> mappings
    \<Rightarrow> nat option \<times> 'a va_conn_scheme \<times> mappings" where
  "va_try_slots grant window arena [] (conn, maps) = (None, conn, maps)"
| "va_try_slots grant window arena (candidate # rest) (conn, maps) =
     (let offset = of_nat candidate * arena;
          base = window_base window + offset;
          write_base = LUPINE_VA_WRITE_BASE + offset
      in case va_reserve_exact grant base arena maps of
           None \<Rightarrow> va_try_slots grant window arena rest (conn, maps)
         | Some maps1 \<Rightarrow>
             (case va_reserve_exact grant write_base arena maps1 of
                None \<Rightarrow> va_try_slots grant window arena rest (conn, munmap base arena maps1)
              | Some maps2 \<Rightarrow>
                  (Some candidate,
                   conn\<lparr>va_base := base, va_size := arena, va_next := 0, w_offset := write_base - base\<rparr>,
                   maps2)))"

definition va_reserve_client :: "mmap_grant \<Rightarrow> va_window \<Rightarrow> nat \<Rightarrow> 'a va_conn_scheme \<times> mappings
    \<Rightarrow> nat option \<times> 'a va_conn_scheme \<times> mappings" where
  "va_reserve_client grant window min_slot = (\<lambda>(conn, maps).
     (let arena = window_size window div of_nat LUPINE_VA_ARENA_COUNT in
      if va_size conn \<noteq> 0 \<or> arena = 0 then (None, conn, maps)
      else va_try_slots grant window arena [min_slot..<LUPINE_VA_ARENA_COUNT] (conn, maps)))"

definition va_reserve_server :: "mmap_grant \<Rightarrow> u64 \<Rightarrow> u64 \<Rightarrow> 'a va_conn_scheme \<times> mappings
    \<Rightarrow> int \<times> 'a va_conn_scheme \<times> mappings" where
  "va_reserve_server grant base sz = (\<lambda>(conn, maps).
     if va_size conn \<noteq> 0 then (-1, conn, maps)
     else case va_reserve_exact grant base sz maps of
       None \<Rightarrow> (-1, conn, maps)
     | Some maps \<Rightarrow> (0, conn\<lparr>va_base := base, va_size := sz, va_next := base\<rparr>, maps))"

definition va_contains :: "'a va_conn_scheme \<Rightarrow> u64 \<Rightarrow> u64 \<Rightarrow> bool" where
  "va_contains conn address sz = (va_size conn \<noteq> 0 \<and> sz \<le> va_size conn \<and>
     address \<ge> va_base conn \<and> address - va_base conn \<le> va_size conn - sz)"

text \<open>
  A claim: the guard on the arguments, then a loop around a compare-and-exchange on
  \<^verbatim>\<open>va_next\<close>. Between the load and the exchange other threads may claim; the state of
  the loop in one thread is the value it last loaded.
\<close>

definition va_claim_guard :: "'a va_conn_scheme \<Rightarrow> u64 \<Rightarrow> u64 \<Rightarrow> bool" where
  "va_claim_guard conn sz alignment = (\<not> (va_size conn = 0 \<or> sz = 0 \<or> alignment = 0 \<or>
     alignment AND (alignment - 1) \<noteq> 0 \<or> sz > va_size conn))"

definition next_claim :: "u64 \<Rightarrow> u64 \<Rightarrow> u64" where
  "next_claim current alignment = (current + alignment - 1) AND NOT (alignment - 1)"

definition claim_fits :: "'a va_conn_scheme \<Rightarrow> u64 \<Rightarrow> u64 \<Rightarrow> u64 \<Rightarrow> bool" where
  "claim_fits conn current sz alignment = (let n = next_claim current alignment in
     \<not> (n < current \<or> n < va_base conn \<or> n - va_base conn > va_size conn - sz))"

text \<open>The claim of a thread that is not disturbed: the exchange succeeds at once.\<close>

definition va_claim :: "u64 \<Rightarrow> u64 \<Rightarrow> 'a va_conn_scheme \<Rightarrow> u64 option \<times> 'a va_conn_scheme" where
  "va_claim sz alignment conn =
     (if \<not> va_claim_guard conn sz alignment then (None, conn)
      else let current = va_next conn in
        if \<not> claim_fits conn current sz alignment then (None, conn)
        else let n = next_claim current alignment in (Some n, conn\<lparr>va_next := n + sz\<rparr>))"

definition host_allocation_alias :: "'a va_conn_scheme \<Rightarrow> u64 \<Rightarrow> u64 \<Rightarrow> u64 option" where
  "host_allocation_alias conn address sz =
     (if va_size conn \<noteq> 0 \<and> w_offset conn \<noteq> 0 \<and> va_contains conn address sz
      then Some (address + w_offset conn)
      else if va_size conn = 0 \<and> w_offset conn \<noteq> 0
      then let read_base = LUPINE_HOST_ALLOCATION_SERVER_BASE + LUPINE_HOST_ALLOCATION_R_OFFSET in
        if address \<ge> read_base \<and> sz \<le> LUPINE_HOST_ALLOCATION_WINDOW_SIZE \<and>
           address - read_base \<le> LUPINE_HOST_ALLOCATION_WINDOW_SIZE - sz
        then Some (address - LUPINE_HOST_ALLOCATION_R_OFFSET + w_offset conn)
        else None
      else None)"

section \<open>Concurrent claims\<close>

text \<open>
  The arena is fixed; the shared state is \<^verbatim>\<open>va_next\<close>. A thread inside the loop holds
  its request and the value it loaded. What has been claimed is recorded.
\<close>

record claim_system =
  arena :: va_conn
  looping :: "nat \<Rightarrow> (u64 \<times> u64 \<times> u64) option"
  claimed :: "(u64 \<times> u64 \<times> u64) list"

inductive claim_init :: "claim_system \<Rightarrow> bool" where
  "va_size conn \<noteq> 0 \<Longrightarrow> unat (va_base conn) + unat (va_size conn) < 2 ^ 64 \<Longrightarrow> va_next conn = va_base conn \<Longrightarrow>
   claim_init \<lparr>arena = conn, looping = (\<lambda>_. None), claimed = []\<rparr>"

text \<open>A claimed span is its start, its size and the alignment asked for.\<close>

inductive claim_step :: "claim_system \<Rightarrow> claim_system \<Rightarrow> bool" where
  claim_load: "looping s t = None \<Longrightarrow> va_claim_guard (arena s) sz al \<Longrightarrow>
    claim_step s (s\<lparr>looping := (looping s)(t \<mapsto> (sz, al, va_next (arena s)))\<rparr>)"
| claim_refused: "looping s t = Some (sz, al, current) \<Longrightarrow> \<not> claim_fits (arena s) current sz al \<Longrightarrow>
    claim_step s (s\<lparr>looping := (looping s)(t := None)\<rparr>)"
| claim_exchange: "looping s t = Some (sz, al, current) \<Longrightarrow> claim_fits (arena s) current sz al \<Longrightarrow>
    current = va_next (arena s) \<Longrightarrow> n = next_claim current al \<Longrightarrow>
    claim_step s (s\<lparr>arena := (arena s)\<lparr>va_next := n + sz\<rparr>, looping := (looping s)(t := None),
      claimed := (n, sz, al) # claimed s\<rparr>)"
| claim_retry: "looping s t = Some (sz, al, current) \<Longrightarrow> claim_fits (arena s) current sz al \<Longrightarrow>
    claim_step s (s\<lparr>looping := (looping s)(t \<mapsto> (sz, al, va_next (arena s)))\<rparr>)"

definition span :: "u64 \<times> u64 \<times> u64 \<Rightarrow> nat set" where
  "span c = {unat (fst c)..<unat (fst c) + unat (fst (snd c))}"

text \<open>
  Claims lie in the arena, end at or below the bump pointer, are aligned, nonempty
  and pairwise disjoint.
\<close>

definition claim_inv :: "claim_system \<Rightarrow> bool" where
  "claim_inv s = (let b = unat (va_base (arena s)); e = b + unat (va_size (arena s)); n = unat (va_next (arena s)) in
     va_size (arena s) \<noteq> 0 \<and> e < 2 ^ 64 \<and> b \<le> n \<and> n \<le> e \<and>
     (\<forall>c \<in> set (claimed s). span c \<subseteq> {b..<n} \<and> span c \<noteq> {} \<and> fst c AND (snd (snd c) - 1) = 0) \<and>
     (\<forall>t sz al cur. looping s t = Some (sz, al, cur) \<longrightarrow> va_claim_guard (arena s) sz al) \<and>
     pairwise (\<lambda>i j. span (claimed s ! i) \<inter> span (claimed s ! j) = {}) {..<length (claimed s)})"

text \<open>The kernel never grants a fixed request for a range it has already mapped.\<close>

definition no_replace :: "mmap_grant \<Rightarrow> bool" where
  "no_replace grant = (\<forall>maps base sz. grant maps base sz \<longrightarrow> (base, sz) \<notin> set maps)"

lemma next_claim_aligned: "next_claim current al AND (al - 1) = 0"
  by (simp add: next_claim_def and.assoc)

lemma claim_fits_bounds:
  assumes "claim_fits conn current sz al" and "va_claim_guard conn sz al"
    and "unat (va_base conn) + unat (va_size conn) < 2 ^ 64"
  shows "unat current \<le> unat (next_claim current al)"
    and "unat (va_base conn) \<le> unat (next_claim current al)"
    and "unat (next_claim current al + sz) = unat (next_claim current al) + unat sz"
    and "unat (next_claim current al) + unat sz \<le> unat (va_base conn) + unat (va_size conn)"
    and "0 < unat sz"
proof -
  let ?n = "next_claim current al"
  have h: "current \<le> ?n" "va_base conn \<le> ?n" "?n - va_base conn \<le> va_size conn - sz"
    using assms(1) by (auto simp: claim_fits_def Let_def not_less)
  have g: "sz \<le> va_size conn" "sz \<noteq> 0" using assms(2) by (auto simp: va_claim_guard_def not_less)
  show "unat current \<le> unat ?n" "unat (va_base conn) \<le> unat ?n" using h by (simp_all add: word_le_nat_alt)
  have "unat ?n - unat (va_base conn) \<le> unat (va_size conn) - unat sz"
    using h g by (simp add: word_le_nat_alt unat_sub)
  moreover have "unat sz \<le> unat (va_size conn)" "unat (va_base conn) \<le> unat ?n"
    using g h by (simp_all add: word_le_nat_alt)
  ultimately show le: "unat ?n + unat sz \<le> unat (va_base conn) + unat (va_size conn)" by linarith
  with assms(3) show "unat (?n + sz) = unat ?n + unat sz" by (intro unat_add_no_wrap) linarith
  show "0 < unat sz" using g(2) by (simp add: unat_gt_0)
qed

lemma pairwise_Cons:
  assumes "pairwise (\<lambda>i j. R (xs ! i) (xs ! j)) {..<length xs}"
    and "\<And>x. x \<in> set xs \<Longrightarrow> R y x \<and> R x y"
  shows "pairwise (\<lambda>i j. R ((y # xs) ! i) ((y # xs) ! j)) {..<length (y # xs)}"
  unfolding pairwise_def
proof (intro ballI impI)
  fix i j assume ij: "i \<in> {..<length (y # xs)}" "j \<in> {..<length (y # xs)}" "i \<noteq> j"
  show "R ((y # xs) ! i) ((y # xs) ! j)"
  proof (cases i)
    case 0
    with ij obtain j' where "j = Suc j'" "j' < length xs" by (cases j) auto
    with 0 assms(2) show ?thesis by simp
  next
    case (Suc i')
    show ?thesis
    proof (cases j)
      case 0
      with Suc ij assms(2) show ?thesis by simp
    next
      case (Suc j')
      with \<open>i = Suc i'\<close> ij assms(1) show ?thesis by (auto simp: pairwise_def)
    qed
  qed
qed

lemma claim_inv_step:
  assumes "claim_step s s'" and "claim_inv s"
  shows "claim_inv s'"
  using assms
proof (induction rule: claim_step.induct)
  case (claim_load s t sz al)
  then show ?case by (auto simp: claim_inv_def Let_def)
next
  case (claim_refused s t sz al current)
  then show ?case by (auto simp: claim_inv_def Let_def)
next
  case (claim_retry s t sz al current)
  then have "va_claim_guard (arena s) sz al" unfolding claim_inv_def Let_def by blast
  with claim_retry show ?case by (auto simp: claim_inv_def Let_def)
next
  case (claim_exchange s t sz al current n)
  let ?a = "arena s"
  have guard: "va_claim_guard ?a sz al" and room: "unat (va_base ?a) + unat (va_size ?a) < 2 ^ 64"
    using claim_exchange unfolding claim_inv_def Let_def by blast+
  note b = claim_fits_bounds [OF claim_exchange(2) guard room, folded claim_exchange(4)]
  have new: "span (n, sz, al) = {unat n..<unat n + unat sz}" by (simp add: span_def)
  have old: "span c \<subseteq> {unat (va_base ?a)..<unat (va_next ?a)}" if "c \<in> set (claimed s)" for c
    using claim_exchange that by (simp add: claim_inv_def Let_def)
  have disj: "span (n, sz, al) \<inter> span c = {} \<and> span c \<inter> span (n, sz, al) = {}" if "c \<in> set (claimed s)" for c
    using old [OF that] b(1) claim_exchange(3) unfolding new by fastforce
  have "pairwise (\<lambda>i j. span (((n, sz, al) # claimed s) ! i) \<inter> span (((n, sz, al) # claimed s) ! j) = {})
      {..<length ((n, sz, al) # claimed s)}"
    using claim_exchange disj by (intro pairwise_Cons) (auto simp: claim_inv_def Let_def)
  moreover have "\<forall>c \<in> set ((n, sz, al) # claimed s). span c \<subseteq> {unat (va_base ?a)..<unat (n + sz)} \<and>
      span c \<noteq> {} \<and> fst c AND (snd (snd c) - 1) = 0"
    using claim_exchange old b new next_claim_aligned [of current al]
    by (fastforce simp: claim_inv_def Let_def)
  moreover have "va_claim_guard (?a\<lparr>va_next := x\<rparr>) = va_claim_guard ?a" for x
    by (simp add: fun_eq_iff va_claim_guard_def)
  ultimately show ?case using claim_exchange b by (auto simp: claim_inv_def Let_def)
qed

lemma claim_inv_init: "claim_init s \<Longrightarrow> claim_inv s"
  by (auto simp: claim_init.simps claim_inv_def Let_def)

interpretation vc: step_invariant claim_init claim_step claim_inv
  by unfold_locales (auto intro: claim_inv_init claim_inv_step)

section \<open>Reservation\<close>

lemma munmap_last:
  "(base, sz) \<notin> set maps \<Longrightarrow> munmap base sz (maps @ [(base, sz)]) = maps"
  by (simp add: munmap_def filter_id_conv) metis

lemma va_try_slots_result:
  assumes "no_replace grant"
    and "va_try_slots grant window asz slots (conn, maps) = (result, conn', maps')"
  shows "case result of
      None \<Rightarrow> conn' = conn \<and> maps' = maps
    | Some slot \<Rightarrow> slot \<in> set slots \<and>
        (let base = window_base window + of_nat slot * asz; write = LUPINE_VA_WRITE_BASE + of_nat slot * asz in
         conn' = conn\<lparr>va_base := base, va_size := asz, va_next := 0, w_offset := write - base\<rparr> \<and>
         maps' = maps @ [(base, asz), (write, asz)] \<and> grant maps base asz \<and>
         grant (maps @ [(base, asz)]) write asz)"
  using assms(2)
proof (induction slots)
  case (Cons slot slots)
  let ?base = "window_base window + of_nat slot * asz"
  let ?wview = "LUPINE_VA_WRITE_BASE + of_nat slot * asz"
  show ?case
  proof (cases "grant maps ?base asz \<and> grant (maps @ [(?base, asz)]) ?wview asz")
    case True
    with Cons.prems show ?thesis by (auto simp: va_reserve_exact_def Let_def)
  next
    case False
    have "munmap ?base asz (maps @ [(?base, asz)]) = maps" if "grant maps ?base asz"
      using that assms(1) by (intro munmap_last) (auto simp: no_replace_def)
    with False Cons.prems have "va_try_slots grant window asz slots (conn, maps) = (result, conn', maps')"
      by (auto simp: va_reserve_exact_def Let_def split: if_splits)
    from Cons.IH [OF this] show ?thesis by (auto split: option.splits)
  qed
qed simp

lemma va_reserve_client_effect:
  assumes "no_replace grant" and "va_size conn = 0"
    and "va_reserve_client grant window min_slot (conn, maps) = (result, conn', maps')"
  shows "case result of
      None \<Rightarrow> conn' = conn \<and> maps' = maps
    | Some slot \<Rightarrow> (let asz = window_size window div 8; base = window_base window + of_nat slot * asz;
                       wview = LUPINE_VA_WRITE_BASE + of_nat slot * asz in
        min_slot \<le> slot \<and> slot < 8 \<and> asz \<noteq> 0 \<and>
        conn' = conn\<lparr>va_base := base, va_size := asz, va_next := 0, w_offset := wview - base\<rparr> \<and>
        maps' = maps @ [(base, asz), (wview, asz)] \<and> grant maps base asz \<and> grant (maps @ [(base, asz)]) wview asz \<and>
        snd (va_release (conn', maps')) = maps)"
proof -
  define asz where "asz = window_size window div 8"
  show ?thesis
  proof (cases "asz = 0")
    case True
    with assms show ?thesis by (auto simp: va_reserve_client_def LUPINE_VA_ARENA_COUNT_def Let_def asz_def)
  next
    case False
    let ?slots = "[min_slot..<8]"
    have tried: "va_try_slots grant window asz ?slots (conn, maps) = (result, conn', maps')"
      using assms(2,3) False by (simp add: va_reserve_client_def LUPINE_VA_ARENA_COUNT_def Let_def asz_def)
    note r = va_try_slots_result [OF assms(1) tried]
    show ?thesis
    proof (cases result)
      case None
      with r show ?thesis by simp
    next
      case (Some slot)
      let ?base = "window_base window + of_nat slot * asz"
      let ?wview = "LUPINE_VA_WRITE_BASE + of_nat slot * asz"
      have f: "slot \<in> set ?slots" "maps' = maps @ [(?base, asz), (?wview, asz)]"
          "conn' = conn\<lparr>va_base := ?base, va_size := asz, va_next := 0, w_offset := ?wview - ?base\<rparr>"
          "grant maps ?base asz" "grant (maps @ [(?base, asz)]) ?wview asz"
        using r Some by (auto simp: Let_def)
      have nb: "(?base, asz) \<notin> set maps" and nw: "(?wview, asz) \<notin> set (maps @ [(?base, asz)])"
        using f(4,5) assms(1) unfolding no_replace_def by blast+
      have "munmap ?wview asz maps' = maps @ [(?base, asz)]"
        using munmap_last [OF nw] f(2) by simp
      moreover have w: "va_base conn' = ?base" "va_size conn' = asz" "?base + w_offset conn' = ?wview"
        by (simp_all add: f(3))
      ultimately have "snd (va_release (conn', maps')) = maps"
        using munmap_last [OF nb] False
        by (simp only: va_release_def prod.case Let_def w if_False snd_conv)
      with f Some False show ?thesis by (auto simp: Let_def asz_def)
    qed
  qed
qed

section \<open>Properties\<close>

text \<open>
  C6: however threads interleave their loads and exchanges, the spans they have claimed
  are nonempty, lie inside the arena, start at a multiple of the alignment asked
  for (no bit below it is set), and no two of them share a byte.
\<close>

theorem claims_disjoint_and_contained:
  assumes "reachable claim_init claim_step s"
    and "i < length (claimed s)" and "j < length (claimed s)" and "i \<noteq> j"
  shows "span (claimed s ! i) \<inter> span (claimed s ! j) = {} \<and> span (claimed s ! i) \<noteq> {} \<and>
    span (claimed s ! i) \<subseteq> {unat (va_base (arena s))..<unat (va_base (arena s)) + unat (va_size (arena s))} \<and>
    fst (claimed s ! i) AND (snd (snd (claimed s ! i)) - 1) = 0"
proof -
  have inv: "claim_inv s" using assms(1) by (rule vc.inv_reachable)
  then have "span (claimed s ! i) \<inter> span (claimed s ! j) = {}"
    using assms by (auto simp: claim_inv_def Let_def pairwise_def)
  moreover have "claimed s ! i \<in> set (claimed s)" using assms(2) by simp
  ultimately show ?thesis using inv by (fastforce simp: claim_inv_def Let_def)
qed

text \<open>Two threads load the same value; the first exchange wins and the other loads again.\<close>

theorem claims_disjoint_witness:
  "\<exists>s. reachable claim_init claim_step s \<and> length (claimed s) = 2 \<and>
       span (claimed s ! 0) \<inter> span (claimed s ! 1) = {}"
proof -
  let ?c = "\<lparr>va_base = 4096, va_size = 65536, va_next = 4096, w_offset = 0\<rparr> :: va_conn"
  let ?s0 = "\<lparr>arena = ?c, looping = (\<lambda>_. None), claimed = []\<rparr>"
  let ?s1 = "?s0\<lparr>looping := (\<lambda>_. None)(0 \<mapsto> (256, 4096, 4096))\<rparr>"
  let ?s2 = "?s1\<lparr>looping := (looping ?s1)(1 \<mapsto> (256, 4096, 4096))\<rparr>"
  let ?s3 = "?s2\<lparr>arena := ?c\<lparr>va_next := 4352\<rparr>, looping := (looping ?s2)(0 := None), claimed := [(4096, 256, 4096)]\<rparr>"
  let ?s4 = "?s3\<lparr>looping := (looping ?s3)(1 \<mapsto> (256, 4096, 4352))\<rparr>"
  let ?s5 = "?s4\<lparr>arena := (arena ?s4)\<lparr>va_next := 8192 + 256\<rparr>, looping := (looping ?s4)(1 := None),
     claimed := (8192, 256, 4096) # claimed ?s4\<rparr>"
  have g: "va_claim_guard (?c\<lparr>va_next := x\<rparr>) 256 4096" for x by (simp add: va_claim_guard_def)
  have n: "next_claim 4096 4096 = 4096" "next_claim 4352 4096 = 8192" by (simp_all add: next_claim_def)
  have "claim_init ?s0" by (intro claim_init.intros) simp_all
  then have r0: "reachable claim_init claim_step ?s0" by (rule reach_init)
  have "claim_step ?s0 ?s1" using claim_load [of ?s0 0 256 4096] g [of 4096] by simp
  with r0 have r1: "reachable claim_init claim_step ?s1" by (rule reach_step)
  have "claim_step ?s1 ?s2" using claim_load [of ?s1 1 256 4096] g [of 4096] by simp
  with r1 have r2: "reachable claim_init claim_step ?s2" by (rule reach_step)
  have "claim_step ?s2 ?s3"
    using claim_exchange [of ?s2 0 256 4096 4096 4096] n by (simp add: claim_fits_def Let_def)
  with r2 have r3: "reachable claim_init claim_step ?s3" by (rule reach_step)
  have "claim_step ?s3 ?s4"
    using claim_retry [of ?s3 1 256 4096 4096] n by (simp add: claim_fits_def Let_def)
  with r3 have r4: "reachable claim_init claim_step ?s4" by (rule reach_step)
  have "claim_step ?s4 ?s5"
    by (rule claim_exchange [where current = 4352]) (simp_all add: n claim_fits_def Let_def)
  with r4 have r5: "reachable claim_init claim_step ?s5" by (rule reach_step)
  have "claimed ?s5 = [(8192, 256, 4096), (4096, 256, 4096)]" by simp
  with r5 obtain s where s: "reachable claim_init claim_step s" "claimed s = [(8192, 256, 4096), (4096, 256, 4096)]"
    by blast
  then have l: "length (claimed s) = 2" by simp
  have "span (claimed s ! 0) \<inter> span (claimed s ! 1) = {}"
    using claims_disjoint_and_contained [OF s(1), of 0 1] l by simp
  with s(1) l show ?thesis by blast
qed

text \<open>
  C29: a client reservation either takes one slot at or above the lowest one allowed,
  with the arena and its writable alias both newly mapped at the slot's offset, or
  it leaves the connection and every mapping as they were; releasing a reservation
  gives back exactly what it mapped.
\<close>

theorem reserve_client_all_or_nothing:
  assumes "no_replace grant" and "va_size conn = 0"
    and "va_reserve_client grant window min_slot (conn, maps) = (result, conn', maps')"
  defines "asz \<equiv> window_size window div 8"
  shows "case result of
      None \<Rightarrow> conn' = conn \<and> maps' = maps
    | Some slot \<Rightarrow> min_slot \<le> slot \<and> slot < 8 \<and> va_base conn' = window_base window + of_nat slot * asz \<and>
        va_size conn' = asz \<and> va_base conn' + w_offset conn' = LUPINE_VA_WRITE_BASE + of_nat slot * asz \<and>
        maps' = maps @ [(va_base conn', asz), (va_base conn' + w_offset conn', asz)] \<and>
        snd (va_release (conn', maps')) = maps"
  using va_reserve_client_effect [OF assms(1-3)] unfolding asz_def
  by (cases result) (auto simp: Let_def)

theorem reserve_client_witness:
  "\<exists>conn' maps'. va_reserve_client (\<lambda>maps b s. (b, s) \<notin> set maps \<and> b \<noteq> 0x700000000000) va_local_window 0
      (\<lparr>va_base = 0, va_size = 0, va_next = 0, w_offset = 1\<rparr>, []) = (Some 1, conn', maps') \<and>
      snd (va_release (conn', maps')) = []"
proof -
  let ?g = "\<lambda>maps b s. (b, s) \<notin> set maps \<and> b \<noteq> (0x700000000000 :: u64)"
  let ?c = "\<lparr>va_base = 0, va_size = 0, va_next = 0, w_offset = 1\<rparr> :: va_conn"
  let ?c' = "\<lparr>va_base = 0x710000000000, va_size = 0x10000000000, va_next = 0,
      w_offset = 0x510000000000 - 0x710000000000\<rparr> :: va_conn"
  let ?m' = "[(0x710000000000, 0x10000000000), (0x510000000000, 0x10000000000)] :: mappings"
  have r: "va_reserve_client ?g va_local_window 0 (?c, []) = (Some 1, ?c', ?m')" by code_simp
  have "no_replace ?g" by (simp add: no_replace_def)
  moreover have "va_size ?c = 0" by simp
  ultimately have "snd (va_release (?c', ?m')) = []"
    using reserve_client_all_or_nothing [OF _ _ r] unfolding option.case by blast
  with r show ?thesis by blast
qed

end
