(* ===== verification/Rpc_Async.thy ===== *)
theory Rpc_Async
  imports Prelude
begin

text \<open>
  Ordering of fire-and-forget calls on the server (\<^verbatim>\<open>rpc.cpp\<close>, the async sequence
  functions): the counter of the sequence being served, the set of sequences
  completed ahead of it, and the wait for a published prefix. The completions of
  concurrent handlers form a step relation.
\<close>

section \<open>State and operations\<close>

record async_state =
  serving_async_sequence :: u64
  completed_async_sequences :: "u64 set"
  async_cancelled :: bool
  async_sync_initialized :: bool

definition initial_async_state :: async_state where
  "initial_async_state = \<lparr>serving_async_sequence = 0, completed_async_sequences = {},
     async_cancelled = False, async_sync_initialized = True\<rparr>"

definition cancel_async_waits :: "'a async_state_scheme \<Rightarrow> 'a async_state_scheme" where
  "cancel_async_waits conn =
     (if \<not> async_sync_initialized conn then conn else conn\<lparr>async_cancelled := True\<rparr>)"

text \<open>
  The wait: \<^term>\<open>None\<close> while the condition variable keeps the caller, otherwise the
  result, -1 when the waits were cancelled.
\<close>

definition async_sequence_wait :: "u64 \<Rightarrow> 'a async_state_scheme \<Rightarrow> int option" where
  "async_sequence_wait published conn =
     (if \<not> async_cancelled conn \<and> serving_async_sequence conn < published then None
      else Some (if async_cancelled conn then -1 else 0))"

text \<open>The sequence a thread executes is thread-local; begin fails on a closed connection.\<close>

definition async_sequence_begin :: "bool \<Rightarrow> u64 \<Rightarrow> u64 \<Rightarrow> int \<times> u64" where
  "async_sequence_begin closed sequence executing = (if closed then (-1, executing) else (0, sequence))"

function catch_up :: "u64 \<Rightarrow> u64 set \<Rightarrow> u64 \<times> u64 set" where
  "catch_up serving completed =
     (if completed \<noteq> {} \<and> serving \<in> completed then catch_up (serving + 1) (completed - {serving})
      else (serving, completed))"
  by pat_completeness auto
termination
  by (relation "measure (\<lambda>(s, c). card c)") (auto intro: card_Diff1_less simp del: card_Diff_insert card_Diff_singleton)

declare catch_up.simps [simp del]

definition async_sequence_end :: "u64 \<Rightarrow> 'a async_state_scheme \<Rightarrow> 'a async_state_scheme" where
  "async_sequence_end sequence conn =
     (if sequence = serving_async_sequence conn
      then let (serving, completed) = catch_up (serving_async_sequence conn + 1) (completed_async_sequences conn)
           in conn\<lparr>serving_async_sequence := serving, completed_async_sequences := completed\<rparr>
      else if sequence > serving_async_sequence conn
      then conn\<lparr>completed_async_sequences := insert sequence (completed_async_sequences conn)\<rparr>
      else conn)"

section \<open>Interleaved completions\<close>

text \<open>
  Handlers complete in any order. The ghost set holds the sequences completed so
  far; the largest 64-bit value is never used as a sequence.
\<close>

record async_system =
  async_conn :: async_state
  ended :: "u64 set"

inductive async_init :: "async_system \<Rightarrow> bool" where
  "async_init \<lparr>async_conn = initial_async_state, ended = {}\<rparr>"

inductive async_step :: "async_system \<Rightarrow> async_system \<Rightarrow> bool" where
  async_end: "sequence \<noteq> -1 \<Longrightarrow> async_step s
    (s\<lparr>async_conn := async_sequence_end sequence (async_conn s), ended := insert sequence (ended s)\<rparr>)"
| async_cancel: "async_step s (s\<lparr>async_conn := cancel_async_waits (async_conn s)\<rparr>)"

text \<open>
  The counter is the least sequence that has not completed, and the set holds the
  completed sequences above it.
\<close>

definition async_inv :: "async_system \<Rightarrow> bool" where
  "async_inv s = (let n = serving_async_sequence (async_conn s) in
     -1 \<notin> ended s \<and> n \<notin> ended s \<and> (\<forall>k < n. k \<in> ended s) \<and>
     completed_async_sequences (async_conn s) = {k \<in> ended s. n < k})"

section \<open>Catching up\<close>

lemma word_less_Suc_iff:
  fixes k n :: u64
  assumes "n \<noteq> -1"
  shows "k < n + 1 \<longleftrightarrow> k \<le> n"
  using less_Suc_word [of k n] assms less_Suc_word [of n n] by (meson inc_le leD not_le)

lemma word_Suc_le_iff:
  fixes k n :: u64
  assumes "n \<noteq> -1"
  shows "n + 1 \<le> k \<longleftrightarrow> n < k"
  using word_less_Suc_iff [OF assms, of k] by (simp add: not_less [symmetric])

lemma catch_up_spec:
  assumes "catch_up n C = (n', C')" and "-1 \<notin> C" and "\<forall>k \<in> C. n \<le> k"
  shows "n \<le> n' \<and> n' \<notin> C \<and> (\<forall>k. n \<le> k \<and> k < n' \<longrightarrow> k \<in> C) \<and> C' = {k \<in> C. n' < k}"
  using assms
proof (induction n C rule: catch_up.induct)
  case (1 n C)
  show ?case
  proof (cases "n \<in> C")
    case False
    then have "catch_up n C = (n, C)" by (subst catch_up.simps) simp
    with "1.prems"(1) have "n' = n" "C' = C" by simp_all
    moreover have "{k \<in> C. n < k} = C" using "1.prems"(3) False by (auto simp: order_less_le)
    moreover have "\<forall>k. n \<le> k \<and> k < n \<longrightarrow> k \<in> C" by (meson leD)
    ultimately show ?thesis using False by simp
  next
    case True
    then have nm: "n \<noteq> -1" using "1.prems"(2) by metis
    have "catch_up n C = catch_up (n + 1) (C - {n})" using True by (subst catch_up.simps) auto
    with "1.prems"(1) have step: "catch_up (n + 1) (C - {n}) = (n', C')" by simp
    have ge: "\<forall>k \<in> C - {n}. n + 1 \<le> k"
      using "1.prems"(3) by (auto simp: word_Suc_le_iff [OF nm] order_less_le)
    from "1.IH" [OF _ step _ ge] True "1.prems"(2) have ih: "n < n'" "n' \<notin> C - {n}"
        "\<forall>k. n < k \<and> k < n' \<longrightarrow> k \<in> C - {n}" "C' = {k \<in> C - {n}. n' < k}"
      by (auto simp: word_Suc_le_iff [OF nm])
    have "k \<in> C" if "n \<le> k" "k < n'" for k
      using that ih(3) True by (cases "k = n") (auto simp: order_less_le)
    moreover have "n \<le> n'" "n' \<notin> C" using ih(1,2) by auto
    moreover have "{k \<in> C - {n}. n' < k} = {k \<in> C. n' < k}" using ih(1) by auto
    ultimately show ?thesis using ih(4) by simp
  qed
qed

lemma async_inv_end:
  assumes "async_inv s" and "sequence \<noteq> -1"
  shows "async_inv (s\<lparr>async_conn := async_sequence_end sequence (async_conn s), ended := insert sequence (ended s)\<rparr>)"
proof -
  let ?c = "async_conn s"
  let ?n = "serving_async_sequence ?c"
  have inv: "-1 \<notin> ended s" "?n \<notin> ended s" "\<And>k. k < ?n \<Longrightarrow> k \<in> ended s"
      "completed_async_sequences ?c = {k \<in> ended s. ?n < k}"
    using assms(1) by (auto simp: async_inv_def Let_def)
  consider "sequence = ?n" | "?n < sequence" | "sequence < ?n" by fastforce
  then show ?thesis
  proof cases
    case 1
    obtain n' C' where cu: "catch_up (?n + 1) {k \<in> ended s. ?n < k} = (n', C')" by fastforce
    have nm: "?n \<noteq> -1" using 1 assms(2) by simp
    have "\<forall>k \<in> {k \<in> ended s. ?n < k}. ?n + 1 \<le> k" by (simp add: word_Suc_le_iff [OF nm])
    from catch_up_spec [OF cu _ this] inv(1) have sp: "?n < n'" "n' \<notin> {k \<in> ended s. ?n < k}"
        "\<forall>k. ?n < k \<and> k < n' \<longrightarrow> k \<in> ended s" "C' = {k \<in> ended s. ?n < k \<and> n' < k}"
      by (auto simp: word_Suc_le_iff [OF nm])
    have below: "k \<in> insert sequence (ended s)" if "k < n'" for k
    proof (cases k ?n rule: linorder_cases)
      case greater
      then show ?thesis using that sp(3) by simp
    qed (use inv(3) 1 in auto)
    have "C' = {k \<in> insert sequence (ended s). n' < k}" using sp(1,4) 1 by (auto dest: less_trans)
    with sp below inv assms(2) cu 1 show ?thesis
      by (auto simp: async_inv_def async_sequence_end_def Let_def)
  next
    case 2
    then show ?thesis using inv assms(2) by (auto simp: async_inv_def async_sequence_end_def Let_def)
  next
    case 3
    then have "\<not> sequence > ?n" "sequence \<noteq> ?n" by auto
    then show ?thesis using inv assms(2) 3 by (auto simp: async_inv_def async_sequence_end_def Let_def insert_absorb)
  qed
qed

lemma async_inv_step:
  assumes "async_step s s'" and "async_inv s"
  shows "async_inv s'"
  using assms
proof (induction rule: async_step.induct)
  case (async_end sequence s)
  then show ?case by (intro async_inv_end)
next
  case (async_cancel s)
  then show ?case by (simp add: async_inv_def cancel_async_waits_def)
qed

lemma async_inv_init: "async_init s \<Longrightarrow> async_inv s"
  by (auto simp: async_init.simps async_inv_def initial_async_state_def Let_def)

interpretation aq: step_invariant async_init async_step async_inv
  by unfold_locales (auto intro: async_inv_init async_inv_step)

section \<open>Properties\<close>

text \<open>
  C16: in whatever order the handlers of fire-and-forget calls complete, a wait for a
  published count succeeds exactly when no cancellation has happened and every
  sequence below the count has completed, keeps waiting exactly when some sequence
  below it has not, and fails exactly after a cancellation.
\<close>

theorem async_wait_exact:
  assumes "reachable async_init async_step s"
  shows "(async_sequence_wait published (async_conn s) = Some 0 \<longleftrightarrow>
           \<not> async_cancelled (async_conn s) \<and> {k. k < published} \<subseteq> ended s) \<and>
         (async_sequence_wait published (async_conn s) = None \<longleftrightarrow>
           \<not> async_cancelled (async_conn s) \<and> \<not> {k. k < published} \<subseteq> ended s) \<and>
         (async_sequence_wait published (async_conn s) = Some (-1) \<longleftrightarrow> async_cancelled (async_conn s))"
proof -
  have inv: "async_inv s" using assms by (rule aq.inv_reachable)
  have "{k. k < published} \<subseteq> ended s \<longleftrightarrow> \<not> serving_async_sequence (async_conn s) < published"
  proof
    assume "{k. k < published} \<subseteq> ended s"
    with inv show "\<not> serving_async_sequence (async_conn s) < published" by (auto simp: async_inv_def Let_def)
  next
    assume "\<not> serving_async_sequence (async_conn s) < published"
    then have "k < serving_async_sequence (async_conn s)" if "k < published" for k
      using that by (meson less_le_trans not_less)
    with inv show "{k. k < published} \<subseteq> ended s" by (auto simp: async_inv_def Let_def)
  qed
  then show ?thesis by (auto simp: async_sequence_wait_def)
qed

theorem async_wait_witness:
  "\<exists>s. reachable async_init async_step s \<and> async_sequence_wait 2 (async_conn s) = Some 0 \<and> {0, 1} \<subseteq> ended s"
proof -
  let ?s0 = "\<lparr>async_conn = initial_async_state, ended = {}\<rparr>"
  let ?s1 = "?s0\<lparr>async_conn := async_sequence_end 1 (async_conn ?s0), ended := insert 1 (ended ?s0)\<rparr>"
  let ?s2 = "?s1\<lparr>async_conn := async_sequence_end 0 (async_conn ?s1), ended := insert 0 (ended ?s1)\<rparr>"
  have "reachable async_init async_step ?s0" by (intro reach_init async_init.intros)
  moreover have "async_step ?s0 ?s1" by (rule async_end) simp
  moreover have "async_step ?s1 ?s2" by (rule async_end) simp
  ultimately have r: "reachable async_init async_step ?s2" by (meson reach_step)
  have w: "async_sequence_wait 2 (async_conn ?s2) = Some 0" by code_simp
  from async_wait_exact [OF r, of 2] w have "{k. k < 2} \<subseteq> ended ?s2" by blast
  then have "{0, 1} \<subseteq> ended ?s2" by simp
  with r w show ?thesis by blast
qed

end
