(* ===== verification/Bytes.thy ===== *)
theory Bytes
  imports Prelude
begin

text \<open>
  Little-endian encodings of the fixed-width integers that the code copies to and
  from the wire as raw memory, with their round trips.
\<close>

section \<open>Encodings\<close>

primrec le_encode :: "nat \<Rightarrow> nat \<Rightarrow> u8 list" where
  "le_encode 0 n = []"
| "le_encode (Suc k) n = of_nat (n mod 256) # le_encode k (n div 256)"

primrec le_decode :: "u8 list \<Rightarrow> nat" where
  "le_decode [] = 0"
| "le_decode (b # bs) = unat b + 256 * le_decode bs"

text \<open>A 64-bit unsigned value in 8 bytes, and a 32-bit \<^verbatim>\<open>int\<close> in 4.\<close>

definition encode_u64 :: "u64 \<Rightarrow> u8 list" where
  "encode_u64 w = le_encode 8 (unat w)"

definition decode_u64 :: "u8 list \<Rightarrow> u64" where
  "decode_u64 bs = of_nat (le_decode bs)"

definition encode_u32 :: "u32 \<Rightarrow> u8 list" where
  "encode_u32 w = le_encode 4 (unat w)"

definition decode_u32 :: "u8 list \<Rightarrow> u32" where
  "decode_u32 bs = of_nat (le_decode bs)"

definition encode_int32 :: "int \<Rightarrow> u8 list" where
  "encode_int32 i = encode_u32 (word_of_int i)"

definition decode_int32 :: "u8 list \<Rightarrow> int" where
  "decode_int32 bs = sint (decode_u32 bs)"

definition int32_range :: "int \<Rightarrow> bool" where
  "int32_range i = (- (2 ^ 31) \<le> i \<and> i < 2 ^ 31)"

section \<open>Round trips\<close>

lemma le_encode_length [simp]: "length (le_encode k n) = k"
  by (induction k arbitrary: n) auto

lemma le_decode_encode: "n < 256 ^ k \<Longrightarrow> le_decode (le_encode k n) = n"
proof (induction k arbitrary: n)
  case (Suc k)
  have "n div 256 < 256 ^ k" using Suc.prems by (simp add: less_mult_imp_div_less mult.commute)
  moreover have "unat (of_nat (n mod 256) :: u8) = n mod 256" by (simp add: unsigned_of_nat take_bit_eq_mod)
  ultimately show ?case using Suc.IH by simp
qed simp

lemma encode_lengths [simp]:
  "length (encode_u64 w) = 8" "length (encode_u32 v) = 4" "length (encode_int32 i) = 4"
  by (simp_all add: encode_u64_def encode_u32_def encode_int32_def)

lemma decode_encode_u64 [simp]: "decode_u64 (encode_u64 w) = w"
proof -
  have "unat w < 256 ^ 8" using unat_lt_2_64 [of w] by simp
  then show ?thesis by (simp add: decode_u64_def encode_u64_def le_decode_encode)
qed

lemma decode_encode_u32 [simp]: "decode_u32 (encode_u32 w) = w"
proof -
  have "unat w < 256 ^ 4" using unsigned_less [of w] by simp
  then show ?thesis by (simp add: decode_u32_def encode_u32_def le_decode_encode)
qed

lemma decode_encode_int32: "int32_range i \<Longrightarrow> decode_int32 (encode_int32 i) = i"
  by (simp add: decode_int32_def encode_int32_def int32_range_def signed_of_int signed_take_bit_int_eq_self)

lemma take_encoded [simp]:
  "take 8 (encode_u64 w @ r) = encode_u64 w" "drop 8 (encode_u64 w @ r) = r"
  "take 4 (encode_int32 i @ r) = encode_int32 i" "drop 4 (encode_int32 i @ r) = r"
  by simp_all

end
