(* ===== verification/Rpc_Builder.thy ===== *)
theory Rpc_Builder
  imports Rpc_Async Bytes
begin

text \<open>
  The request and response builder of a connection (\<^verbatim>\<open>rpc.cpp\<close>): its locks, the queue of
  cursors with its copy buffer, requests nested in a response, the header with the
  fence on fire-and-forget calls, and the reader of messages. A connection is the
  record \<^verbatim>\<open>conn\<close>; the thread-local state of the calling thread is \<^verbatim>\<open>thread_io\<close>. Blocking
  is the value \<^term>\<open>None\<close>. The HTTP/2 session is a parameter: the result of each call
  into it, and the bytes its streams carry.
\<close>

section \<open>State\<close>

text \<open>
  A cursor refers to bytes of the caller, to a span of the copy buffer (offset and
  length; the caller fills it after it is queued), or to a refill that supplies chunks.
\<close>

datatype cursor =
    Data "u8 list"
  | Copy nat nat
  | Refill "u8 list list"

record conn = async_state +
  request_id :: int
  write_id :: int
  write_op :: int
  write_stream_id :: int
  write_dependency :: u64
  async_prefix_stream :: int
  async_prefix :: u64
  issued_async_sequence :: u64
  published_async_sequence :: u64
  write_queue :: "cursor list"
  write_copy_buffer :: "u8 list option"
  write_copy_capacity :: u64
  write_copy_offset :: u64
  local_request_parity :: int
  closed :: bool
  write_locked :: bool
  call_locked :: bool

text \<open>A pointer of the thread-local state: null, this connection, or another one.\<close>

datatype conn_ref = NoConn | ThisConn | OtherConn

record nested_write_frame =
  frame_id :: int
  frame_op :: int
  frame_stream :: int
  frame_dependency :: u64
  frame_queue :: "cursor list"
  frame_buffer :: "u8 list option"
  frame_capacity :: u64
  frame_offset :: u64

record thread_io =
  bound_conn :: conn_ref
  bound_stream :: int
  read_conn :: conn_ref
  read_stream_id :: int
  read_request_id :: int
  read_op :: int
  write_conn :: conn_ref
  nested_write :: "nested_write_frame option"
  response_conn :: conn_ref
  response_request_id :: int
  response_stream_id :: int
  held_call_lock :: conn_ref

definition initial_conn :: "int \<Rightarrow> conn" where
  "initial_conn request_id0 = \<lparr>serving_async_sequence = 0, completed_async_sequences = {},
     async_cancelled = False, async_sync_initialized = True,
     request_id = request_id0, write_id = 0, write_op = 0, write_stream_id = 0, write_dependency = 0,
     async_prefix_stream = 0, async_prefix = 0, issued_async_sequence = 0, published_async_sequence = 0,
     write_queue = [], write_copy_buffer = None, write_copy_capacity = 0, write_copy_offset = 0,
     local_request_parity = request_id0 mod 2, closed = False, write_locked = False, call_locked = False\<rparr>"

definition initial_thread_io :: thread_io where
  "initial_thread_io = \<lparr>bound_conn = NoConn, bound_stream = -1, read_conn = NoConn,
     read_stream_id = -1, read_request_id = 0, read_op = 0, write_conn = NoConn, nested_write = None,
     response_conn = NoConn, response_request_id = 0, response_stream_id = -1, held_call_lock = NoConn\<rparr>"

section \<open>The queue and the copy buffer\<close>

definition write_buffer_release :: "conn \<Rightarrow> conn" where
  "write_buffer_release c = c\<lparr>write_copy_buffer := None, write_copy_capacity := 0, write_copy_offset := 0\<rparr>"

text \<open>The vector is resized to empty cursors; allocation may fail.\<close>

definition write_queue_reset :: "bool \<Rightarrow> nat \<Rightarrow> conn \<Rightarrow> int \<times> conn" where
  "write_queue_reset alloc_ok n c = (let c = (write_buffer_release c)\<lparr>write_queue := []\<rparr> in
     if alloc_ok then (0, c\<lparr>write_queue := replicate n (Data [])\<rparr>) else (-1, c))"

definition INT_MAX :: nat where "INT_MAX = 2147483647"

definition write_queue_push :: "bool \<Rightarrow> cursor \<Rightarrow> conn \<Rightarrow> int \<times> conn" where
  "write_queue_push alloc_ok cur c =
     (if INT_MAX \<le> length (write_queue c) \<or> \<not> alloc_ok then (-1, c)
      else (0, c\<lparr>write_queue := write_queue c @ [cur]\<rparr>))"

definition rpc_write :: "bool \<Rightarrow> u8 list \<Rightarrow> conn \<Rightarrow> int \<times> conn" where
  "rpc_write alloc_ok data c = (if data = [] then (0, c) else write_queue_push alloc_ok (Data data) c)"

text \<open>The rows of a pitched region: \<^verbatim>\<open>mem\<close> is the caller's memory from the data pointer on.\<close>

definition pitched_row :: "(nat \<Rightarrow> u8) \<Rightarrow> nat \<Rightarrow> nat \<Rightarrow> u8 list" where
  "pitched_row mem start width = map (\<lambda>i. mem (start + i)) [0..<width]"

fun write_rows :: "bool \<Rightarrow> (nat \<Rightarrow> u8) \<Rightarrow> nat \<Rightarrow> nat list \<Rightarrow> conn \<Rightarrow> int \<times> conn" where
  "write_rows alloc_ok mem width [] c = (0, c)"
| "write_rows alloc_ok mem width (start # starts) c =
     (case rpc_write alloc_ok (pitched_row mem start width) c of
        (r, c) \<Rightarrow> if r < 0 then (-1, c) else write_rows alloc_ok mem width starts c)"

text \<open>Where the rows start, slice by slice and row by row.\<close>

definition row_starts :: "nat \<Rightarrow> nat \<Rightarrow> nat \<Rightarrow> nat \<Rightarrow> nat list" where
  "row_starts rows row_stride slices slice_stride =
     concat (map (\<lambda>z. map (\<lambda>row. z * slice_stride + row * row_stride) [0..<rows]) [0..<slices])"

definition rpc_write_pitched ::
    "bool \<Rightarrow> (nat \<Rightarrow> u8) \<Rightarrow> nat \<Rightarrow> nat \<Rightarrow> nat \<Rightarrow> nat \<Rightarrow> nat \<Rightarrow> conn \<Rightarrow> int \<times> conn" where
  "rpc_write_pitched alloc_ok mem width rows row_stride slices slice_stride c =
     write_rows alloc_ok mem width (row_starts rows row_stride slices slice_stride) c"

definition rpc_copy_alloc :: "u64 \<Rightarrow> conn \<Rightarrow> int \<times> conn" where
  "rpc_copy_alloc sz c =
     (if write_copy_buffer c \<noteq> None \<or> write_copy_capacity c \<noteq> 0 \<or> write_copy_offset c \<noteq> 0 then (-1, c)
      else if sz = 0 then (0, c)
      else (0, c\<lparr>write_copy_buffer := Some (replicate (unat sz) 0), write_copy_capacity := sz\<rparr>))"

text \<open>The next aligned span, as an offset into the copy buffer, in wrapping arithmetic.\<close>

definition rpc_write_buffer :: "bool \<Rightarrow> u64 \<Rightarrow> u64 \<Rightarrow> conn \<Rightarrow> u64 option \<times> conn" where
  "rpc_write_buffer alloc_ok sz alignment c =
     (if write_copy_buffer c = None then (None, c)
      else let offset = (write_copy_offset c + alignment - 1) div alignment * alignment;
               required = offset + sz
           in if required > write_copy_capacity c then (None, c)
              else let c = c\<lparr>write_copy_offset := required\<rparr>;
                       (r, c) = (if sz = 0 then (0, c) else write_queue_push alloc_ok (Copy (unat offset) (unat sz)) c)
                   in if r < 0 then (None, c) else (Some offset, c))"

text \<open>A cursor without data and with a size is refused; here only a null entry has that form.\<close>

fun push_cursors :: "cursor option list \<Rightarrow> conn \<Rightarrow> int \<times> conn" where
  "push_cursors [] c = (0, c)"
| "push_cursors (None # cs) c = (-1, c)"
| "push_cursors (Some cur # cs) c = push_cursors cs (c\<lparr>write_queue := write_queue c @ [cur]\<rparr>)"

definition rpc_write_cursors :: "bool \<Rightarrow> cursor option list \<Rightarrow> conn \<Rightarrow> int \<times> conn" where
  "rpc_write_cursors alloc_ok cs c =
     (if cs = [] then (0, c)
      else if length cs + length (write_queue c) > INT_MAX \<or> \<not> alloc_ok then (-1, c)
      else push_cursors cs c)"

text \<open>
  Reading: a pitched read fills the rows of the receiver's memory from the stream;
  draining discards bytes in blocks of 64 KiB.
\<close>

fun read_rows :: "nat \<Rightarrow> nat list \<Rightarrow> (nat \<Rightarrow> u8) \<Rightarrow> u8 list \<Rightarrow> int \<times> (nat \<Rightarrow> u8) \<times> u8 list" where
  "read_rows width [] mem input = (0, mem, input)"
| "read_rows width (start # starts) mem input =
     (if length input < width then (-1, mem, input)
      else read_rows width starts
             (\<lambda>a. if start \<le> a \<and> a < start + width then input ! (a - start) else mem a) (drop width input))"

definition rpc_read_pitched ::
    "nat \<Rightarrow> nat \<Rightarrow> nat \<Rightarrow> nat \<Rightarrow> nat \<Rightarrow> (nat \<Rightarrow> u8) \<Rightarrow> u8 list \<Rightarrow> int \<times> (nat \<Rightarrow> u8) \<times> u8 list" where
  "rpc_read_pitched width rows row_stride slices slice_stride mem input =
     read_rows width (row_starts rows row_stride slices slice_stride) mem input"

function rpc_drain :: "nat \<Rightarrow> u8 list \<Rightarrow> int \<times> u8 list" where
  "rpc_drain sz input =
     (if sz = 0 then (0, input)
      else let chunk = min 65536 sz in
        if length input < chunk then (-1, input) else rpc_drain (sz - chunk) (drop chunk input))"
  by pat_completeness auto
termination
  by (relation "measure fst") auto

declare rpc_drain.simps [simp del]

section \<open>Nested requests and locks\<close>

definition save_outer_response :: "conn \<times> thread_io \<Rightarrow> conn \<times> thread_io" where
  "save_outer_response = (\<lambda>(c, t).
     (c\<lparr>write_queue := [], write_copy_buffer := None, write_copy_capacity := 0, write_copy_offset := 0\<rparr>,
      t\<lparr>nested_write := Some \<lparr>frame_id = write_id c, frame_op = write_op c, frame_stream = write_stream_id c,
         frame_dependency = write_dependency c, frame_queue = write_queue c, frame_buffer = write_copy_buffer c,
         frame_capacity = write_copy_capacity c, frame_offset = write_copy_offset c\<rparr>\<rparr>))"

definition restore_outer_response :: "conn \<times> thread_io \<Rightarrow> conn \<times> thread_io" where
  "restore_outer_response = (\<lambda>(c, t). case nested_write t of
       None \<Rightarrow> (c, t)
     | Some f \<Rightarrow>
        (c\<lparr>write_id := frame_id f, write_op := frame_op f, write_stream_id := frame_stream f,
           write_dependency := frame_dependency f, write_queue := frame_queue f,
           write_copy_buffer := frame_buffer f, write_copy_capacity := frame_capacity f,
           write_copy_offset := frame_offset f\<rparr>,
         t\<lparr>nested_write := None\<rparr>))"

definition release_write_builder :: "bool \<Rightarrow> conn \<times> thread_io \<Rightarrow> conn \<times> thread_io" where
  "release_write_builder nested = (\<lambda>(c, t).
     let c = write_buffer_release c in
     if nested then restore_outer_response (c, t)
     else (c\<lparr>write_locked := False\<rparr>, t\<lparr>write_conn := NoConn\<rparr>))"

definition release_held_call_lock :: "conn \<times> thread_io \<Rightarrow> conn \<times> thread_io" where
  "release_held_call_lock = (\<lambda>(c, t).
     if held_call_lock t = ThisConn
     then (c\<lparr>call_locked := False\<rparr>, t\<lparr>held_call_lock := NoConn\<rparr>) else (c, t))"

definition bind_http2_stream :: "int \<Rightarrow> thread_io \<Rightarrow> int \<times> thread_io" where
  "bind_http2_stream stream_id t =
     (if stream_id < 0 then (-1, t) else (0, t\<lparr>bound_conn := ThisConn, bound_stream := stream_id\<rparr>))"

definition unbind_http2_stream :: "thread_io \<Rightarrow> thread_io" where
  "unbind_http2_stream t =
     (if bound_conn t = ThisConn then t\<lparr>bound_conn := NoConn, bound_stream := -1\<rparr> else t)"

text \<open>The dispatch stream of the session is a parameter.\<close>

definition current_http2_stream :: "int \<Rightarrow> thread_io \<Rightarrow> int" where
  "current_http2_stream dispatch_stream t =
     (if read_conn t = ThisConn then read_stream_id t
      else if bound_conn t = ThisConn then bound_stream t else dispatch_stream)"

text \<open>Marking closed also cancels the waits; the backend's hook is not part of the state.\<close>

definition mark_connection_closed :: "conn \<Rightarrow> conn" where
  "mark_connection_closed c = cancel_async_waits (c\<lparr>closed := True\<rparr>)"

section \<open>Starting a message\<close>

text \<open>What the session answers while a request starts.\<close>

record start_env =
  handoff_result :: int
  closed_meanwhile :: bool
  queue_alloc_ok :: bool
  lane_stream :: int

text \<open>Signed 32-bit addition, wrapping as two's complement.\<close>

definition add_int32 :: "int \<Rightarrow> int \<Rightarrow> int" where
  "add_int32 a b = sint (word_of_int (a + b) :: u32)"

definition rpc_write_start_request ::
    "start_env \<Rightarrow> int \<Rightarrow> conn \<times> thread_io \<Rightarrow> (int \<times> conn \<times> thread_io) option" where
  "rpc_write_start_request env opcode = (\<lambda>(c, t).
     if closed c then Some (-1, c, t)
     else let nested = (write_conn t = ThisConn \<and> nested_write t = None \<and> write_op c = -1) in
       if write_conn t \<noteq> NoConn \<and> \<not> nested then Some (-1, c, t)
       else let dependency = (if local_request_parity c = 0 then published_async_sequence c else 0) in
         if call_locked c then (if nested then Some (-1, c, t) else None)
         else let c = c\<lparr>call_locked := True, closed := closed c \<or> closed_meanwhile env\<rparr> in
           if handoff_result env < 0 \<or> closed c then Some (-1, c\<lparr>call_locked := False\<rparr>, t)
           else if \<not> nested \<and> write_locked c then None
           else let (c, t) = (if nested then save_outer_response (c, t)
                              else (c\<lparr>write_locked := True\<rparr>, t\<lparr>write_conn := ThisConn\<rparr>));
                    (r, c) = write_queue_reset (queue_alloc_ok env) 2 c
                in if r < 0
                   then let (c, t) = release_write_builder nested (c, t) in Some (-1, c\<lparr>call_locked := False\<rparr>, t)
                   else let c = c\<lparr>request_id := add_int32 (request_id c) 2\<rparr>;
                            c = c\<lparr>write_id := request_id c, write_op := opcode, write_dependency := dependency,
                                  write_stream_id := lane_stream env\<rparr>
                        in if write_stream_id c < 0
                           then let (c, t) = release_write_builder nested (c, t) in Some (-1, c\<lparr>call_locked := False\<rparr>, t)
                           else Some (0, c, t))"

definition rpc_write_start_async_request ::
    "start_env \<Rightarrow> int \<Rightarrow> conn \<times> thread_io \<Rightarrow> (u64 option \<times> conn \<times> thread_io) option" where
  "rpc_write_start_async_request env opcode s = (case rpc_write_start_request env opcode s of
       None \<Rightarrow> None
     | Some (r, c, t) \<Rightarrow>
         if r < 0 then Some (None, c, t)
         else Some (Some (issued_async_sequence c),
                    c\<lparr>issued_async_sequence := issued_async_sequence c + 1\<rparr>, t))"

definition rpc_write_start_response ::
    "bool \<Rightarrow> int \<Rightarrow> int \<Rightarrow> conn \<times> thread_io \<Rightarrow> (int \<times> conn \<times> thread_io) option" where
  "rpc_write_start_response alloc_ok dispatch_stream read_id = (\<lambda>(c, t).
     if closed c \<or> write_conn t \<noteq> NoConn then Some (-1, c, t)
     else if write_locked c then None
     else let c = c\<lparr>write_locked := True\<rparr>; t = t\<lparr>write_conn := ThisConn\<rparr>;
              (r, c) = write_queue_reset alloc_ok 2 c
          in if r < 0 then Some (-1, c\<lparr>write_locked := False\<rparr>, t\<lparr>write_conn := NoConn\<rparr>)
             else let c = c\<lparr>write_id := read_id, write_op := -1,
                            write_stream_id := current_http2_stream dispatch_stream t\<rparr>
                  in if write_stream_id c < 0
                     then Some (-1, c\<lparr>write_locked := False\<rparr>, t\<lparr>write_conn := NoConn\<rparr>)
                     else Some (0, c, t))"

section \<open>Ending a message\<close>

text \<open>The prefix of sequences the lane already covers restarts when the lane changes.\<close>

definition select_prefix :: "int \<Rightarrow> conn \<Rightarrow> conn" where
  "select_prefix stream_id c =
     (if async_prefix_stream c \<noteq> stream_id
      then c\<lparr>async_prefix_stream := stream_id, async_prefix := 0\<rparr> else c)"

definition fence_marker :: "conn \<Rightarrow> u64 option" where
  "fence_marker c = (if write_dependency c > async_prefix c then Some (write_dependency c) else None)"

definition publish :: "conn \<Rightarrow> conn" where
  "publish c =
     (let c = c\<lparr>async_prefix := max (async_prefix c) (write_dependency c)\<rparr>;
          published = issued_async_sequence c
      in if published \<noteq> published_async_sequence c
         then let c = (if published = async_prefix c + 1 then c\<lparr>async_prefix := published\<rparr> else c)
              in c\<lparr>published_async_sequence := published\<rparr>
         else c)"

fun cursor_bytes :: "u8 list option \<Rightarrow> cursor \<Rightarrow> u8 list" where
  "cursor_bytes buf (Data bs) = bs"
| "cursor_bytes buf (Copy off n) = (case buf of None \<Rightarrow> [] | Some b \<Rightarrow> take n (drop off b))"
| "cursor_bytes buf (Refill cs) = concat cs"

definition header_bytes :: "u64 option \<Rightarrow> int \<Rightarrow> int \<Rightarrow> u8 list" where
  "header_bytes marker wid opcode =
     (case marker of None \<Rightarrow> [] | Some d \<Rightarrow> encode_int32 0 @ encode_int32 0 @ encode_u64 d) @
     encode_int32 wid @ encode_int32 opcode"

text \<open>
  The streams carry what a successful write hands over, in order. The result is the
  request id or -1.
\<close>

definition rpc_write_end ::
    "bool \<Rightarrow> (conn \<times> thread_io) \<times> (int \<Rightarrow> u8 list) \<Rightarrow> int \<times> (conn \<times> thread_io) \<times> (int \<Rightarrow> u8 list)" where
  "rpc_write_end send_ok = (\<lambda>((c, t), wire).
     if write_conn t \<noteq> ThisConn then (-1, (c, t), wire)
     else let request = (write_op c \<noteq> -1); nested = (nested_write t \<noteq> None) in
       if closed c
       then let (c, t) = release_write_builder nested (c, t) in
         (-1, (if request then c\<lparr>call_locked := False\<rparr> else c, t), wire)
       else let wid = write_id c; sid = write_stream_id c;
                client_request = (request \<and> local_request_parity c = 0);
                c = (if client_request then select_prefix sid c else c);
                (result, c, wire) =
                  (if length (write_queue c) \<ge> 2 \<and> send_ok
                   then let marker = (if client_request then fence_marker c else None);
                            bytes = header_bytes marker wid (write_op c) @
                              concat (map (cursor_bytes (write_copy_buffer c)) (drop 2 (write_queue c)))
                        in (0 :: int, if client_request then publish c else c, wire(sid := wire sid @ bytes))
                   else (-1, c, wire));
                (c, t) = release_write_builder nested (c, t);
                (c, t) = (if request
                  then let t = (if result = 0 then t\<lparr>response_conn := ThisConn, response_request_id := wid,
                                                   response_stream_id := sid\<rparr> else t)
                       in if result = 0 \<and> local_request_parity c = 1
                          then (c, t\<lparr>held_call_lock := ThisConn\<rparr>)
                          else (c\<lparr>call_locked := False\<rparr>, t)
                  else (c, t))
            in (if result = 0 then wid else -1, (c, t), wire))"

section \<open>Reading a message\<close>

text \<open>
  A read of a stream: all the bytes asked for, or the code for the end of the stream
  (-2) or a failed session (-1) when fewer are left.
\<close>

definition http2_read_stream :: "int \<Rightarrow> nat \<Rightarrow> u8 list \<Rightarrow> int \<times> u8 list \<times> u8 list" where
  "http2_read_stream end_code n input =
     (if n \<le> length input then (0, take n input, drop n input) else (end_code, [], input))"

text \<open>The dispatcher's loop over wait markers; a wait that has to block is \<^term>\<open>None\<close>.\<close>

function dispatch_header :: "int \<Rightarrow> int \<Rightarrow> conn \<Rightarrow> u8 list \<Rightarrow> (((int \<times> int) option) \<times> conn \<times> u8 list) option" where
  "dispatch_header end_code parity c input =
     (if length input < 8
      then Some (None, if end_code \<noteq> -2 then mark_connection_closed c else c, input)
      else let h0 = decode_int32 (take 4 input); h1 = decode_int32 (take 4 (drop 4 input)); rest = drop 8 input in
        if parity \<noteq> 0 \<or> h0 \<noteq> 0 then Some (Some (h0, h1), c, rest)
        else if h1 \<noteq> 0 \<or> length rest < 8 then Some (None, mark_connection_closed c, rest)
        else case async_sequence_wait (decode_u64 (take 8 rest)) c of
          None \<Rightarrow> None
        | Some r \<Rightarrow> if r < 0 then Some (None, mark_connection_closed c, drop 8 rest)
                    else dispatch_header end_code parity c (drop 8 rest))"
  by pat_completeness auto
termination
  by (relation "measure (\<lambda>(e, p, c, input). length input)") auto

declare dispatch_header.simps [simp del]

definition rpc_dispatch :: "int \<Rightarrow> int \<Rightarrow> int \<Rightarrow> conn \<times> thread_io \<Rightarrow> u8 list
    \<Rightarrow> (int \<times> (conn \<times> thread_io) \<times> u8 list) option" where
  "rpc_dispatch dispatch_stream end_code parity = (\<lambda>(c, t) input.
     if closed c then Some (-1, (c, t), input)
     else let sid = current_http2_stream dispatch_stream t in
       if sid < 0 then Some (-1, (c, t), input)
       else case dispatch_header end_code parity c input of
         None \<Rightarrow> None
       | Some (None, c, input) \<Rightarrow> Some (-1, (c, t), input)
       | Some (Some (h0, h1), c, input) \<Rightarrow>
           if h0 < 2 \<or> h0 mod 2 \<noteq> parity then Some (-1, (mark_connection_closed c, t), input)
           else Some (h1, (c, t\<lparr>read_conn := ThisConn, read_stream_id := sid,
                                 read_request_id := h0, read_op := h1\<rparr>), input))"

definition rpc_read_start :: "int \<Rightarrow> int \<Rightarrow> conn \<times> thread_io \<Rightarrow> u8 list \<Rightarrow> int \<times> (conn \<times> thread_io) \<times> u8 list" where
  "rpc_read_start end_code wid = (\<lambda>(c, t) input.
     if response_conn t \<noteq> ThisConn \<or> response_request_id t \<noteq> wid
     then (-1, release_held_call_lock (c, t), input)
     else case http2_read_stream end_code 8 input of (r, hdr, input) \<Rightarrow>
       if r \<noteq> 0 \<or> decode_int32 (take 4 hdr) \<noteq> wid \<or> decode_int32 (drop 4 hdr) \<noteq> -1
       then (-1, release_held_call_lock (mark_connection_closed c, t), input)
       else (0, (c, t\<lparr>read_conn := ThisConn, read_stream_id := response_stream_id t,
                      read_request_id := wid, read_op := -1\<rparr>), input))"

definition rpc_read_end :: "conn \<times> thread_io \<Rightarrow> int \<times> conn \<times> thread_io" where
  "rpc_read_end = (\<lambda>(c, t).
     if read_conn t = ThisConn
     then (read_request_id t, release_held_call_lock
            (c, t\<lparr>read_conn := NoConn, read_stream_id := -1, read_request_id := 0, read_op := 0\<rparr>))
     else (-1, release_held_call_lock (c, t)))"

end
