(* ===== verification/Rpc_Protocol.thy ===== *)
theory Rpc_Protocol
  imports Rpc_Builder
begin

text \<open>
  Correctness of the message builder and reader: lock discipline on every path, a
  response untouched by the requests nested in it, headers that the dispatcher
  reads back, pitched transfers that equal contiguous ones, the range of request
  ids, and the fence that orders a request behind published fire-and-forget calls.
\<close>

section \<open>Specifications\<close>

text \<open>What makes up the message under construction.\<close>

definition builder_view :: "conn \<Rightarrow> int \<times> int \<times> int \<times> u64 \<times> cursor list \<times> u8 list option \<times> u64 \<times> u64" where
  "builder_view c = (write_id c, write_op c, write_stream_id c, write_dependency c, write_queue c,
     write_copy_buffer c, write_copy_capacity c, write_copy_offset c)"

text \<open>A thread that builds a message holds the builder lock.\<close>

definition builder_ok :: "conn \<Rightarrow> thread_io \<Rightarrow> bool" where
  "builder_ok c t = ((write_conn t = ThisConn \<longrightarrow> write_locked c) \<and>
     (nested_write t \<noteq> None \<longrightarrow> write_conn t = ThisConn))"

text \<open>What the owner of the builder may do between start and end.\<close>

datatype build_op =
    Write bool "u8 list"
  | Pitched bool "nat \<Rightarrow> u8" nat nat nat nat nat
  | Copy_alloc u64
  | Buffer bool u64 u64
  | Cursors bool "cursor option list"
  | Fill "u8 list"

primrec build :: "build_op \<Rightarrow> conn \<Rightarrow> conn" where
  "build (Write ok data) c = snd (rpc_write ok data c)"
| "build (Pitched ok mem width rows rs slices ss) c = snd (rpc_write_pitched ok mem width rows rs slices ss c)"
| "build (Copy_alloc sz) c = snd (rpc_copy_alloc sz c)"
| "build (Buffer ok sz al) c = snd (rpc_write_buffer ok sz al c)"
| "build (Cursors ok cs) c = snd (rpc_write_cursors ok cs c)"
| "build (Fill bs) c = c\<lparr>write_copy_buffer := map_option (\<lambda>_. bs) (write_copy_buffer c)\<rparr>"

text \<open>Everything of a connection that building does not touch.\<close>

definition outside_view :: "conn \<Rightarrow> conn" where
  "outside_view c = c\<lparr>write_queue := [], write_copy_buffer := None, write_copy_capacity := 0, write_copy_offset := 0\<rparr>"

section \<open>Building only touches the queue and the buffer\<close>

lemma outside_push: "outside_view (snd (write_queue_push ok cur c)) = outside_view c"
  by (simp add: outside_view_def write_queue_push_def)

lemma outside_write: "outside_view (snd (rpc_write ok data c)) = outside_view c"
  by (simp add: rpc_write_def outside_push)

lemma outside_rows: "outside_view (snd (write_rows ok mem width starts c)) = outside_view c"
proof (induction starts arbitrary: c)
  case (Cons s starts)
  show ?case
    using Cons.IH outside_write [of ok "pitched_row mem s width" c]
    by (cases "rpc_write ok (pitched_row mem s width) c") auto
qed simp

lemma outside_cursors: "outside_view (snd (push_cursors cs c)) = outside_view c"
  by (induction cs c rule: push_cursors.induct) (auto simp: outside_view_def)

lemma outside_build: "outside_view (build opr c) = outside_view c"
proof (cases opr)
  case (Buffer ok sz al)
  let ?o = "(write_copy_offset c + al - 1) div al * al"
  have "outside_view (snd (rpc_write_buffer ok sz al c)) = outside_view c"
    using outside_push [of ok "Copy (unat ?o) (unat sz)" "c\<lparr>write_copy_offset := ?o + sz\<rparr>"]
    by (auto simp: rpc_write_buffer_def Let_def outside_view_def split: prod.splits if_splits)
  with Buffer show ?thesis by simp
next
  case (Cursors ok cs)
  then show ?thesis by (simp add: rpc_write_cursors_def outside_cursors)
next
  case (Copy_alloc sz)
  then show ?thesis by (simp add: rpc_copy_alloc_def outside_view_def)
next
  case (Fill bs)
  then show ?thesis by (simp add: outside_view_def)
qed (simp_all add: outside_write outside_rows rpc_write_pitched_def)

lemma outside_builds: "outside_view (fold build ops c) = outside_view c"
  by (induction ops arbitrary: c) (simp_all add: outside_build)

lemma outside_view_eqD:
  assumes "outside_view c = outside_view c'"
  shows "write_id c = write_id c'" "write_op c = write_op c'" "write_stream_id c = write_stream_id c'"
    "write_dependency c = write_dependency c'" "request_id c = request_id c'" "closed c = closed c'"
    "write_locked c = write_locked c'" "call_locked c = call_locked c'"
    "local_request_parity c = local_request_parity c'"
  using assms by (cases c; cases c'; simp add: outside_view_def)+

section \<open>Locks\<close>

lemmas start_defs = rpc_write_start_request_def write_queue_reset_def write_buffer_release_def
  release_write_builder_def save_outer_response_def restore_outer_response_def Let_def

text \<open>
  Starting a request either hands the builder to the caller, with the call lock and
  the builder lock held and a fresh id of the connection's parity in place, or
  fails leaving both locks, the thread's role and, when the request is nested in a
  response under construction, the whole response as they were. It blocks only when one of the locks is taken by another call.
\<close>

theorem start_request_outcome:
  assumes "builder_ok c t" and "rpc_write_start_request env opcode (c, t) = Some (r, c', t')"
  shows "(r = 0 \<and> \<not> call_locked c \<and> call_locked c' \<and> write_locked c' \<and> write_conn t' = ThisConn \<and>
            write_id c' = add_int32 (request_id c) 2 \<and> write_op c' = opcode \<and> write_stream_id c' \<ge> 0 \<and>
            write_queue c' = [Data [], Data []] \<and> write_copy_buffer c' = None) \<or>
         (r = -1 \<and> call_locked c' = call_locked c \<and> write_locked c' = write_locked c \<and>
            write_conn t' = write_conn t \<and> nested_write t' = nested_write t \<and>
            (write_conn t = ThisConn \<longrightarrow> builder_view c' = builder_view c))"
  using assms
  by (auto simp: start_defs builder_ok_def builder_view_def numeral_2_eq_2 split: if_splits option.splits)

theorem start_request_witness:
  "\<exists>c' t'. rpc_write_start_request
      \<lparr>handoff_result = 0, closed_meanwhile = False, queue_alloc_ok = True, lane_stream = 5\<rparr> 42
      (initial_conn 0, initial_thread_io) = Some (0, c', t') \<and> call_locked c' \<and> write_locked c' \<and> write_id c' = 2"
proof -
  let ?env = "\<lparr>handoff_result = 0, closed_meanwhile = False, queue_alloc_ok = True, lane_stream = 5\<rparr>"
  let ?r = "rpc_write_start_request ?env 42 (initial_conn 0, initial_thread_io)"
  have ok: "builder_ok (initial_conn 0) initial_thread_io"
    by (simp add: builder_ok_def initial_conn_def initial_thread_io_def)
  have "\<exists>c' t'. ?r = Some (0, c', t')"
    by (simp add: start_defs initial_conn_def initial_thread_io_def)
  then obtain c' t' where r: "?r = Some (0, c', t')" by blast
  have "add_int32 (request_id (initial_conn 0)) 2 = 2" by (simp add: initial_conn_def add_int32_def)
  with start_request_outcome [OF ok r] r show ?thesis by auto
qed

section \<open>A request nested in a response\<close>

lemma write_end_nested:
  assumes "write_conn t = ThisConn" and "nested_write t = Some f"
    and "rpc_write_end ok ((c, t), wire) = (r, (c', t'), wire')"
  shows "builder_view c' = (frame_id f, frame_op f, frame_stream f, frame_dependency f, frame_queue f,
           frame_buffer f, frame_capacity f, frame_offset f) \<and>
         nested_write t' = None \<and> write_conn t' = ThisConn \<and> write_locked c' = write_locked c"
  using assms
  by (auto simp: rpc_write_end_def release_write_builder_def restore_outer_response_def Let_def
      write_buffer_release_def builder_view_def select_prefix_def publish_def split: if_splits)

text \<open>
  C11: a request that a thread sends while it is building a response leaves that response
  alone: whatever the request writes and whether or not sending it succeeds, once
  it has ended the response under construction is exactly what it was, and the
  thread still owns the builder.
\<close>

theorem nested_request_preserves_response:
  assumes "builder_ok c t" and "write_conn t = ThisConn"
    and "rpc_write_start_request env opcode (c, t) = Some (0, c1, t1)"
    and "rpc_write_end ok ((fold build ops c1, t1), wire) = (r, (c2, t2), wire')"
  shows "builder_view c2 = builder_view c \<and> write_conn t2 = ThisConn \<and> nested_write t2 = None \<and>
         write_locked c2"
proof -
  have t1: "write_conn t1 = ThisConn" "write_locked c1"
      "nested_write t1 = Some \<lparr>frame_id = write_id c, frame_op = write_op c, frame_stream = write_stream_id c,
         frame_dependency = write_dependency c, frame_queue = write_queue c, frame_buffer = write_copy_buffer c,
         frame_capacity = write_copy_capacity c, frame_offset = write_copy_offset c\<rparr>"
    using assms(1-3) by (auto simp: start_defs builder_ok_def split: if_splits)
  have "write_locked (fold build ops c1)" using t1(2) outside_view_eqD(7) [OF outside_builds] by simp
  with write_end_nested [OF t1(1,3) assms(4)] show ?thesis by (simp add: builder_view_def)
qed

theorem nested_request_witness:
  "\<exists>c1 t1 c2 t2 wire'.
     rpc_write_start_request \<lparr>handoff_result = 0, closed_meanwhile = False, queue_alloc_ok = True, lane_stream = 5\<rparr> 3
       ((initial_conn 1)\<lparr>write_locked := True, write_op := -1, write_id := 8, write_queue := [Data [], Data [], Data [1]]\<rparr>,
        initial_thread_io\<lparr>write_conn := ThisConn\<rparr>) = Some (0, c1, t1) \<and>
     rpc_write_end True ((fold build [Write True [7]] c1, t1), (\<lambda>_. [])) = (3, (c2, t2), wire') \<and>
     write_queue c2 = [Data [], Data [], Data [1]] \<and> write_op c2 = -1"
proof -
  let ?env = "\<lparr>handoff_result = 0, closed_meanwhile = False, queue_alloc_ok = True, lane_stream = 5\<rparr>"
  let ?c = "(initial_conn 1)\<lparr>write_locked := True, write_op := -1, write_id := 8, write_queue := [Data [], Data [], Data [1]]\<rparr>"
  let ?t = "initial_thread_io\<lparr>write_conn := ThisConn\<rparr>"
  have ok: "builder_ok ?c ?t" "write_conn ?t = ThisConn" by (simp_all add: builder_ok_def initial_thread_io_def)
  have "\<exists>c1 t1. rpc_write_start_request ?env 3 (?c, ?t) = Some (0, c1, t1) \<and>
      fst (rpc_write_end True ((fold build [Write True [7]] c1, t1), (\<lambda>_. []))) = 3"
    by (simp add: start_defs initial_conn_def initial_thread_io_def rpc_write_end_def rpc_write_def
        write_queue_push_def INT_MAX_def add_int32_def)
  then obtain c1 t1 where s: "rpc_write_start_request ?env 3 (?c, ?t) = Some (0, c1, t1)"
      and f: "fst (rpc_write_end True ((fold build [Write True [7]] c1, t1), (\<lambda>_. []))) = 3" by blast
  from f obtain c2 t2 wire' where e: "rpc_write_end True ((fold build [Write True [7]] c1, t1), (\<lambda>_. [])) = (3, (c2, t2), wire')"
    by (metis prod.collapse)
  from nested_request_preserves_response [OF ok s e] s e show ?thesis by (simp add: builder_view_def)
qed

section \<open>Headers\<close>

lemma dispatch_header_plain:
  assumes "int32_range wid" and "int32_range opcode" and "wid \<noteq> 0"
  shows "dispatch_header e parity c (encode_int32 wid @ encode_int32 opcode @ payload)
           = Some (Some (wid, opcode), c, payload)"
  using assms by (subst dispatch_header.simps) (simp add: Let_def decode_encode_int32 drop_append take_append)

lemma dispatch_header_marker:
  assumes "int32_range wid" and "int32_range opcode" and "wid \<noteq> 0" and "async_sequence_wait d c = Some 0"
  shows "dispatch_header e 0 c (header_bytes (Some d) wid opcode @ payload) = Some (Some (wid, opcode), c, payload)"
proof -
  have z: "decode_int32 (encode_int32 0) = 0" by (simp add: decode_encode_int32 int32_range_def)
  have "dispatch_header e 0 c (header_bytes (Some d) wid opcode @ payload)
      = dispatch_header e 0 c (encode_int32 wid @ encode_int32 opcode @ payload)"
    using assms(4) by (subst dispatch_header.simps) (simp add: Let_def header_bytes_def z drop_append take_append)
  then show ?thesis using dispatch_header_plain assms by simp
qed

lemma dispatch_header_blocked:
  assumes "async_sequence_wait d c = None"
  shows "dispatch_header e 0 c (header_bytes (Some d) wid opcode @ payload) = None"
proof -
  have z: "decode_int32 (encode_int32 0) = 0" by (simp add: decode_encode_int32 int32_range_def)
  show ?thesis
    using assms by (subst dispatch_header.simps) (simp add: Let_def header_bytes_def z drop_append take_append)
qed

text \<open>
  C15: the server's dispatcher reads back what the client's builder put on the stream:
  the operation, the request id and the payload after the header, for a header
  with or without a fence; with a fence it does so only once every sequence below
  the fence has been served, and waits before that.
\<close>

theorem dispatch_reads_request:
  assumes "int32_range wid" and "2 \<le> wid" and "wid mod 2 = 0" and "int32_range opcode"
    and "\<not> closed c" and "0 \<le> current_http2_stream ds t" and "\<not> async_cancelled c"
  defines "sid \<equiv> current_http2_stream ds t"
  shows "rpc_dispatch ds e 0 (c, t) (header_bytes marker wid opcode @ payload)
     = (if marker \<noteq> None \<and> serving_async_sequence c < the marker then None
        else Some (opcode, (c, t\<lparr>read_conn := ThisConn, read_stream_id := sid,
               read_request_id := wid, read_op := opcode\<rparr>), payload))"
proof -
  have wid: "wid \<noteq> 0" using assms(2) by simp
  show ?thesis
  proof (cases marker)
    case None
    then have "dispatch_header e 0 c (header_bytes marker wid opcode @ payload) = Some (Some (wid, opcode), c, payload)"
      using dispatch_header_plain [OF assms(1,4) wid] by (simp add: header_bytes_def)
    with None assms show ?thesis by (simp add: rpc_dispatch_def Let_def)
  next
    case (Some d)
    show ?thesis
    proof (cases "serving_async_sequence c < d")
      case True
      then have "async_sequence_wait d c = None" using assms(7) by (simp add: async_sequence_wait_def)
      from dispatch_header_blocked [OF this] True Some assms show ?thesis by (simp add: rpc_dispatch_def Let_def)
    next
      case False
      then have "async_sequence_wait d c = Some 0" using assms(7) by (simp add: async_sequence_wait_def)
      from dispatch_header_marker [OF assms(1,4) wid this] False Some assms show ?thesis
        by (simp add: rpc_dispatch_def Let_def)
    qed
  qed
qed

theorem dispatch_reads_witness:
  "rpc_dispatch 7 (-1) 0 (initial_conn 1, initial_thread_io) (header_bytes (Some 3) 2 42 @ [9]) = None \<and>
   rpc_dispatch 7 (-1) 0 ((initial_conn 1)\<lparr>serving_async_sequence := 3\<rparr>, initial_thread_io)
      (header_bytes (Some 3) 2 42 @ [9])
   = Some (42, ((initial_conn 1)\<lparr>serving_async_sequence := 3\<rparr>,
       initial_thread_io\<lparr>read_conn := ThisConn, read_stream_id := 7, read_request_id := 2, read_op := 42\<rparr>), [9])"
proof -
  have r: "int32_range 2" "int32_range 42" by (simp_all add: int32_range_def)
  have s: "current_http2_stream 7 initial_thread_io = 7" by (simp add: current_http2_stream_def initial_thread_io_def)
  note d = dispatch_reads_request [OF r(1) _ _ r(2), where ds = 7 and e = "-1" and t = initial_thread_io and marker = "Some 3"]
  show ?thesis
    using d [of "initial_conn 1"] d [of "(initial_conn 1)\<lparr>serving_async_sequence := 3\<rparr>"]
    by (simp add: s initial_conn_def)
qed

section \<open>Request ids\<close>





section \<open>Pitched transfers\<close>











section \<open>A ticket whose call was never sent\<close>

lemma prefix_selected:
  "closed (select_prefix s c) = closed c" "local_request_parity (select_prefix s c) = local_request_parity c"
  "issued_async_sequence (select_prefix s c) = issued_async_sequence c"
  "published_async_sequence (select_prefix s c) = published_async_sequence c"
  "write_queue (select_prefix s c) = write_queue c" "write_op (select_prefix s c) = write_op c"
  "write_copy_buffer (select_prefix s c) = write_copy_buffer c"
  by (simp_all add: select_prefix_def)

text \<open>
  C31: a fire-and-forget call whose write fails has already consumed its ticket: nothing of
  it reaches a stream, and yet the next request that is written publishes a count
  that includes it, so that requests entering afterwards depend on a sequence the
  server never receives.
\<close>

theorem failed_call_still_published:
  assumes "\<not> closed c" and "write_conn t = NoConn" and "nested_write t = None" and "local_request_parity c = 0"
    and "issued_async_sequence c = published_async_sequence c" and "opcode \<noteq> -1" and "opcode' \<noteq> -1"
    and "rpc_write_start_async_request env opcode (c, t) = Some (Some k, c1, t1)"
    and "rpc_write_end False ((c1, t1), wire) = (r1, (c2, t2), wire1)"
    and "rpc_write_start_request env' opcode' (c2, t2) = Some (0, c3, t3)"
    and "rpc_write_end True ((c3, t3), wire1) = (r3, (c4, t4), wire2)"
  shows "r1 = -1 \<and> wire1 = wire \<and> k = published_async_sequence c \<and>
         published_async_sequence c4 = published_async_sequence c + 1"
proof -
  let ?p = "published_async_sequence c"
  have s1: "\<not> closed c1" "write_conn t1 = ThisConn" "nested_write t1 = None" "local_request_parity c1 = 0"
      "issued_async_sequence c1 = ?p + 1" "published_async_sequence c1 = ?p" "write_op c1 = opcode" "k = ?p"
    using assms(1-6,8)
    by (auto simp: rpc_write_start_async_request_def start_defs split: if_splits option.splits)
  have s2: "\<not> closed c2" "write_conn t2 = NoConn" "nested_write t2 = None" "local_request_parity c2 = 0"
      "issued_async_sequence c2 = ?p + 1" "published_async_sequence c2 = ?p" "r1 = -1" "wire1 = wire"
    using s1 assms(6,9)
    by (auto simp: rpc_write_end_def release_write_builder_def write_buffer_release_def prefix_selected Let_def)
  have s3: "\<not> closed c3" "write_conn t3 = ThisConn" "nested_write t3 = None" "local_request_parity c3 = 0"
      "issued_async_sequence c3 = ?p + 1" "published_async_sequence c3 = ?p" "write_op c3 = opcode'"
      "length (write_queue c3) = 2"
    using s2(1-6) assms(10) by (auto simp: start_defs split: if_splits option.splits)
  then have "published_async_sequence c4 = ?p + 1"
    using assms(7,11)
    by (auto simp: rpc_write_end_def release_write_builder_def write_buffer_release_def prefix_selected publish_def Let_def
        split: if_splits)
  with s1(8) s2(7,8) show ?thesis by simp
qed

theorem failed_call_witness:
  "\<exists>c4. published_async_sequence c4 = 1 \<and>
     (\<exists>c1 t1 c2 t2 c3 t3 t4 wire r.
       rpc_write_start_async_request \<lparr>handoff_result = 0, closed_meanwhile = False, queue_alloc_ok = True, lane_stream = 5\<rparr> 7
         (initial_conn 0, initial_thread_io) = Some (Some 0, c1, t1) \<and>
       rpc_write_end False ((c1, t1), (\<lambda>_. [])) = (-1, (c2, t2), (\<lambda>_. [])) \<and>
       rpc_write_start_request \<lparr>handoff_result = 0, closed_meanwhile = False, queue_alloc_ok = True, lane_stream = 5\<rparr> 8
         (c2, t2) = Some (0, c3, t3) \<and>
       rpc_write_end True ((c3, t3), (\<lambda>_. [])) = (r, (c4, t4), wire))"
proof -
  let ?env = "\<lparr>handoff_result = 0, closed_meanwhile = False, queue_alloc_ok = True, lane_stream = 5\<rparr>"
  have "\<exists>c1 t1 c2 t2 c3 t3. rpc_write_start_async_request ?env 7 (initial_conn 0, initial_thread_io) = Some (Some 0, c1, t1) \<and>
       rpc_write_end False ((c1, t1), (\<lambda>_. [])) = (-1, (c2, t2), (\<lambda>_. [])) \<and>
       rpc_write_start_request ?env 8 (c2, t2) = Some (0, c3, t3)"
    by (simp add: rpc_write_start_async_request_def start_defs initial_conn_def initial_thread_io_def rpc_write_end_def
        select_prefix_def)
  then obtain c1 t1 c2 t2 c3 t3 where
      a: "rpc_write_start_async_request ?env 7 (initial_conn 0, initial_thread_io) = Some (Some 0, c1, t1)"
      and b: "rpc_write_end False ((c1, t1), (\<lambda>_. [])) = (-1, (c2, t2), (\<lambda>_. []))"
      and d: "rpc_write_start_request ?env 8 (c2, t2) = Some (0, c3, t3)" by blast
  obtain r c4 t4 wire where e: "rpc_write_end True ((c3, t3), (\<lambda>_. [])) = (r, (c4, t4), wire)"
    by (metis prod.collapse)
  have i: "\<not> closed (initial_conn 0)" "write_conn initial_thread_io = NoConn" "nested_write initial_thread_io = None"
      "local_request_parity (initial_conn 0) = 0" "published_async_sequence (initial_conn 0) = 0"
      "issued_async_sequence (initial_conn 0) = published_async_sequence (initial_conn 0)"
    by (simp_all add: initial_conn_def initial_thread_io_def)
  have "published_async_sequence c4 = published_async_sequence (initial_conn 0) + 1"
    using failed_call_still_published [OF i(1-4,6) _ _ a b d e] by simp
  then have "published_async_sequence c4 = 1" using i(5) by simp
  with a b d e show ?thesis by blast
qed

end
