(* ===== verification/Rpc_Fence.thy ===== *)
theory Rpc_Fence
  imports Rpc_Builder
begin

text \<open>
  The fence between a client's fire-and-forget calls and its later requests, over any
  number of threads and lanes. A call enters by reading the published count, waits
  for the builder lock, takes a ticket under it when it is fire-and-forget, and is
  written to its lane with \<^verbatim>\<open>select_prefix\<close>, \<^verbatim>\<open>fence_marker\<close> and \<^verbatim>\<open>publish\<close>, the parts of
  \<^verbatim>\<open>rpc_write_end\<close>. The log of a lane is what its stream carries.
\<close>

section \<open>The system\<close>

text \<open>An entry of a lane: the dependency of the call, the marker sent before it, its ticket.\<close>

record lane_entry =
  entry_dependency :: u64
  entry_marker :: "u64 option"
  entry_ticket :: "u64 option"






section \<open>Coverage\<close>

text \<open>
  A lane covers the sequences below a count when each of them is held back by a
  marker the lane has already carried, or is the ticket of an earlier call of the lane.
\<close>

definition covers :: "lane_entry list \<Rightarrow> u64 \<Rightarrow> bool" where
  "covers l d = (\<forall>k < d. (\<exists>e \<in> set l. \<exists>m. entry_marker e = Some m \<and> k < m) \<or>
                        (\<exists>e \<in> set l. entry_ticket e = Some k))"




lemma covers_zero [simp]: "covers l 0"
  by (simp add: covers_def)








lemma select_prefix_fields [simp]:
  fixes c :: conn
  shows "issued_async_sequence (select_prefix lane c) = issued_async_sequence c"
    "published_async_sequence (select_prefix lane c) = published_async_sequence c"
    "write_dependency (select_prefix lane c) = write_dependency c"
  by (simp_all add: select_prefix_def)

section \<open>Every step keeps the invariant\<close>







section \<open>Properties\<close>



end
