(* ===== verification/Checkpoint_Gate.thy ===== *)
theory Checkpoint_Gate
  imports Prelude
begin

text \<open>
  The gates that quiesce a server process for a checkpoint (\<^verbatim>\<open>checkpoint.cpp\<close>): the gate on
  CUDA calls, whose fast path uses atomics only, and the gate on stream captures.
  Both are step relations over any number of threads, one step per atomic access
  or per critical section of the mutex.
\<close>

section \<open>The call gate\<close>

text \<open>
  Where a calling thread stands in \<^verbatim>\<open>begin\<close> and \<^verbatim>\<open>end\<close>: it has read \<^verbatim>\<open>pending_\<close> as false, has
  counted itself, has seen \<^verbatim>\<open>pending_\<close> and must back off, waits on the condition, or runs.
\<close>

datatype caller = Outside | Checked | Counted | Backing_off | Waiting | Running

text \<open>
  Where a checkpointing thread stands in \<^verbatim>\<open>drain\<close>: waiting for the gate, owning it and
  waiting for the calls to leave, or returned.
\<close>

datatype drainer = Resumed | Queued | Draining | Drained

record call_gate =
  pending :: bool
  active_calls :: nat
  drain_waiters :: nat
  draining :: bool
  callers :: "nat \<Rightarrow> caller"
  drainers :: "nat \<Rightarrow> drainer"

definition initial_call_gate :: call_gate where
  "initial_call_gate = \<lparr>pending = False, active_calls = 0, drain_waiters = 0, draining = False,
     callers = (\<lambda>_. Outside), drainers = (\<lambda>_. Resumed)\<rparr>"

text \<open>\<^verbatim>\<open>end()\<close>: the decrement that stops at zero.\<close>

definition leave_count :: "nat \<Rightarrow> nat" where
  "leave_count active = (if active = 0 then 0 else active - 1)"

definition call_check :: "nat \<Rightarrow> call_gate \<Rightarrow> call_gate option" where
  "call_check t g = (if callers g t \<noteq> Outside then None
     else Some (g\<lparr>callers := (callers g)(t := if pending g then Waiting else Checked)\<rparr>))"

definition call_count :: "nat \<Rightarrow> call_gate \<Rightarrow> call_gate option" where
  "call_count t g = (if callers g t \<noteq> Checked then None
     else Some (g\<lparr>active_calls := active_calls g + 1, callers := (callers g)(t := Counted)\<rparr>))"

definition call_recheck :: "nat \<Rightarrow> call_gate \<Rightarrow> call_gate option" where
  "call_recheck t g = (if callers g t \<noteq> Counted then None
     else Some (g\<lparr>callers := (callers g)(t := if pending g then Backing_off else Running)\<rparr>))"

definition call_back_off :: "nat \<Rightarrow> call_gate \<Rightarrow> call_gate option" where
  "call_back_off t g = (if callers g t \<noteq> Backing_off then None
     else Some (g\<lparr>active_calls := leave_count (active_calls g), callers := (callers g)(t := Waiting)\<rparr>))"

text \<open>The wait of the slow path with the count that follows it, under the mutex.\<close>

definition call_admit :: "nat \<Rightarrow> call_gate \<Rightarrow> call_gate option" where
  "call_admit t g = (if callers g t \<noteq> Waiting \<or> draining g \<or> drain_waiters g \<noteq> 0 then None
     else Some (g\<lparr>active_calls := active_calls g + 1, callers := (callers g)(t := Running)\<rparr>))"

definition call_end :: "nat \<Rightarrow> call_gate \<Rightarrow> call_gate option" where
  "call_end t g = (if callers g t \<noteq> Running then None
     else Some (g\<lparr>active_calls := leave_count (active_calls g), callers := (callers g)(t := Outside)\<rparr>))"

definition drain_enter :: "nat \<Rightarrow> call_gate \<Rightarrow> call_gate option" where
  "drain_enter d g = (if drainers g d \<noteq> Resumed then None
     else Some (g\<lparr>drain_waiters := drain_waiters g + 1, pending := True, drainers := (drainers g)(d := Queued)\<rparr>))"

definition drain_own :: "nat \<Rightarrow> call_gate \<Rightarrow> call_gate option" where
  "drain_own d g = (if drainers g d \<noteq> Queued \<or> draining g then None
     else Some (g\<lparr>drain_waiters := drain_waiters g - 1, draining := True, drainers := (drainers g)(d := Draining)\<rparr>))"

definition drain_return :: "nat \<Rightarrow> call_gate \<Rightarrow> call_gate option" where
  "drain_return d g = (if drainers g d \<noteq> Draining \<or> active_calls g \<noteq> 0 then None
     else Some (g\<lparr>drainers := (drainers g)(d := Drained)\<rparr>))"

text \<open>The matching \<^verbatim>\<open>resume\<close> of the thread whose drain returned.\<close>

definition drain_resume :: "nat \<Rightarrow> call_gate \<Rightarrow> call_gate option" where
  "drain_resume d g = (if drainers g d \<noteq> Drained then None
     else let g = g\<lparr>drainers := (drainers g)(d := Resumed)\<rparr> in
       if \<not> draining g then Some g
       else Some (g\<lparr>draining := False, pending := (drain_waiters g \<noteq> 0)\<rparr>))"

inductive gate_step :: "call_gate \<Rightarrow> call_gate \<Rightarrow> bool" where
  "call_check t g = Some g' \<Longrightarrow> gate_step g g'"
| "call_count t g = Some g' \<Longrightarrow> gate_step g g'"
| "call_recheck t g = Some g' \<Longrightarrow> gate_step g g'"
| "call_back_off t g = Some g' \<Longrightarrow> gate_step g g'"
| "call_admit t g = Some g' \<Longrightarrow> gate_step g g'"
| "call_end t g = Some g' \<Longrightarrow> gate_step g g'"
| "drain_enter d g = Some g' \<Longrightarrow> gate_step g g'"
| "drain_own d g = Some g' \<Longrightarrow> gate_step g g'"
| "drain_return d g = Some g' \<Longrightarrow> gate_step g g'"
| "drain_resume d g = Some g' \<Longrightarrow> gate_step g g'"

abbreviation gate_init :: "call_gate \<Rightarrow> bool" where
  "gate_init g \<equiv> g = initial_call_gate"

section \<open>The capture gate\<close>

record capture_gate =
  admitted_begins :: nat
  active_captures :: nat
  checkpoint_waiters :: nat
  checkpoint_active :: bool
  checkpointers :: "nat \<Rightarrow> drainer"

definition initial_capture_gate :: capture_gate where
  "initial_capture_gate = \<lparr>admitted_begins = 0, active_captures = 0, checkpoint_waiters = 0,
     checkpoint_active = False, checkpointers = (\<lambda>_. Resumed)\<rparr>"

definition capture_begin :: "capture_gate \<Rightarrow> capture_gate option" where
  "capture_begin g = (if checkpoint_active g \<or> checkpoint_waiters g \<noteq> 0 then None
     else Some (g\<lparr>admitted_begins := admitted_begins g + 1\<rparr>))"

definition capture_begin_complete :: "bool \<Rightarrow> capture_gate \<Rightarrow> capture_gate" where
  "capture_begin_complete started g =
     (if admitted_begins g = 0 then g
      else let g = g\<lparr>admitted_begins := admitted_begins g - 1\<rparr> in
        if started then g\<lparr>active_captures := active_captures g + 1\<rparr> else g)"

definition capture_end :: "capture_gate \<Rightarrow> capture_gate" where
  "capture_end g = (if active_captures g = 0 then g else g\<lparr>active_captures := active_captures g - 1\<rparr>)"

definition wait_enter :: "nat \<Rightarrow> capture_gate \<Rightarrow> capture_gate option" where
  "wait_enter d g = (if checkpointers g d \<noteq> Resumed then None
     else Some (g\<lparr>checkpoint_waiters := checkpoint_waiters g + 1, checkpointers := (checkpointers g)(d := Queued)\<rparr>))"

definition wait_own :: "nat \<Rightarrow> capture_gate \<Rightarrow> capture_gate option" where
  "wait_own d g = (if checkpointers g d \<noteq> Queued \<or> checkpoint_active g then None
     else Some (g\<lparr>checkpoint_waiters := checkpoint_waiters g - 1, checkpoint_active := True,
                  checkpointers := (checkpointers g)(d := Draining)\<rparr>))"

definition wait_return :: "nat \<Rightarrow> capture_gate \<Rightarrow> capture_gate option" where
  "wait_return d g = (if checkpointers g d \<noteq> Draining \<or> admitted_begins g \<noteq> 0 \<or> active_captures g \<noteq> 0 then None
     else Some (g\<lparr>checkpointers := (checkpointers g)(d := Drained)\<rparr>))"

definition resume_captures :: "nat \<Rightarrow> capture_gate \<Rightarrow> capture_gate option" where
  "resume_captures d g = (if checkpointers g d \<noteq> Drained then None
     else let g = g\<lparr>checkpointers := (checkpointers g)(d := Resumed)\<rparr> in
       if \<not> checkpoint_active g then Some g else Some (g\<lparr>checkpoint_active := False\<rparr>))"

inductive capture_step :: "capture_gate \<Rightarrow> capture_gate \<Rightarrow> bool" where
  "capture_begin g = Some g' \<Longrightarrow> capture_step g g'"
| "capture_step g (capture_begin_complete started g)"
| "capture_step g (capture_end g)"
| "wait_enter d g = Some g' \<Longrightarrow> capture_step g g'"
| "wait_own d g = Some g' \<Longrightarrow> capture_step g g'"
| "wait_return d g = Some g' \<Longrightarrow> capture_step g g'"
| "resume_captures d g = Some g' \<Longrightarrow> capture_step g g'"

abbreviation capture_init :: "capture_gate \<Rightarrow> bool" where
  "capture_init g \<equiv> g = initial_capture_gate"

section \<open>Invariants\<close>

text \<open>The callers that the count includes.\<close>

definition counted :: "(nat \<Rightarrow> caller) \<Rightarrow> nat set" where
  "counted cs = {t. cs t \<in> {Counted, Backing_off, Running}}"

definition queued :: "(nat \<Rightarrow> drainer) \<Rightarrow> nat set" where
  "queued ds = {d. ds d = Queued}"

definition owners :: "(nat \<Rightarrow> drainer) \<Rightarrow> nat set" where
  "owners ds = {d. ds d \<in> {Draining, Drained}}"

definition gate_inv :: "call_gate \<Rightarrow> bool" where
  "gate_inv g = (finite (counted (callers g)) \<and> active_calls g = card (counted (callers g)) \<and>
     finite (queued (drainers g)) \<and> drain_waiters g = card (queued (drainers g)) \<and>
     (if draining g then (\<exists>d. owners (drainers g) = {d}) else owners (drainers g) = {}) \<and>
     (draining g \<or> drain_waiters g \<noteq> 0 \<longrightarrow> pending g) \<and>
     (\<forall>d t. drainers g d = Drained \<longrightarrow> callers g t \<noteq> Running))"

definition capture_inv :: "capture_gate \<Rightarrow> bool" where
  "capture_inv g =
     ((if checkpoint_active g then (\<exists>d. owners (checkpointers g) = {d}) else owners (checkpointers g) = {}) \<and>
     (\<forall>d. checkpointers g d = Drained \<longrightarrow> admitted_begins g = 0 \<and> active_captures g = 0))"

lemma counted_upd:
  "counted (cs(t := c)) = (if c \<in> {Counted, Backing_off, Running} then insert t (counted cs) else counted cs - {t})"
  by (auto simp: counted_def)

lemma queued_upd: "queued (ds(d := x)) = (if x = Queued then insert d (queued ds) else queued ds - {d})"
  by (auto simp: queued_def)

lemma owners_upd:
  "owners (ds(d := x)) = (if x \<in> {Draining, Drained} then insert d (owners ds) else owners ds - {d})"
  by (auto simp: owners_def)

lemma counted_mem: "t \<in> counted cs \<longleftrightarrow> cs t \<in> {Counted, Backing_off, Running}"
  by (simp add: counted_def)

lemma queued_mem: "d \<in> queued ds \<longleftrightarrow> ds d = Queued"
  by (simp add: queued_def)

lemma owners_mem: "d \<in> owners ds \<longleftrightarrow> ds d = Draining \<or> ds d = Drained"
  by (simp add: owners_def)

lemmas gate_sets = counted_upd queued_upd owners_upd counted_mem queued_mem owners_mem

lemma gate_invD:
  assumes "gate_inv g"
  shows "finite (counted (callers g))" "active_calls g = card (counted (callers g))"
    "finite (queued (drainers g))" "drain_waiters g = card (queued (drainers g))"
    "draining g \<Longrightarrow> \<exists>d. owners (drainers g) = {d}" "\<not> draining g \<Longrightarrow> owners (drainers g) = {}"
    "draining g \<or> drain_waiters g \<noteq> 0 \<Longrightarrow> pending g"
    "drainers g d = Drained \<Longrightarrow> callers g t \<noteq> Running"
    "drainers g d = Drained \<Longrightarrow> draining g"
proof -
  show "drainers g d = Drained \<Longrightarrow> draining g"
    using assms by (auto simp: gate_inv_def owners_def split: if_splits)
qed (use assms in \<open>auto simp: gate_inv_def split: if_splits\<close>)


lemma gate_inv_init: "gate_inv initial_call_gate"
  by (simp add: gate_inv_def initial_call_gate_def counted_def queued_def owners_def)

text \<open>A step of a caller keeps the invariant when it keeps the count exact and starts no call behind a drain.\<close>

lemma caller_step_inv:
  assumes "gate_inv g"
    and "n = card (counted ((callers g)(t := c)))"
    and "c = Running \<Longrightarrow> \<not> draining g"
  shows "gate_inv (g\<lparr>active_calls := n, callers := (callers g)(t := c)\<rparr>)"
  using assms gate_invD(9) [OF assms(1)]
  by (auto simp: gate_inv_def counted_upd split: if_splits)

lemma caller_step_inv_same:
  assumes "gate_inv g"
    and "(callers g t \<in> {Counted, Backing_off, Running}) = (c \<in> {Counted, Backing_off, Running})"
    and "c = Running \<Longrightarrow> \<not> draining g"
  shows "gate_inv (g\<lparr>callers := (callers g)(t := c)\<rparr>)"
proof -
  have "counted ((callers g)(t := c)) = counted (callers g)"
    using assms(2) by (auto simp: counted_def)
  then show ?thesis
    using assms gate_invD(9) [OF assms(1)] by (auto simp: gate_inv_def)
qed

lemma counted_enter:
  "gate_inv g \<Longrightarrow> t \<notin> counted (callers g) \<Longrightarrow> c \<in> {Counted, Backing_off, Running} \<Longrightarrow>
   active_calls g + 1 = card (counted ((callers g)(t := c)))"
  using gate_invD(1,2) [of g] by (auto simp: counted_upd)

lemma counted_leave:
  "gate_inv g \<Longrightarrow> t \<in> counted (callers g) \<Longrightarrow> c \<notin> {Counted, Backing_off, Running} \<Longrightarrow>
   leave_count (active_calls g) = card (counted ((callers g)(t := c)))"
  using gate_invD(1,2) [of g] by (auto simp: counted_upd leave_count_def card_Diff_singleton)

lemma drain_enter_inv:
  assumes "gate_inv g" "drain_enter d g = Some g'"
  shows "gate_inv g'"
proof -
  have "d \<notin> queued (drainers g)" "d \<notin> owners (drainers g)"
    using assms(2) by (auto simp: drain_enter_def queued_mem owners_mem split: if_splits)
  then show ?thesis
    using assms by (auto simp: drain_enter_def gate_inv_def queued_upd owners_upd split: if_splits)
qed

lemma drain_own_inv:
  assumes "gate_inv g" "drain_own d g = Some g'"
  shows "gate_inv g'"
proof -
  have d: "d \<in> queued (drainers g)" "\<not> draining g"
    using assms(2) by (auto simp: drain_own_def queued_mem split: if_splits)
  then have "drain_waiters g \<noteq> 0"
    using gate_invD(3,4) [OF assms(1)] by auto
  with d show ?thesis
    using assms by (auto simp: drain_own_def gate_inv_def queued_upd owners_upd card_Diff_singleton split: if_splits)
qed

lemma drain_return_inv:
  assumes "gate_inv g" "drain_return d g = Some g'"
  shows "gate_inv g'"
proof -
  have d: "d \<notin> queued (drainers g)" "d \<in> owners (drainers g)" "active_calls g = 0"
    and g': "g' = g\<lparr>drainers := (drainers g)(d := Drained)\<rparr>"
    using assms(2) by (auto simp: drain_return_def queued_mem owners_mem split: if_splits)
  have none: "callers g t \<noteq> Running" for t
    using gate_invD(1,2) [OF assms(1)] d(3) by (auto simp: counted_def)
  have "queued ((drainers g)(d := Drained)) = queued (drainers g)"
    "owners ((drainers g)(d := Drained)) = owners (drainers g)"
    using d by (auto simp: queued_upd owners_upd)
  then show ?thesis
    using assms(1) none by (auto simp: gate_inv_def g')
qed

lemma drain_resume_inv:
  assumes "gate_inv g" "drain_resume d g = Some g'"
  shows "gate_inv g'"
proof -
  have d: "drainers g d = Drained"
    using assms(2) by (auto simp: drain_resume_def split: if_splits)
  then have draining: "draining g"
    using gate_invD(9) [OF assms(1)] by blast
  have own: "owners (drainers g) = {d}"
    using gate_invD(5) [OF assms(1) draining] d owners_mem [of d "drainers g"] by auto
  have "queued ((drainers g)(d := Resumed)) = queued (drainers g)"
    using d by (auto simp: queued_upd queued_mem)
  moreover have "owners ((drainers g)(d := Resumed)) = {}"
    using own by (simp add: owners_upd)
  moreover have "((drainers g)(d := Resumed)) d' \<noteq> Drained" for d'
    using calculation(2) by (auto simp: owners_def)
  ultimately show ?thesis
    using assms draining d by (auto simp: gate_inv_def drain_resume_def Let_def)
qed

lemma gate_step_inv:
  assumes "gate_step g g'" "gate_inv g"
  shows "gate_inv g'"
  using assms(1)
proof cases
  case (1 t)
  then show ?thesis
    using caller_step_inv_same [OF assms(2), of t] by (auto simp: call_check_def split: if_splits)
next
  case (2 t)
  then show ?thesis
    using caller_step_inv [OF assms(2) counted_enter [OF assms(2)], of t Counted]
    by (auto simp: call_count_def counted_mem split: if_splits)
next
  case (3 t)
  then show ?thesis
    using caller_step_inv_same [OF assms(2), of t] gate_invD(7) [OF assms(2)]
    by (auto simp: call_recheck_def split: if_splits)
next
  case (4 t)
  then show ?thesis
    using caller_step_inv [OF assms(2) counted_leave [OF assms(2)], of t Waiting]
    by (auto simp: call_back_off_def counted_mem split: if_splits)
next
  case (5 t)
  then show ?thesis
    using caller_step_inv [OF assms(2) counted_enter [OF assms(2)], of t Running]
    by (auto simp: call_admit_def counted_mem split: if_splits)
next
  case (6 t)
  then show ?thesis
    using caller_step_inv [OF assms(2) counted_leave [OF assms(2)], of t Outside]
    by (auto simp: call_end_def counted_mem split: if_splits)
qed (blast intro: assms(2) drain_enter_inv drain_own_inv drain_return_inv drain_resume_inv)+

interpretation cg: step_invariant gate_init gate_step gate_inv
  by unfold_locales (auto intro: gate_inv_init gate_step_inv)

lemma capture_step_inv: "capture_step g g' \<Longrightarrow> capture_inv g \<Longrightarrow> capture_inv g'"
proof (induction rule: capture_step.induct)
  case (1 g g')
  then show ?case
    by (auto simp: capture_begin_def capture_inv_def owners_def split: if_splits)
next
  case (2 g started)
  then show ?case
    by (auto simp: capture_begin_complete_def capture_inv_def Let_def)
next
  case (3 g)
  then show ?case
    by (auto simp: capture_end_def capture_inv_def)
next
  case (4 d g g')
  then have g': "g' = g\<lparr>checkpoint_waiters := checkpoint_waiters g + 1, checkpointers := (checkpointers g)(d := Queued)\<rparr>"
    and d: "checkpointers g d = Resumed"
    by (simp_all add: wait_enter_def split: if_splits)
  from d have "owners ((checkpointers g)(d := Queued)) = owners (checkpointers g)"
    by (auto simp: owners_def)
  with 4(2) show ?case by (auto simp: g' capture_inv_def)
next
  case (5 d g g')
  then have g': "g' = g\<lparr>checkpoint_waiters := checkpoint_waiters g - 1, checkpoint_active := True,
                  checkpointers := (checkpointers g)(d := Draining)\<rparr>"
    and d: "\<not> checkpoint_active g"
    by (simp_all add: wait_own_def split: if_splits)
  with 5(2) show ?case by (auto simp: g' capture_inv_def owners_upd)
next
  case (6 d g g')
  then have g': "g' = g\<lparr>checkpointers := (checkpointers g)(d := Drained)\<rparr>"
    and d: "checkpointers g d = Draining" "admitted_begins g = 0" "active_captures g = 0"
    by (simp_all add: wait_return_def split: if_splits)
  from d(1) have "owners ((checkpointers g)(d := Drained)) = owners (checkpointers g)"
    by (auto simp: owners_def)
  with 6(2) d(2,3) show ?case by (auto simp: g' capture_inv_def)
next
  case (7 d g g')
  then have d: "d \<in> owners (checkpointers g)"
    by (auto simp: resume_captures_def owners_mem split: if_splits)
  with 7(2) have act: "checkpoint_active g" and own: "owners (checkpointers g) = {d}"
    by (auto simp: capture_inv_def split: if_splits)
  then have none: "owners ((checkpointers g)(d := Resumed)) = {}"
    by (simp add: owners_upd)
  then have "((checkpointers g)(d := Resumed)) d' \<noteq> Drained" for d'
    unfolding owners_def by blast
  moreover from 7(1) act have "g' = g\<lparr>checkpointers := (checkpointers g)(d := Resumed), checkpoint_active := False\<rparr>"
    by (simp add: resume_captures_def split: if_splits)
  ultimately show ?case
    using none by (simp add: capture_inv_def)
qed

lemma capture_inv_init: "capture_inv initial_capture_gate"
  by (simp add: capture_inv_def initial_capture_gate_def owners_def)

interpretation kg: step_invariant capture_init capture_step capture_inv
  by unfold_locales (auto intro: capture_inv_init capture_step_inv)

section \<open>Properties\<close>

text \<open>
  C1: whatever the interleaving of calls and checkpoints, from the moment a thread's
  \<^verbatim>\<open>drain\<close> returns until it resumes, no CUDA call runs between its \<^verbatim>\<open>begin\<close> and its \<^verbatim>\<open>end\<close>,
  although the fast path of \<^verbatim>\<open>begin\<close> never takes the mutex, and no other thread's drain
  has returned.
\<close>

theorem drained_gate_excludes_calls:
  assumes "reachable gate_init gate_step g" "drainers g d = Drained"
  shows "(\<forall>t. callers g t \<noteq> Running) \<and> (\<forall>d'. drainers g d' = Drained \<longrightarrow> d' = d)"
proof -
  note inv = cg.inv_reachable [OF assms(1)]
  have "draining g"
    using gate_invD(9) [OF inv assms(2)] .
  then obtain d0 where "owners (drainers g) = {d0}"
    using gate_invD(5) [OF inv] by blast
  then have "x = d0" if "drainers g x = Drained" for x
    using that by (metis owners_mem singletonD)
  then show ?thesis
    using gate_invD(8) [OF inv assms(2)] assms(2) by blast
qed

text \<open>A checkpoint that overtakes a call between its two reads of \<^verbatim>\<open>pending_\<close>.\<close>

theorem drained_gate_witness:
  "\<exists>g. reachable gate_init gate_step g \<and> drainers g 0 = Drained \<and> callers g 7 = Counted \<and>
       callers g 8 \<noteq> Running"
proof -
  let ?g1 = "the (call_check 7 initial_call_gate)"
  let ?g2 = "the (drain_enter 0 ?g1)"
  let ?g3 = "the (drain_own 0 ?g2)"
  let ?g4 = "the (drain_return 0 ?g3)"
  let ?g5 = "the (call_count 7 ?g4)"
  note defs = call_check_def drain_enter_def drain_own_def drain_return_def call_count_def initial_call_gate_def
  have r0: "reachable gate_init gate_step initial_call_gate" by (rule reach_init) simp
  have r1: "reachable gate_init gate_step ?g1"
    by (rule reach_step [OF r0], rule gate_step.intros(1) [of 7]) (simp add: defs)
  have r2: "reachable gate_init gate_step ?g2"
    by (rule reach_step [OF r1], rule gate_step.intros(7) [of 0]) (simp add: defs)
  have r3: "reachable gate_init gate_step ?g3"
    by (rule reach_step [OF r2], rule gate_step.intros(8) [of 0]) (simp add: defs)
  have r4: "reachable gate_init gate_step ?g4"
    by (rule reach_step [OF r3], rule gate_step.intros(9) [of 0]) (simp add: defs)
  have r: "reachable gate_init gate_step ?g5"
    by (rule reach_step [OF r4], rule gate_step.intros(2) [of 7]) (simp add: defs)
  have d: "drainers ?g5 0 = Drained" "callers ?g5 7 = Counted" by (simp_all add: defs)
  from drained_gate_excludes_calls [OF r d(1)] r d show ?thesis by blast
qed



text \<open>
  C19: from the moment a thread's \<^verbatim>\<open>wait_for_captures\<close> returns until it resumes, no stream
  capture is being begun and none is active, and no other thread's wait has returned.
\<close>

theorem checkpoint_excludes_captures:
  assumes "reachable capture_init capture_step g" "checkpointers g d = Drained"
  shows "admitted_begins g = 0 \<and> active_captures g = 0 \<and> capture_begin g = None \<and>
         (\<forall>d'. checkpointers g d' = Drained \<longrightarrow> d' = d)"
proof -
  note inv = kg.inv_reachable [OF assms(1)]
  have "d \<in> owners (checkpointers g)" using assms(2) by (simp add: owners_mem)
  then have act: "checkpoint_active g" and own: "owners (checkpointers g) = {d}"
    using inv by (auto simp: capture_inv_def split: if_splits)
  have "d' = d" if "checkpointers g d' = Drained" for d'
    using own that by (metis owners_mem singletonD)
  then show ?thesis
    using inv assms(2) act by (auto simp: capture_inv_def capture_begin_def)
qed

theorem checkpoint_excludes_captures_witness:
  "\<exists>g. reachable capture_init capture_step g \<and> checkpointers g 0 = Drained \<and> capture_begin g = None"
proof -
  let ?g1 = "the (wait_enter 0 (capture_begin_complete False (the (capture_begin initial_capture_gate))))"
  let ?g2 = "the (wait_own 0 ?g1)"
  let ?g3 = "the (wait_return 0 ?g2)"
  note defs = capture_begin_def capture_begin_complete_def wait_enter_def wait_own_def wait_return_def
    initial_capture_gate_def
  have "reachable capture_init capture_step initial_capture_gate" by (rule reach_init) simp
  then have "reachable capture_init capture_step (the (capture_begin initial_capture_gate))"
    by (rule reach_step, intro capture_step.intros(1)) (simp add: defs)
  then have r0: "reachable capture_init capture_step
      (capture_begin_complete False (the (capture_begin initial_capture_gate)))"
    by (rule reach_step) (rule capture_step.intros(2))
  have r1: "reachable capture_init capture_step ?g1"
    by (rule reach_step [OF r0], rule capture_step.intros(4) [of 0]) (simp add: defs)
  have r2: "reachable capture_init capture_step ?g2"
    by (rule reach_step [OF r1], rule capture_step.intros(5) [of 0]) (simp add: defs)
  have r: "reachable capture_init capture_step ?g3"
    by (rule reach_step [OF r2], rule capture_step.intros(6) [of 0]) (simp add: defs)
  have d: "checkpointers ?g3 0 = Drained" by (simp add: defs)
  from checkpoint_excludes_captures [OF r d] r d show ?thesis by blast
qed

end
