(* ===== verification/Transport.thy ===== *)
theory Transport
  imports Va_Arena Http_Dispatch
begin

text \<open>
  The client's connection pool (\<^verbatim>\<open>transport.cpp\<close>): the endpoint list, the negotiation
  of an address arena with a server, opening and closing the pool, the bulk lanes,
  and the texts of a checkpoint reconnect. Dialling, TLS, the HTTP/2 handshake and the
  start of threads are parameters: the record \<^verbatim>\<open>dial_env\<close> holds what they answer.
\<close>

section \<open>Endpoints\<close>

record client_endpoint =
  ep_host :: string
  ep_port :: string
  ep_label :: string
  ep_tls :: bool

definition kTransportCapacity :: nat where "kTransportCapacity = 16"

definition kDefaultPort :: string where "kDefaultPort = ''14833''"

definition no_endpoint :: client_endpoint where
  "no_endpoint = \<lparr>ep_host = [], ep_port = [], ep_label = [], ep_tls = False\<rparr>"

definition endpoint_has_invalid_scheme :: "string \<Rightarrow> bool" where
  "endpoint_has_invalid_scheme endpoint = (str_find ''://'' endpoint 0 \<noteq> None \<or>
     starts_with ''http:'' endpoint \<or> starts_with ''https:'' endpoint)"

text \<open>One token of the list: the endpoint it names, or \<^term>\<open>None\<close> where the loop continues.\<close>

definition parse_endpoint :: "bool \<Rightarrow> string \<Rightarrow> client_endpoint option" where
  "parse_endpoint strict token =
     (if strict \<and> token = [] then None
      else let https = starts_with ''https://'' token;
               http = starts_with ''http://'' token in
        if \<not> https \<and> \<not> http \<and> strict \<and> endpoint_has_invalid_scheme token then None
        else let rest = (if https then drop 8 token else if http then drop 7 token else token);
                 colon = str_find_char (CHR '':'') rest 0;
                 host = substr rest 0 colon;
                 port = (case colon of None \<Rightarrow> if https then ''443'' else kDefaultPort
                                     | Some c \<Rightarrow> substr rest (Suc c) None)
             in if strict \<and> (host = [] \<or> port = []) then None
                else Some \<lparr>ep_host = host, ep_port = port,
                           ep_label = (if port \<noteq> kDefaultPort then host @ '':'' @ port else host),
                           ep_tls = https\<rparr>)"

function endpoint_loop :: "bool \<Rightarrow> string \<Rightarrow> nat \<Rightarrow> client_endpoint list" where
  "endpoint_loop strict str pos =
     (if length str < pos then []
      else let comma = str_find_char (CHR '','') str pos;
               token = substr str pos (map_option (\<lambda>c. c - pos) comma);
               parsed = (case parse_endpoint strict token of None \<Rightarrow> [] | Some e \<Rightarrow> [e])
           in parsed @ endpoint_loop strict str (case comma of None \<Rightarrow> Suc (length str) | Some c \<Rightarrow> Suc c))"
  by pat_completeness auto
termination
  by (relation "measure (\<lambda>(strict, str, pos). Suc (length str) - pos)")
     (auto split: option.split dest!: str_find_char_bounds)

declare endpoint_loop.simps [simp del]

definition parse_endpoints :: "string \<Rightarrow> bool \<Rightarrow> int \<times> client_endpoint list" where
  "parse_endpoints servers strict = (let endpoints = endpoint_loop strict servers 0 in
     (if endpoints = [] then -1 else 0, endpoints))"

section \<open>The texts of a reconnect\<close>


definition resume_request :: "string \<Rightarrow> string \<Rightarrow> string" where
  "resume_request session checkpoint =
     ''POST /.well-known/lupine/resume HTTP/1.1'' @ crlf @ ''Host: lupine'' @ crlf @ ''Content-Length: 0'' @ crlf @
     ''x-lupine-session: '' @ session @ crlf @ ''x-lupine-checkpoint: '' @ checkpoint @ crlf @ crlf"

text \<open>
  The response is read byte by byte up to its blank line; the bytes behind it stay in
  the socket. The result is the verdict and the bytes left; the end of input fails.
\<close>

fun read_response :: "string \<Rightarrow> string \<Rightarrow> bool \<times> string" where
  "read_response response input =
     (if 4096 \<le> length response then (False, input)
      else case input of
        [] \<Rightarrow> (False, [])
      | byte # rest \<Rightarrow>
          let response = response @ [byte] in
          if length response \<ge> 4 \<and> drop (length response - 4) response = crlf @ crlf
          then (starts_with ''HTTP/1.1 200 '' response, rest)
          else read_response response rest)"

declare read_response.simps [simp del]

definition resume_handshake :: "string option \<Rightarrow> string \<Rightarrow> http_socket \<Rightarrow> string \<Rightarrow> bool \<times> http_socket \<times> string" where
  "resume_handshake session checkpoint fd input = (case session of None \<Rightarrow> (False, fd, input)
     | Some session \<Rightarrow>
         (let (sent, fd) = send_all (resume_request session checkpoint) fd in
          if \<not> sent then (False, fd, input)
          else let (ok, input) = read_response [] input in (ok, fd, input)))"

section \<open>Connecting\<close>

record transport_conn = va_conn +
  connected :: bool
  tls_session :: bool
  conn_closed :: bool
  logical_index :: int

definition blank_conn :: transport_conn where
  "blank_conn = \<lparr>va_base = 0, va_size = 0, va_next = 0, w_offset = 0, connected = False,
     tls_session = False, conn_closed = False, logical_index = 0\<rparr>"

definition LUPINE_RPC_HTTP2_VA_CONFLICT :: int where "LUPINE_RPC_HTTP2_VA_CONFLICT = -3"

text \<open>
  What the world answers while one endpoint is dialled: the k-th handshake maps the
  arena asked for (base and size, size 0 for none) to the handshake's result and to
  the window the peer states in it.
\<close>

record dial_env =
  tcp_ok :: bool
  init_ok :: bool
  tls_ok :: bool
  answer :: "nat \<Rightarrow> u64 \<times> u64 \<Rightarrow> int \<times> va_window option"
  metadata_ok :: bool
  thread_ok :: bool

definition reset_connection :: "transport_conn \<times> mappings \<Rightarrow> transport_conn \<times> mappings" where
  "reset_connection = (\<lambda>(conn, maps). (blank_conn, snd (va_release (conn, maps))))"

text \<open>
  One round of the negotiation loop: the connection settled (or reset, with the
  verdict), or another round with the window and the lowest slot to try. \<^verbatim>\<open>k\<close> counts the
  handshakes made before.
\<close>

datatype negotiation =
    Settled bool "transport_conn \<times> mappings"
  | Again va_window nat "transport_conn \<times> mappings"

definition negotiate_answer :: "int \<times> va_window option \<Rightarrow> va_window \<Rightarrow> nat \<Rightarrow> transport_conn \<times> mappings \<Rightarrow> negotiation" where
  "negotiate_answer response window slot st =
     (let (result, stated) = response in
      if result = LUPINE_RPC_HTTP2_VA_CONFLICT \<and> va_size (fst st) \<noteq> 0
      then let st = va_release st in
        (case stated of
           Some w \<Rightarrow> if w \<noteq> window then Again w 0 st
                     else if slot + 1 < LUPINE_VA_ARENA_COUNT then Again window (slot + 1) st
                     else Settled False (reset_connection st)
         | None \<Rightarrow> if slot + 1 < LUPINE_VA_ARENA_COUNT then Again window (slot + 1) st
                   else Settled False (reset_connection st))
      else if result < 0 then Settled False (reset_connection st)
      else Settled True st)"

definition negotiate_round :: "mmap_grant \<Rightarrow> bool \<Rightarrow> dial_env \<Rightarrow> nat \<Rightarrow> va_window \<Rightarrow> nat \<Rightarrow> transport_conn \<times> mappings
    \<Rightarrow> negotiation" where
  "negotiate_round grant tls env k window min_slot = (\<lambda>(conn, maps).
     (case (if w_offset conn \<noteq> 0 \<and> window_size window \<noteq> 0
            then va_reserve_client grant window min_slot (conn, maps)
            else (Some min_slot, conn, maps)) of
        (None, conn, maps) \<Rightarrow> Settled False (reset_connection (conn, maps))
      | (Some slot, conn, maps) \<Rightarrow>
          if k = 0 \<and> tls \<and> \<not> tls_ok env then Settled False (reset_connection (conn, maps))
          else let conn = (if k = 0 \<and> tls then conn\<lparr>tls_session := True\<rparr> else conn) in
            negotiate_answer (answer env k (va_base conn, va_size conn)) window slot (conn, maps)))"

text \<open>The loop with a bound on its rounds; \<^term>\<open>None\<close> when the bound is used up.\<close>

fun negotiate :: "mmap_grant \<Rightarrow> bool \<Rightarrow> dial_env \<Rightarrow> nat \<Rightarrow> nat \<Rightarrow> va_window \<Rightarrow> nat \<Rightarrow> transport_conn \<times> mappings
    \<Rightarrow> (bool \<times> transport_conn \<times> mappings) option" where
  "negotiate grant tls env 0 k window min_slot st = None"
| "negotiate grant tls env (Suc fuel) k window min_slot st =
     (case negotiate_round grant tls env k window min_slot st of
        Settled ok st \<Rightarrow> Some (ok, st)
      | Again window min_slot st \<Rightarrow> negotiate grant tls env fuel (Suc k) window min_slot st)"

text \<open>
  A bulk lane: the endpoint its connection was dialled to and its stream. The arrays
  of a pool entry are lists of fixed length.
\<close>

record bulk_lane =
  lane_endpoint :: client_endpoint
  lane_stream :: int

record bulk_lanes =
  lane_count :: nat
  lane_failed :: bool
  lane_slots :: "bulk_lane option list"

definition LUPINE_BULK_CONNECTIONS_MAX :: nat where "LUPINE_BULK_CONNECTIONS_MAX = 8"

record client_transport =
  config_w_offset :: u64
  config_strict :: bool
  config_reports :: bool
  connections :: "transport_conn list"
  endpoints :: "client_endpoint list"
  bulk :: "bulk_lanes list"
  bulk_dialed :: "bool list"
  conn_count :: nat
  shutting_down :: bool
  arenas :: mappings

definition initial_transport :: client_transport where
  "initial_transport = \<lparr>config_w_offset = 0, config_strict = False, config_reports = False,
     connections = replicate kTransportCapacity blank_conn,
     endpoints = replicate kTransportCapacity no_endpoint,
     bulk = replicate kTransportCapacity
       \<lparr>lane_count = 0, lane_failed = False, lane_slots = replicate LUPINE_BULK_CONNECTIONS_MAX None\<rparr>,
     bulk_dialed = replicate kTransportCapacity False, conn_count = 0, shutting_down = False, arenas = []\<rparr>"

definition connect_endpoint :: "mmap_grant \<Rightarrow> nat \<Rightarrow> dial_env \<Rightarrow> client_transport \<Rightarrow> client_endpoint \<Rightarrow> nat
    \<Rightarrow> (int \<times> client_transport) option" where
  "connect_endpoint grant fuel env state endpoint index =
     (let state = state\<lparr>connections := (connections state)[index := blank_conn]\<rparr> in
      if \<not> tcp_ok env \<or> \<not> init_ok env then Some (-1, state)
      else let conn = blank_conn\<lparr>connected := True, logical_index := int index, w_offset := config_w_offset state\<rparr> in
        case negotiate grant (ep_tls endpoint) env fuel 0 va_local_window 0 (conn, arenas state) of
          None \<Rightarrow> None
        | Some (ok, conn, maps) \<Rightarrow>
            let state = state\<lparr>connections := (connections state)[index := conn], arenas := maps\<rparr> in
            if \<not> ok then Some (-1, state)
            else let state = state\<lparr>endpoints := (endpoints state)[index := endpoint]\<rparr>;
                     reset = reset_connection (conn, maps);
                     failed = state\<lparr>connections := (connections state)[index := fst reset], arenas := snd reset\<rparr>
                 in if config_reports state \<and> \<not> metadata_ok env then Some (-1, failed)
                    else if \<not> thread_ok env then Some (-1, failed)
                    else Some (0, state))"


section \<open>The pool\<close>

record transport_config =
  cfg_w_offset :: u64
  cfg_strict :: bool
  cfg_reports :: bool

text \<open>The endpoints in turn; \<^verbatim>\<open>envs i\<close> is the world while the i-th is dialled.\<close>

fun open_endpoints :: "mmap_grant \<Rightarrow> nat \<Rightarrow> (nat \<Rightarrow> dial_env) \<Rightarrow> nat \<Rightarrow> client_endpoint list \<Rightarrow> client_transport
    \<Rightarrow> client_transport option" where
  "open_endpoints grant fuel envs i [] state = Some state"
| "open_endpoints grant fuel envs i (endpoint # rest) state =
     (if conn_count state = kTransportCapacity then Some state
      else case connect_endpoint grant fuel (envs i) state endpoint (conn_count state) of
        None \<Rightarrow> None
      | Some (result, state) \<Rightarrow>
          open_endpoints grant fuel envs (Suc i) rest
            (if result = 0 then state\<lparr>conn_count := conn_count state + 1\<rparr> else state))"

definition transport_open :: "mmap_grant \<Rightarrow> nat \<Rightarrow> (nat \<Rightarrow> dial_env) \<Rightarrow> transport_config \<Rightarrow> string option \<Rightarrow> client_transport
    \<Rightarrow> (int \<times> client_transport) option" where
  "transport_open grant fuel envs config servers state =
     (if conn_count state \<noteq> 0 then Some (0, state)
      else case servers of None \<Rightarrow> Some (-1, state)
      | Some servers \<Rightarrow>
          (let (parsed, eps) = parse_endpoints servers (cfg_strict config) in
           if parsed < 0 then Some (-1, state)
           else case open_endpoints grant fuel envs 0 eps
               (state\<lparr>config_w_offset := cfg_w_offset config, config_strict := cfg_strict config,
                      config_reports := cfg_reports config\<rparr>) of
             None \<Rightarrow> None
           | Some state \<Rightarrow> Some (if conn_count state = 0 then -1 else 0, state)))"

definition close_connection :: "transport_conn \<Rightarrow> transport_conn" where
  "close_connection conn = conn\<lparr>conn_closed := True\<rparr>"

definition reset_index :: "nat \<Rightarrow> client_transport \<Rightarrow> client_transport" where
  "reset_index i state = (let (conn, maps) = reset_connection (connections state ! i, arenas state) in
     state\<lparr>connections := (connections state)[i := conn], endpoints := (endpoints state)[i := no_endpoint],
           arenas := maps\<rparr>)"

definition transport_close :: "client_transport \<Rightarrow> client_transport" where
  "transport_close state =
     (if shutting_down state then state
      else let n = conn_count state;
               state = state\<lparr>shutting_down := True,
                 connections := map close_connection (take n (connections state)) @ drop n (connections state)\<rparr>;
               state = fold reset_index [0..<n] state
           in state\<lparr>conn_count := 0, shutting_down := False\<rparr>)"

definition transport_connection :: "nat \<Rightarrow> client_transport \<Rightarrow> transport_conn option" where
  "transport_connection index state =
     (if index < conn_count state then Some (connections state ! index) else None)"

definition transport_endpoint :: "nat \<Rightarrow> client_transport \<Rightarrow> client_endpoint option" where
  "transport_endpoint index state =
     (if index < conn_count state then Some (endpoints state ! index) else None)"

text \<open>The connections a retired lane is announced on.\<close>

definition retire_lane_targets :: "client_transport \<Rightarrow> nat list" where
  "retire_lane_targets state =
     (if shutting_down state then []
      else filter (\<lambda>i. \<not> conn_closed (connections state ! i)) [0..<conn_count state])"

section \<open>Bulk lanes\<close>

definition bulk_wanted :: "int option \<Rightarrow> nat" where
  "bulk_wanted configured =
     min (case configured of None \<Rightarrow> 4 | Some i \<Rightarrow> unat (word_of_int i :: u32)) LUPINE_BULK_CONNECTIONS_MAX"

text \<open>The dialled lanes are moved to the front of the arrays.\<close>

definition compact_lane :: "(nat \<Rightarrow> int option) \<Rightarrow> nat \<Rightarrow> bulk_lanes \<Rightarrow> bulk_lanes" where
  "compact_lane dials i lanes =
     (if dials i = None then lanes
      else lanes\<lparr>lane_slots := (lane_slots lanes)[lane_count lanes := lane_slots lanes ! i],
                 lane_count := lane_count lanes + 1\<rparr>)"

text \<open>\<^verbatim>\<open>dials i\<close> is the stream of the i-th bulk connection when its dial succeeds.\<close>

definition dial_bulk_lanes :: "string option \<Rightarrow> int option \<Rightarrow> (nat \<Rightarrow> int option) \<Rightarrow> nat \<Rightarrow> client_transport
    \<Rightarrow> client_transport" where
  "dial_bulk_lanes token configured dials index state =
     (let n = bulk_wanted configured; endpoint = endpoints state ! index in
      if token = None \<or> ep_tls endpoint \<or> n = 0 then state
      else let lanes = bulk state ! index;
               lanes = lanes\<lparr>lane_slots := map (\<lambda>i. if i < n then
                   (case dials i of None \<Rightarrow> lane_slots lanes ! i
                    | Some s \<Rightarrow> Some \<lparr>lane_endpoint = endpoint, lane_stream = s\<rparr>)
                   else lane_slots lanes ! i) [0..<LUPINE_BULK_CONNECTIONS_MAX]\<rparr>;
               lanes = fold (compact_lane dials) [0..<n] lanes
           in state\<lparr>bulk := (bulk state)[index := lanes]\<rparr>)"

definition transport_bulk_lanes :: "string option \<Rightarrow> int option \<Rightarrow> (nat \<Rightarrow> int option) \<Rightarrow> transport_conn \<Rightarrow> client_transport
    \<Rightarrow> bulk_lanes option \<times> client_transport" where
  "transport_bulk_lanes token configured dials conn state =
     (if logical_index conn < 0 \<or> int (conn_count state) \<le> logical_index conn then (None, state)
      else let index = nat (logical_index conn);
               state = (if \<not> bulk_dialed state ! index \<and> \<not> shutting_down state
                 then dial_bulk_lanes token configured dials index
                        (state\<lparr>bulk_dialed := (bulk_dialed state)[index := True]\<rparr>)
                 else state);
               lanes = bulk state ! index
           in (if lane_count lanes \<noteq> 0 \<and> \<not> lane_failed lanes then Some lanes else None, state))"

section \<open>Endpoint lists\<close>

lemma endpoint_loop_split:
  "pos \<le> length str \<Longrightarrow> endpoint_loop strict str pos
     = List.map_filter (parse_endpoint strict) (split_commas (drop pos str))"
proof (induction strict str pos rule: endpoint_loop.induct)
  case (1 strict str pos)
  show ?case
  proof (cases "str_find_char (CHR '','') str pos")
    case None
    have "endpoint_loop strict str (Suc (length str)) = []" by (subst endpoint_loop.simps) simp
    with None "1.prems" show ?thesis
      by (subst endpoint_loop.simps) (simp add: split_commas_last [OF None] List.map_filter_def split: option.split)
  next
    case (Some c)
    with "1.IH" "1.prems" str_find_char_bounds [OF Some] show ?thesis
      by (subst endpoint_loop.simps) (simp add: split_commas_next [OF Some] List.map_filter_def split: option.split)
  qed
qed

text \<open>The text of an endpoint, with its scheme and its port written out.\<close>

definition render_endpoint :: "client_endpoint \<Rightarrow> string" where
  "render_endpoint e = (if ep_tls e then ''https://'' else ''http://'') @ ep_host e @ '':'' @ ep_port e"

definition endpoint_ok :: "client_endpoint \<Rightarrow> bool" where
  "endpoint_ok e = (ep_host e \<noteq> [] \<and> ep_port e \<noteq> [] \<and> CHR '':'' \<notin> set (ep_host e) \<and>
     CHR '','' \<notin> set (ep_host e) \<and> CHR '','' \<notin> set (ep_port e) \<and>
     ep_label e = (if ep_port e \<noteq> kDefaultPort then ep_host e @ '':'' @ ep_port e else ep_host e))"

lemma parse_render_endpoint:
  assumes "endpoint_ok e"
  shows "parse_endpoint strict (render_endpoint e) = Some e"
proof -
  obtain h p l b where e: "e = \<lparr>ep_host = h, ep_port = p, ep_label = l, ep_tls = b\<rparr>"
    by (cases e) auto
  have c: "str_find_char (CHR '':'') (h @ CHR '':'' # q) 0 = Some (length h)" for q
    using assms find_index_first [of h "\<lambda>x. x = CHR '':''" "CHR '':''" q]
    by (auto simp: str_find_char_def endpoint_ok_def e)
  have s: "starts_with ''https://'' (''https://'' @ r)" "starts_with ''http://'' (''http://'' @ r)"
      "\<not> starts_with ''https://'' (''http://'' @ r)" for r
    by (simp_all add: starts_with_def)
  have l: "l = (if p \<noteq> kDefaultPort then h @ '':'' @ p else h)" and ne: "h \<noteq> []" "p \<noteq> []"
    using assms unfolding e endpoint_ok_def client_endpoint.select_convs by blast+
  show ?thesis
    by (cases b) (simp_all add: e render_endpoint_def parse_endpoint_def s [simplified] Let_def substr_def c l ne)
qed



section \<open>Negotiation\<close>

lemma reserve_client_cases:
  assumes "va_reserve_client grant window min_slot (conn, maps) = (result, conn', maps')"
  shows "case result of None \<Rightarrow> True
    | Some slot \<Rightarrow> min_slot \<le> slot \<and> slot < 8 \<and> va_size conn = 0"
proof -
  have tried: "slot \<in> set slots" if "va_try_slots grant window asz slots (c, m) = (Some slot, c', m')"
    for slot slots asz c m c' m'
    using that
    by (induction slots arbitrary: m) (auto simp: Let_def split: option.splits)
  show ?thesis
    using assms tried
    by (fastforce simp: va_reserve_client_def Let_def LUPINE_VA_ARENA_COUNT_def split: if_splits option.splits)
qed

text \<open>The candidates left: those of the window in use, and those of the window still to be adopted.\<close>

definition candidates_left :: "va_window \<Rightarrow> va_window \<Rightarrow> nat \<Rightarrow> nat" where
  "candidates_left stated window min_slot = (if window = stated then 0 else 8) + (8 - min_slot)"

lemma va_release_size [simp]: "va_size (fst (va_release (conn, maps))) = 0"
  by (simp add: va_release_def Let_def)


lemma negotiate_round_again:
  assumes "negotiate_round grant tls env k window min_slot (conn, maps) = Again w m st'" "min_slot < 8"
  shows "va_size (fst st') = 0" "m < 8"
    "w = window \<and> min_slot < m \<or> w \<noteq> window \<and> m = 0 \<and> (\<exists>r. snd (answer env k r) = Some w)"
proof -
  obtain result conn1 maps1 where r: "(if w_offset conn \<noteq> 0 \<and> window_size window \<noteq> 0
            then va_reserve_client grant window min_slot (conn, maps)
            else (Some min_slot, conn, maps)) = (result, conn1, maps1)"
    by (metis prod_cases3)
  then obtain slot where slot: "result = Some slot"
    using assms(1) by (cases result) (auto simp: negotiate_round_def split: if_splits)
  have bounds: "min_slot \<le> slot" "slot < 8"
    using r reserve_client_cases [of grant window min_slot conn maps result conn1 maps1] assms(2) slot
    by (auto split: if_splits)
  define conn2 where "conn2 = (if k = 0 \<and> tls then conn1\<lparr>tls_session := True\<rparr> else conn1)"
  obtain res stated where a: "answer env k (va_base conn2, va_size conn2) = (res, stated)"
    by fastforce
  then have "negotiate_answer (res, stated) window slot (conn2, maps1) = Again w m st'"
    using assms(1) r slot by (auto simp: negotiate_round_def Let_def conn2_def split: if_splits)
  then have st': "st' = va_release (conn2, maps1)"
    and cases: "w = window \<and> m = slot + 1 \<and> slot + 1 < 8 \<or> w \<noteq> window \<and> m = 0 \<and> stated = Some w"
    by (auto simp: negotiate_answer_def LUPINE_VA_ARENA_COUNT_def Let_def split: if_splits option.splits)
  show "va_size (fst st') = 0" using st' by simp
  show "m < 8" using cases by auto
  have "snd (answer env k (va_base conn2, va_size conn2)) = stated" using a by simp
  then show "w = window \<and> min_slot < m \<or> w \<noteq> window \<and> m = 0 \<and> (\<exists>r. snd (answer env k r) = Some w)"
    using cases bounds by (metis less_Suc_eq_le Suc_eq_plus1)
qed

lemma negotiate_returns:
  assumes "\<And>k r w. snd (answer env k r) = Some w \<Longrightarrow> w = stated"
    and "min_slot < 8" and "candidates_left stated window min_slot \<le> fuel"
  shows "negotiate grant tls env fuel k window min_slot st \<noteq> None"
  using assms(2-)
proof (induction fuel arbitrary: k window min_slot st)
  case 0
  then show ?case by (simp add: candidates_left_def)
next
  case (Suc fuel)
  show ?case
  proof (cases "negotiate_round grant tls env k window min_slot st")
    case (Again w m st')
    obtain conn maps where st: "st = (conn, maps)" by fastforce
    note again = negotiate_round_again [OF Again [unfolded st] Suc.prems(1)]
    have "w = window \<and> min_slot < m \<or> w \<noteq> window \<and> m = 0 \<and> w = stated"
      using again(3) assms(1) by blast
    then have "candidates_left stated w m < candidates_left stated window min_slot"
      using again(2) Suc.prems(1) unfolding candidates_left_def by (elim disjE conjE) simp_all
    with Suc.prems(2) have "candidates_left stated w m \<le> fuel" by simp
    with Again again(2) Suc.IH [of m w "Suc k" st'] show ?thesis by simp
  qed simp
qed





section \<open>Arenas of the pool\<close>

text \<open>The two views a connection with an arena holds mapped.\<close>

definition held :: "'a va_conn_scheme \<Rightarrow> mappings" where
  "held conn = (if va_size conn = 0 then []
     else [(va_base conn, va_size conn), (va_base conn + w_offset conn, va_size conn)])"

definition separate :: "u64 \<times> u64 \<Rightarrow> u64 \<times> u64 \<Rightarrow> bool" where
  "separate r r' = (unat (fst r) + unat (snd r) \<le> unat (fst r') \<or> unat (fst r') + unat (snd r') \<le> unat (fst r))"

definition ranges_ok :: "mappings \<Rightarrow> bool" where
  "ranges_ok maps = (sorted_wrt separate maps \<and> (\<forall>r \<in> set maps. snd r \<noteq> 0))"

text \<open>What \<^verbatim>\<open>MAP_FIXED_NOREPLACE\<close> promises: a granted range is not empty and overlaps nothing held.\<close>

definition exclusive_grant :: "mmap_grant \<Rightarrow> bool" where
  "exclusive_grant grant = (\<forall>maps base sz. grant maps base sz \<longrightarrow>
     sz \<noteq> 0 \<and> (\<forall>r \<in> set maps. separate r (base, sz)))"

definition pool_ok :: "client_transport \<Rightarrow> bool" where
  "pool_ok state = (conn_count state \<le> kTransportCapacity \<and>
     length (connections state) = kTransportCapacity \<and> length (bulk_dialed state) = kTransportCapacity \<and>
     arenas state = concat (map held (take (conn_count state) (connections state))) \<and>
     ranges_ok (arenas state) \<and>
     (\<forall>i < conn_count state. connected (connections state ! i) \<and> logical_index (connections state ! i) = int i))"

lemma ranges_ok_snoc:
  "ranges_ok (maps @ [r]) \<longleftrightarrow> ranges_ok maps \<and> snd r \<noteq> 0 \<and> (\<forall>q \<in> set maps. separate q r)"
  by (auto simp: ranges_ok_def sorted_wrt_append)

lemma ranges_ok_appendD: "ranges_ok (xs @ ys) \<Longrightarrow> ranges_ok xs \<and> ranges_ok ys"
  by (auto simp: ranges_ok_def sorted_wrt_append)

lemma separate_irrefl: "snd r \<noteq> 0 \<Longrightarrow> \<not> separate r r"
  by (auto simp: separate_def unat_eq_0 word_neq_0_conv)

lemma ranges_ok_distinct: "ranges_ok maps \<Longrightarrow> distinct maps"
proof (induction maps)
  case (Cons r maps)
  then have "r \<notin> set maps"
    using separate_irrefl [of r] by (auto simp: ranges_ok_def)
  with Cons show ?case by (auto simp: ranges_ok_def)
qed simp

lemma exclusive_grantD:
  "exclusive_grant grant \<Longrightarrow> grant maps base sz \<Longrightarrow> ranges_ok maps \<Longrightarrow> ranges_ok (maps @ [(base, sz)])"
  by (auto simp: exclusive_grant_def ranges_ok_snoc)

lemma exclusive_no_replace: "exclusive_grant grant \<Longrightarrow> no_replace grant"
  using separate_irrefl by (fastforce simp: exclusive_grant_def no_replace_def)

lemma release_held:
  assumes "distinct (xs @ held conn @ ys)"
  shows "snd (va_release (conn, xs @ held conn @ ys)) = xs @ ys"
proof (cases "va_size conn = 0")
  case False
  let ?a = "(va_base conn, va_size conn)" and ?b = "(va_base conn + w_offset conn, va_size conn)"
  have "?a \<notin> set xs" "?b \<notin> set xs" "?a \<notin> set ys" "?b \<notin> set ys"
    using assms False by (auto simp: held_def)
  then have "filter (\<lambda>r. r \<noteq> ?a) (filter (\<lambda>r. r \<noteq> ?b) zs) = zs" if "set zs \<subseteq> set xs \<union> set ys" for zs
    using that by (intro trans [OF filter_id_conv [THEN iffD2]]) (auto simp: filter_id_conv)
  then show ?thesis
    using False by (simp add: va_release_def munmap_def held_def Let_def)
qed (simp add: va_release_def held_def)

lemma held_cong:
  "va_base c = va_base d \<Longrightarrow> va_size c = va_size d \<Longrightarrow> w_offset c = w_offset d \<Longrightarrow> held c = held d"
  by (simp add: held_def)

lemma reset_connection_held:
  "ranges_ok (maps @ held conn) \<Longrightarrow> reset_connection (conn, maps @ held conn) = (blank_conn, maps)"
  using release_held [of maps conn "[]"] ranges_ok_distinct [of "maps @ held conn"]
  by (simp add: reset_connection_def)

text \<open>A round keeps the books: what is mapped beyond the start is what the connection holds.\<close>

lemma negotiate_reserve_effect:
  assumes "exclusive_grant grant" "ranges_ok maps" "va_size conn = 0"
    and "(if w_offset conn \<noteq> 0 \<and> window_size window \<noteq> 0
            then va_reserve_client grant window min_slot (conn, maps)
            else (Some min_slot, conn, maps)) = (result, conn', maps')"
  shows "maps' = maps @ held conn'" "ranges_ok maps'" "connected conn' = connected conn"
    "logical_index conn' = logical_index conn"
proof -
  have "maps' = maps @ held conn' \<and> ranges_ok maps' \<and> connected conn' = connected conn \<and>
      logical_index conn' = logical_index conn"
  proof (cases "w_offset conn \<noteq> 0 \<and> window_size window \<noteq> 0")
    case True
    then have r: "va_reserve_client grant window min_slot (conn, maps) = (result, conn', maps')"
      using assms(4) by simp
    note e = va_reserve_client_effect [OF exclusive_no_replace [OF assms(1)] assms(3) r]
    show ?thesis
    proof (cases result)
      case None
      with e assms(2,3) show ?thesis by (simp add: held_def)
    next
      case (Some slot)
      define asz where "asz = window_size window div 8"
      define base where "base = window_base window + of_nat slot * asz"
      define wview where "wview = LUPINE_VA_WRITE_BASE + of_nat slot * asz"
      have f: "asz \<noteq> 0" "conn' = conn\<lparr>va_base := base, va_size := asz, va_next := 0, w_offset := wview - base\<rparr>"
          "maps' = maps @ [(base, asz), (wview, asz)]" "grant maps base asz" "grant (maps @ [(base, asz)]) wview asz"
        using e Some unfolding asz_def base_def wview_def by (simp_all only: option.case Let_def) blast+
      have "ranges_ok ((maps @ [(base, asz)]) @ [(wview, asz)])"
        using f(4,5) assms(1,2) by (intro exclusive_grantD)
      with f(1,2,3) show ?thesis by (simp add: held_def)
    qed
  next
    case False
    with assms(2-4) show ?thesis by (auto simp: held_def)
  qed
  then show "maps' = maps @ held conn'" "ranges_ok maps'" "connected conn' = connected conn"
    "logical_index conn' = logical_index conn" by blast+
qed


definition books_kept :: "mappings \<Rightarrow> transport_conn \<Rightarrow> negotiation \<Rightarrow> bool" where
  "books_kept maps conn outcome = (case outcome of
     Settled ok (conn', maps') \<Rightarrow>
       (if ok then maps' = maps @ held conn' \<and> ranges_ok maps' \<and> connected conn' = connected conn \<and>
                   logical_index conn' = logical_index conn
        else conn' = blank_conn \<and> maps' = maps)
   | Again w m (conn', maps') \<Rightarrow> maps' = maps \<and> va_size conn' = 0 \<and> connected conn' = connected conn \<and>
                   logical_index conn' = logical_index conn)"

lemma books_kept_cong:
  "connected c = connected d \<Longrightarrow> logical_index c = logical_index d \<Longrightarrow> books_kept maps c r = books_kept maps d r"
  by (simp only: books_kept_def)

lemma va_release_fields:
  "connected (fst (va_release (conn, maps))) = connected conn"
  "logical_index (fst (va_release (conn, maps))) = logical_index conn"
  by (simp_all add: va_release_def Let_def)

lemma negotiate_answer_effect:
  assumes "ranges_ok (maps @ held conn)"
  shows "books_kept maps conn (negotiate_answer response window slot (conn, maps @ held conn))"
proof -
  obtain result stated where r: "response = (result, stated)" by fastforce
  obtain conn' maps' where rel: "va_release (conn, maps @ held conn) = (conn', maps')" by fastforce
  have "snd (va_release (conn, maps @ held conn)) = maps"
    using release_held [of maps conn "[]"] ranges_ok_distinct [OF assms] by simp
  with rel have m: "maps' = maps" and c: "va_size conn' = 0" "connected conn' = connected conn"
      "logical_index conn' = logical_index conn"
    using va_release_size [of conn "maps @ held conn"] va_release_fields [of conn "maps @ held conn"] by simp_all
  have again: "reset_connection (conn', maps) = (blank_conn, maps)"
    using c(1) by (simp add: reset_connection_def va_release_def)
  show ?thesis
    using assms m c again reset_connection_held [OF assms]
    by (simp add: negotiate_answer_def r rel books_kept_def Let_def split: option.split)
qed

lemma negotiate_round_effect:
  assumes "exclusive_grant grant" "ranges_ok maps" "va_size conn = 0"
  shows "books_kept maps conn (negotiate_round grant tls env k window min_slot (conn, maps))"
proof -
  obtain result conn1 maps1 where r: "(if w_offset conn \<noteq> 0 \<and> window_size window \<noteq> 0
            then va_reserve_client grant window min_slot (conn, maps)
            else (Some min_slot, conn, maps)) = (result, conn1, maps1)"
    by (metis prod_cases3)
  note e = negotiate_reserve_effect [OF assms r]
  define conn2 where "conn2 = (if k = 0 \<and> tls then conn1\<lparr>tls_session := True\<rparr> else conn1)"
  have c2: "held conn2 = held conn1" "connected conn2 = connected conn" "logical_index conn2 = logical_index conn"
    using e(3,4) by (simp_all add: conn2_def held_def)
  have reset: "reset_connection (conn1, maps1) = (blank_conn, maps)"
    using e(1,2) reset_connection_held [of maps conn1] by simp
  have "books_kept maps conn2 (negotiate_answer (answer env k (va_base conn2, va_size conn2)) window slot (conn2, maps1))"
    for slot
    using negotiate_answer_effect [of maps conn2] e(1,2) c2(1) by simp
  then have "books_kept maps conn (negotiate_answer (answer env k (va_base conn2, va_size conn2)) window slot (conn2, maps1))"
    for slot
    using books_kept_cong [OF c2(2,3)] by blast
  moreover have "books_kept maps conn (Settled False (blank_conn, maps))" by (simp add: books_kept_def)
  ultimately show ?thesis
    using reset unfolding negotiate_round_def prod.case r
    by (cases result) (simp_all add: Let_def conn2_def [symmetric])
qed

lemma negotiate_effect:
  assumes "exclusive_grant grant" "ranges_ok maps"
    and "negotiate grant tls env fuel k window min_slot (conn, maps) = Some (ok, conn', maps')" "va_size conn = 0"
  shows "books_kept maps conn (Settled ok (conn', maps'))"
  using assms(3,4)
proof (induction fuel arbitrary: k window min_slot conn)
  case (Suc fuel)
  note e = negotiate_round_effect [OF assms(1,2) Suc.prems(2), of tls env k window min_slot]
  show ?case
  proof (cases "negotiate_round grant tls env k window min_slot (conn, maps)")
    case (Settled b st)
    with Suc.prems e show ?thesis by simp
  next
    case (Again w m st)
    obtain conn1 where st: "st = (conn1, maps)" and c1: "va_size conn1 = 0" "connected conn1 = connected conn"
        "logical_index conn1 = logical_index conn"
      using e Again by (cases st) (auto simp: books_kept_def)
    have "books_kept maps conn1 (Settled ok (conn', maps'))"
      using Suc.prems(1) Again st c1(1) by (intro Suc.IH) simp_all
    then show ?thesis using books_kept_cong [OF c1(2,3)] by blast
  qed
qed simp

lemma connect_endpoint_effect:
  assumes "exclusive_grant grant" "pool_ok state" "conn_count state < kTransportCapacity"
    and "connect_endpoint grant fuel env state endpoint (conn_count state) = Some (result, state')"
  shows "conn_count state' = conn_count state"
    and "if result = 0 then pool_ok (state'\<lparr>conn_count := conn_count state' + 1\<rparr>) else pool_ok state'"
proof -
  let ?n = "conn_count state"
  let ?conn = "blank_conn\<lparr>connected := True, logical_index := int ?n, w_offset := config_w_offset state\<rparr>"
  have blank: "pool_ok (state\<lparr>connections := (connections state)[?n := c]\<rparr>)" for c
    using assms(2) by (auto simp: pool_ok_def take_update_cancel nth_list_update)
  have "conn_count state' = ?n \<and>
      (if result = 0 then pool_ok (state'\<lparr>conn_count := conn_count state' + 1\<rparr>) else pool_ok state')"
  proof (cases "tcp_ok env \<and> init_ok env")
    case True
    then obtain ok conn maps where neg:
        "negotiate grant (ep_tls endpoint) env fuel 0 va_local_window 0 (?conn, arenas state) = Some (ok, conn, maps)"
      using assms(4) by (auto simp: connect_endpoint_def Let_def split: option.splits)
    have books: "books_kept (arenas state) ?conn (Settled ok (conn, maps))"
      using assms(1,2) neg by (intro negotiate_effect [where conn = ?conn]) (auto simp: pool_ok_def blank_conn_def)
    show ?thesis
    proof (cases ok)
      case False
      with books neg True assms(4) blank show ?thesis
        by (auto simp: connect_endpoint_def books_kept_def)
    next
      case okay: True
      then have maps: "maps = arenas state @ held conn" "ranges_ok maps" "connected conn" "logical_index conn = int ?n"
        using books by (auto simp: books_kept_def)
      have reset: "reset_connection (conn, maps) = (blank_conn, arenas state)"
        using maps(1,2) reset_connection_held by simp
      have taken: "take (Suc ?n) ((connections state)[?n := conn]) = take ?n (connections state) @ [conn]"
        using assms(2,3) by (simp add: pool_ok_def take_Suc_conv_app_nth)
      show ?thesis
      proof (cases "(config_reports state \<longrightarrow> metadata_ok env) \<and> thread_ok env")
        case False
        then show ?thesis
          using assms(4) True neg okay reset blank [of blank_conn]
          by (auto simp: connect_endpoint_def Let_def pool_ok_def split: if_splits)
      next
        case fine: True
        then have "result = 0" and s': "state' = state\<lparr>connections := (connections state)[?n := conn], arenas := maps,
              endpoints := (endpoints state)[?n := endpoint]\<rparr>"
          using assms(4) True neg okay by (auto simp: connect_endpoint_def Let_def split: if_splits)
        moreover have "pool_ok (state'\<lparr>conn_count := ?n + 1\<rparr>)"
          using assms(2,3) maps taken unfolding s'
          by (auto simp: pool_ok_def nth_list_update less_Suc_eq)
        ultimately show ?thesis by simp
      qed
    qed
  next
    case False
    then show ?thesis
      using assms(4) blank by (auto simp: connect_endpoint_def Let_def split: if_splits)
  qed
  then show "conn_count state' = conn_count state"
    and "if result = 0 then pool_ok (state'\<lparr>conn_count := conn_count state' + 1\<rparr>) else pool_ok state'" by blast+
qed


lemma open_endpoints_effect:
  assumes "exclusive_grant grant"
    and "open_endpoints grant fuel envs i eps state = Some state'" "pool_ok state"
  shows "pool_ok state'"
  using assms(2,3)
proof (induction eps arbitrary: i state)
  case (Cons e eps)
  show ?case
  proof (cases "conn_count state = kTransportCapacity")
    case True
    with Cons.prems show ?thesis by simp
  next
    case False
    then obtain r s1 where c: "connect_endpoint grant fuel (envs i) state e (conn_count state) = Some (r, s1)"
      using Cons.prems(1) by (auto split: option.splits)
    have "conn_count state < kTransportCapacity" using False Cons.prems(2) by (simp add: pool_ok_def)
    note ce = connect_endpoint_effect [OF assms(1) Cons.prems(2) this c]
    define s2 where "s2 = (if r = 0 then s1\<lparr>conn_count := conn_count s1 + 1\<rparr> else s1)"
    have "pool_ok s2" using ce(2) unfolding s2_def by (cases "r = 0") simp_all
    moreover have "open_endpoints grant fuel envs (Suc i) eps s2 = Some state'"
      using Cons.prems(1) False c unfolding s2_def by simp
    ultimately show ?thesis using Cons.IH by blast
  qed
qed simp

lemma initial_pool_ok: "pool_ok initial_transport"
  by (simp add: pool_ok_def initial_transport_def ranges_ok_def kTransportCapacity_def)

text \<open>Resetting the connections in order gives the arenas back from the front.\<close>

lemma reset_indices:
  assumes "k \<le> length (connections state)" "i \<le> k"
    and "arenas state = concat (map held (drop i (take k (connections state))))" "ranges_ok (arenas state)"
  shows "arenas (fold reset_index [i..<k] state) = []"
    and "length (connections (fold reset_index [i..<k] state)) = length (connections state)"
    and "bulk (fold reset_index [i..<k] state) = bulk state"
    and "bulk_dialed (fold reset_index [i..<k] state) = bulk_dialed state"
proof -
  have "arenas (fold reset_index [i..<k] state) = [] \<and>
      length (connections (fold reset_index [i..<k] state)) = length (connections state) \<and>
      bulk (fold reset_index [i..<k] state) = bulk state \<and>
      bulk_dialed (fold reset_index [i..<k] state) = bulk_dialed state"
    using assms
  proof (induction "k - i" arbitrary: i state)
    case 0
    then show ?case by simp
  next
    case (Suc n)
    then have lt: "i < k" by simp
    let ?rest = "concat (map held (drop (Suc i) (take k (connections state))))"
    have "drop i (take k (connections state)) = connections state ! i # drop (Suc i) (take k (connections state))"
      using lt Suc.prems(1) by (simp add: Cons_nth_drop_Suc [symmetric])
    then have a: "arenas state = held (connections state ! i) @ ?rest" using Suc.prems(3) by simp
    then have "snd (va_release (connections state ! i, arenas state)) = ?rest"
      using release_held [of "[]" "connections state ! i" ?rest] ranges_ok_distinct [OF Suc.prems(4)] by simp
    then have s1: "reset_index i state = state\<lparr>connections := (connections state)[i := blank_conn],
        endpoints := (endpoints state)[i := no_endpoint], arenas := ?rest\<rparr>"
      by (simp add: reset_index_def reset_connection_def)
    have "[i..<k] = i # [Suc i..<k]" using lt by (simp add: upt_conv_Cons)
    moreover have "ranges_ok ?rest" using Suc.prems(4) a ranges_ok_appendD by metis
    moreover have "drop (Suc i) (take k ((connections state)[i := blank_conn])) = drop (Suc i) (take k (connections state))"
      using lt by (simp add: take_update_swap drop_update_cancel)
    ultimately show ?case
      using Suc.hyps(1) [of "Suc i" "reset_index i state"] Suc.hyps(2) Suc.prems(1) lt s1 by simp
  qed
  then show "arenas (fold reset_index [i..<k] state) = []"
    and "length (connections (fold reset_index [i..<k] state)) = length (connections state)"
    and "bulk (fold reset_index [i..<k] state) = bulk state"
    and "bulk_dialed (fold reset_index [i..<k] state) = bulk_dialed state" by blast+
qed

lemma held_close [simp]: "held (close_connection conn) = held conn"
  by (simp add: held_def close_connection_def)

lemma transport_close_effect:
  assumes "pool_ok state" "\<not> shutting_down state"
  shows "pool_ok (transport_close state)" "arenas (transport_close state) = []"
    "conn_count (transport_close state) = 0" "bulk (transport_close state) = bulk state"
    "bulk_dialed (transport_close state) = bulk_dialed state"
proof -
  let ?n = "conn_count state"
  define s1 where "s1 = state\<lparr>shutting_down := True,
      connections := map close_connection (take ?n (connections state)) @ drop ?n (connections state)\<rparr>"
  have len: "?n \<le> length (connections state)" using assms(1) by (simp add: pool_ok_def)
  have "take ?n (connections s1) = map close_connection (take ?n (connections state))"
    using len by (simp add: s1_def)
  then have m: "map held (take ?n (connections s1)) = map held (take ?n (connections state))" by simp
  have a: "arenas s1 = arenas state" by (simp add: s1_def)
  have "arenas s1 = concat (map held (drop 0 (take ?n (connections s1))))" "ranges_ok (arenas s1)"
    using assms(1) unfolding pool_ok_def a drop_0 m by blast+
  from reset_indices [OF _ _ this] len
  have r: "arenas (fold reset_index [0..<?n] s1) = []"
      "length (connections (fold reset_index [0..<?n] s1)) = length (connections s1)"
      "bulk (fold reset_index [0..<?n] s1) = bulk s1"
      "bulk_dialed (fold reset_index [0..<?n] s1) = bulk_dialed s1"
    by (simp_all add: s1_def)
  have c: "transport_close state = (fold reset_index [0..<?n] s1)\<lparr>conn_count := 0, shutting_down := False\<rparr>"
    using assms(2) by (simp add: transport_close_def s1_def Let_def)
  show "pool_ok (transport_close state)"
    using assms(1) len r(1,2,4) unfolding c pool_ok_def by (simp add: s1_def ranges_ok_def)
  show "arenas (transport_close state) = []" "conn_count (transport_close state) = 0"
    "bulk (transport_close state) = bulk state" "bulk_dialed (transport_close state) = bulk_dialed state"
    using r unfolding c by (simp_all add: s1_def)
qed


section \<open>The life of a pool\<close>

inductive pool_step :: "mmap_grant \<Rightarrow> client_transport \<Rightarrow> client_transport \<Rightarrow> bool" for grant where
  pool_open: "transport_open grant fuel envs config servers state = Some (r, state') \<Longrightarrow> pool_step grant state state'"
| pool_close: "\<not> shutting_down state \<Longrightarrow> pool_step grant state (transport_close state)"
| pool_bulk: "pool_step grant state (snd (transport_bulk_lanes token configured dials conn state))"

abbreviation pool_init :: "client_transport \<Rightarrow> bool" where
  "pool_init state \<equiv> state = initial_transport"

lemma dial_bulk_lanes_fields [simp]:
  "conn_count (dial_bulk_lanes token configured dials i state) = conn_count state"
  "connections (dial_bulk_lanes token configured dials i state) = connections state"
  "arenas (dial_bulk_lanes token configured dials i state) = arenas state"
  "bulk_dialed (dial_bulk_lanes token configured dials i state) = bulk_dialed state"
  "shutting_down (dial_bulk_lanes token configured dials i state) = shutting_down state"
  by (simp_all add: dial_bulk_lanes_def Let_def)

lemma transport_bulk_pool_ok:
  "pool_ok state \<Longrightarrow> pool_ok (snd (transport_bulk_lanes token configured dials conn state))"
  by (auto simp: transport_bulk_lanes_def Let_def pool_ok_def)

lemma transport_open_pool_ok:
  assumes "exclusive_grant grant" "transport_open grant fuel envs config servers state = Some (r, state')" "pool_ok state"
  shows "pool_ok state'"
proof (cases "conn_count state \<noteq> 0 \<or> servers = None")
  case True
  with assms(2,3) show ?thesis by (auto simp: transport_open_def split: if_splits)
next
  case False
  define s0 where "s0 = state\<lparr>config_w_offset := cfg_w_offset config, config_strict := cfg_strict config,
                      config_reports := cfg_reports config\<rparr>"
  have s0: "pool_ok s0" using assms(3) by (auto simp: pool_ok_def s0_def)
  obtain parsed eps where p: "parse_endpoints (the servers) (cfg_strict config) = (parsed, eps)" by fastforce
  show ?thesis
  proof (cases "parsed < 0")
    case True
    with False p assms(2,3) show ?thesis by (auto simp: transport_open_def)
  next
    case parsed: False
    then obtain s1 where "open_endpoints grant fuel envs 0 eps s0 = Some s1" "state' = s1"
      using False p assms(2) by (auto simp: transport_open_def s0_def split: option.splits)
    then show ?thesis using open_endpoints_effect [OF assms(1) _ s0] by blast
  qed
qed

lemma pool_step_ok:
  assumes "exclusive_grant grant" "pool_step grant state state'" "pool_ok state"
  shows "pool_ok state'"
  using assms(2)
  by cases (use assms(1,3) in \<open>auto intro: transport_open_pool_ok transport_close_effect(1) transport_bulk_pool_ok\<close>)

lemma pool_reachable_ok:
  assumes "exclusive_grant grant" "reachable pool_init (pool_step grant) state"
  shows "pool_ok state"
  using assms(2)
proof induction
  case (reach_init s)
  then show ?case by (simp add: initial_pool_ok)
next
  case (reach_step s s')
  with assms(1) show ?case by (blast intro: pool_step_ok)
qed

text \<open>Opening leaves the bulk lanes alone.\<close>

lemma connect_endpoint_bulk:
  "connect_endpoint grant fuel env state endpoint index = Some (result, state') \<Longrightarrow>
   bulk state' = bulk state \<and> bulk_dialed state' = bulk_dialed state \<and> shutting_down state' = shutting_down state"
  by (auto simp: connect_endpoint_def Let_def split: if_splits option.splits)

lemma open_endpoints_bulk:
  "open_endpoints grant fuel envs i eps state = Some state' \<Longrightarrow>
   bulk state' = bulk state \<and> bulk_dialed state' = bulk_dialed state \<and> shutting_down state' = shutting_down state"
proof (induction eps arbitrary: i state)
  case (Cons e eps)
  show ?case
  proof (cases "conn_count state = kTransportCapacity")
    case False
    then obtain r s1 where c: "connect_endpoint grant fuel (envs i) state e (conn_count state) = Some (r, s1)"
      using Cons.prems by (auto split: option.splits)
    define s2 where "s2 = (if r = 0 then s1\<lparr>conn_count := conn_count s1 + 1\<rparr> else s1)"
    have "open_endpoints grant fuel envs (Suc i) eps s2 = Some state'"
      using Cons.prems False c unfolding s2_def by simp
    from Cons.IH [OF this] connect_endpoint_bulk [OF c] show ?thesis by (simp add: s2_def)
  qed (use Cons.prems in simp)
qed simp

lemma transport_open_bulk:
  "transport_open grant fuel envs config servers state = Some (r, state') \<Longrightarrow>
   bulk state' = bulk state \<and> bulk_dialed state' = bulk_dialed state \<and> shutting_down state' = shutting_down state"
  by (auto simp: transport_open_def split: if_splits option.splits prod.splits dest!: open_endpoints_bulk)

section \<open>Properties\<close>

text \<open>
  C34: a list of endpoints written out with scheme, host and port parses back to the
  same endpoints in the same order, in the strict and in the lenient mode.
\<close>

theorem endpoints_roundtrip:
  assumes "eps \<noteq> []" and "list_all endpoint_ok eps"
  shows "parse_endpoints (join_commas (map render_endpoint eps)) strict = (0, eps)"
proof -
  have "CHR '','' \<notin> set (render_endpoint e)" if "e \<in> set eps" for e
    using assms(2) that by (auto simp: list_all_iff endpoint_ok_def render_endpoint_def)
  then have "split_commas (join_commas (map render_endpoint eps)) = map render_endpoint eps"
    using assms(1) by (intro split_join_commas) auto
  moreover have "List.map_filter (parse_endpoint strict) (map render_endpoint es) = es" if "list_all endpoint_ok es" for es
    using that by (induction es) (auto simp: List.map_filter_simps parse_render_endpoint)
  ultimately have "endpoint_loop strict (join_commas (map render_endpoint eps)) 0 = eps"
    using assms(2) by (simp add: endpoint_loop_split)
  with assms(1) show ?thesis by (simp add: parse_endpoints_def)
qed

theorem endpoints_roundtrip_witness:
  "parse_endpoints ''http://a:14833,https://b:8443'' True =
     (0, [\<lparr>ep_host = ''a'', ep_port = ''14833'', ep_label = ''a'', ep_tls = False\<rparr>,
          \<lparr>ep_host = ''b'', ep_port = ''8443'', ep_label = ''b:8443'', ep_tls = True\<rparr>])"
proof -
  let ?eps = "[\<lparr>ep_host = ''a'', ep_port = ''14833'', ep_label = ''a'', ep_tls = False\<rparr>,
          \<lparr>ep_host = ''b'', ep_port = ''8443'', ep_label = ''b:8443'', ep_tls = True\<rparr>]"
  have "list_all endpoint_ok ?eps" by (simp add: endpoint_ok_def kDefaultPort_def)
  then have "parse_endpoints (join_commas (map render_endpoint ?eps)) True = (0, ?eps)"
    by (intro endpoints_roundtrip) simp
  then show ?thesis by (simp add: render_endpoint_def)
qed

text \<open>
  C22: if the windows a server states are all the same, the negotiation of an arena
  ends after at most sixteen handshakes: eight slots of this host's window and eight
  of the stated one.
\<close>

theorem negotiation_terminates:
  assumes "\<And>k r w. snd (answer env k r) = Some w \<Longrightarrow> w = stated" and "16 \<le> fuel"
  shows "\<exists>ok conn' maps'. negotiate grant tls env fuel 0 va_local_window 0 (conn, maps) = Some (ok, conn', maps')"
proof -
  have "candidates_left stated va_local_window 0 \<le> fuel" using assms(2) by (simp add: candidates_left_def)
  then have "negotiate grant tls env fuel 0 va_local_window 0 (conn, maps) \<noteq> None"
    using assms(1) by (intro negotiate_returns [where stated = stated]) simp_all
  then show ?thesis by auto
qed

theorem negotiation_terminates_witness:
  "\<exists>ok conn' maps'. negotiate (\<lambda>_ _ _. True) False
     \<lparr>tcp_ok = True, init_ok = True, tls_ok = True, answer = (\<lambda>_ _. (-3, Some \<lparr>window_base = 0x100000, window_size = 800\<rparr>)),
      metadata_ok = True, thread_ok = True\<rparr> 16 0 va_local_window 0 (blank_conn\<lparr>w_offset := 1\<rparr>, []) = Some (ok, conn', maps')"
  by (rule negotiation_terminates [where stated = "\<lparr>window_base = 0x100000, window_size = 800\<rparr>"]) simp_all



text \<open>
  C8: however connections are opened and closed, the address ranges the pool has
  mapped are exactly the two views of each live connection's arena, and no two of
  these ranges overlap; after a close none is left.
\<close>

theorem pool_arenas_disjoint:
  assumes "exclusive_grant grant" and "reachable pool_init (pool_step grant) state"
  shows "arenas state = concat (map held (take (conn_count state) (connections state))) \<and>
         sorted_wrt separate (arenas state) \<and>
         (\<not> shutting_down state \<longrightarrow> arenas (transport_close state) = [])"
  using pool_reachable_ok [OF assms] transport_close_effect(2) [of state]
  by (auto simp: pool_ok_def ranges_ok_def)


text \<open>A connection with the first slot of this host's window; the kernel grants just its two views.\<close>

definition demo_grant :: mmap_grant where
  "demo_grant maps base sz = (sz = 0x10000000000 \<and>
     (maps = [] \<and> base = 0x700000000000 \<or>
      maps = [(0x700000000000, 0x10000000000)] \<and> base = 0x500000000000))"

definition demo_pool :: client_transport where
  "demo_pool = initial_transport\<lparr>conn_count := 1,
     connections := blank_conn\<lparr>connected := True\<rparr> # replicate 15 blank_conn,
     endpoints := \<lparr>ep_host = ''old'', ep_port = ''1'', ep_label = ''old:1'', ep_tls = False\<rparr> # replicate 15 no_endpoint\<rparr>"

definition demo_env :: dial_env where
  "demo_env = \<lparr>tcp_ok = True, init_ok = True, tls_ok = True, answer = (\<lambda>_ _. (0, None)),
     metadata_ok = True, thread_ok = True\<rparr>"

theorem pool_arenas_disjoint_witness:
  "\<exists>state. transport_open demo_grant 1 (\<lambda>_. demo_env) \<lparr>cfg_w_offset = 1, cfg_strict = True, cfg_reports = True\<rparr>
      (Some ''a'') initial_transport = Some (0, state) \<and> sorted_wrt separate (arenas state)"
proof -
  let ?o = "transport_open demo_grant 1 (\<lambda>_. demo_env) \<lparr>cfg_w_offset = 1, cfg_strict = True, cfg_reports = True\<rparr>
      (Some ''a'') initial_transport"
  have parsed: "parse_endpoints ''a'' True = (0, [\<lparr>ep_host = ''a'', ep_port = kDefaultPort, ep_label = ''a'', ep_tls = False\<rparr>])"
    by code_simp
  have "\<exists>state. ?o = Some (0, state)"
    by (simp add: transport_open_def parsed connect_endpoint_def negotiate_round_def negotiate_answer_def demo_env_def
        initial_transport_def blank_conn_def va_reserve_client_def va_local_window_def LUPINE_VA_ARENA_SIZE_def
        LUPINE_VA_ARENA_COUNT_def LUPINE_VA_FIRST_BASE_def LUPINE_HOST_ALLOCATION_SERVER_BASE_def
        LUPINE_VA_WRITE_BASE_def LUPINE_RPC_HTTP2_VA_CONFLICT_def va_reserve_exact_def demo_grant_def upt_rec
        kTransportCapacity_def)
  then obtain state where o: "?o = Some (0, state)" by blast
  have "exclusive_grant demo_grant" by (auto simp: exclusive_grant_def demo_grant_def separate_def)
  moreover have "reachable pool_init (pool_step demo_grant) state"
    by (rule reach_step [where s = initial_transport], rule reach_init, simp, rule pool_open, rule o)
  ultimately have "sorted_wrt separate (arenas state)" using pool_arenas_disjoint by blast
  with o show ?thesis by blast
qed

text \<open>
  C24: closing the pool keeps the bulk lanes of its connections. When the pool is
  opened again, the connection that takes the same place gets the lanes dialled for
  the earlier session, whatever server it now leads to.
\<close>

theorem bulk_lanes_survive_close:
  assumes "pool_ok state" and "\<not> shutting_down state"
    and "transport_bulk_lanes token configured dials conn state = (Some lanes, state1)"
    and "transport_open grant fuel envs config servers (transport_close state1) = Some (r, state2)"
    and "logical_index conn' = logical_index conn" and "logical_index conn < int (conn_count state2)"
  shows "fst (transport_bulk_lanes token' configured' dials' conn' state2) = Some lanes"
proof -
  let ?i = "nat (logical_index conn)"
  have idx: "0 \<le> logical_index conn" "logical_index conn < int (conn_count state)"
    using assms(3) by (auto simp: transport_bulk_lanes_def split: if_splits)
  then have "?i < length (bulk_dialed state)" using assms(1) by (auto simp: pool_ok_def)
  then have s1: "bulk_dialed state1 ! ?i" "bulk state1 ! ?i = lanes" "lane_count lanes \<noteq> 0" "\<not> lane_failed lanes"
      "\<not> shutting_down state1"
    using assms(2,3) idx by (auto simp: transport_bulk_lanes_def Let_def split: if_splits)
  have "pool_ok state1" using transport_bulk_pool_ok [OF assms(1)] assms(3) by (metis snd_conv)
  note closed = transport_close_effect [OF this s1(5)]
  note opened = transport_open_bulk [OF assms(4)]
  have "bulk_dialed state2 ! ?i" "bulk state2 ! ?i = lanes"
    using s1(1,2) closed(4,5) opened by simp_all
  with s1(3,4) assms(5,6) idx(1) show ?thesis
    by (simp add: transport_bulk_lanes_def Let_def)
qed


theorem bulk_lanes_survive_close_witness:
  "\<exists>lanes state1 state2.
     transport_bulk_lanes (Some ''token'') (Some 1) (\<lambda>_. Some 5) blank_conn demo_pool = (Some lanes, state1) \<and>
     transport_open demo_grant 1 (\<lambda>_. demo_env) \<lparr>cfg_w_offset = 0, cfg_strict = True, cfg_reports = False\<rparr>
       (Some ''new'') (transport_close state1) = Some (0, state2) \<and>
     fst (transport_bulk_lanes None None (\<lambda>_. None) blank_conn state2) = Some lanes"
proof -
  have ok: "pool_ok demo_pool" "\<not> shutting_down demo_pool"
    by (simp_all add: pool_ok_def demo_pool_def initial_transport_def blank_conn_def kTransportCapacity_def
        held_def ranges_ok_def)
  have parsed: "parse_endpoints ''new'' True =
      (0, [\<lparr>ep_host = ''new'', ep_port = kDefaultPort, ep_label = ''new'', ep_tls = False\<rparr>])"
    by code_simp
  have "fst (transport_bulk_lanes (Some ''token'') (Some 1) (\<lambda>_. Some 5) blank_conn demo_pool) \<noteq> None"
    by (simp add: transport_bulk_lanes_def dial_bulk_lanes_def bulk_wanted_def compact_lane_def demo_pool_def
        initial_transport_def blank_conn_def kTransportCapacity_def LUPINE_BULK_CONNECTIONS_MAX_def upt_rec Let_def)
  then obtain lanes state1 where
    l: "transport_bulk_lanes (Some ''token'') (Some 1) (\<lambda>_. Some 5) blank_conn demo_pool = (Some lanes, state1)"
    by (metis option.exhaust prod.collapse)
  have "pool_ok state1" "\<not> shutting_down state1"
    using transport_bulk_pool_ok [OF ok(1)] l ok(2)
    by (metis snd_conv) (use l ok(2) in \<open>auto simp: transport_bulk_lanes_def Let_def split: if_splits\<close>)
  then have "conn_count (transport_close state1) = 0" by (rule transport_close_effect(3))
  then have "\<exists>state2. transport_open demo_grant 1 (\<lambda>_. demo_env) \<lparr>cfg_w_offset = 0, cfg_strict = True, cfg_reports = False\<rparr>
       (Some ''new'') (transport_close state1) = Some (0, state2) \<and> conn_count state2 = 1"
    by (simp add: transport_open_def parsed connect_endpoint_def negotiate_round_def negotiate_answer_def demo_env_def
        blank_conn_def LUPINE_RPC_HTTP2_VA_CONFLICT_def kTransportCapacity_def)
  then obtain state2 where
    o: "transport_open demo_grant 1 (\<lambda>_. demo_env) \<lparr>cfg_w_offset = 0, cfg_strict = True, cfg_reports = False\<rparr>
       (Some ''new'') (transport_close state1) = Some (0, state2)" "conn_count state2 = 1" by blast
  have "fst (transport_bulk_lanes None None (\<lambda>_. None) blank_conn state2) = Some lanes"
    by (rule bulk_lanes_survive_close [OF ok l o(1)]) (simp_all add: blank_conn_def o(2))
  with l o(1) show ?thesis by blast
qed




end
