(* ===== verification/Routing.thy ===== *)
theory Routing
  imports Alloc_Cache Visible_Devices Events Transport
begin

text \<open>
  The client's routing tables (\<^verbatim>\<open>routing.cpp\<close>, \<^verbatim>\<open>client_routing.h\<close>): the table of virtual
  devices over all servers, the owners of every driver handle, the device pointer
  allocations, and the choice of a route for a call. A connection pointer is the
  connection it points to, or \<^term>\<open>None\<close> for null. The answers of the servers and of the
  local driver are parameters.
\<close>

section \<open>Routes\<close>

datatype route_kind = Route_Remote | Route_Local | Route_Invalid | Route_Unknown_Device

record route =
  kind :: route_kind
  route_conn :: "transport_conn option"

definition invalid_route :: route where
  "invalid_route = \<lparr>kind = Route_Invalid, route_conn = None\<rparr>"

definition conn_index :: "client_transport \<Rightarrow> transport_conn option \<Rightarrow> int" where
  "conn_index pool conn = (case conn of None \<Rightarrow> -1
     | Some c \<Rightarrow> if 0 \<le> logical_index c \<and> logical_index c < int (conn_count pool) then logical_index c else -1)"

definition route_is_local :: "route \<Rightarrow> bool" where
  "route_is_local route = (kind route = Route_Local)"

definition route_remote_conn :: "route \<Rightarrow> transport_conn option" where
  "route_remote_conn route = (if kind route = Route_Remote then route_conn route else None)"

definition remote_route_for_conn :: "transport_conn option \<Rightarrow> route" where
  "remote_route_for_conn conn =
     (if conn = None then invalid_route else \<lparr>kind = Route_Remote, route_conn = conn\<rparr>)"

definition local_route :: route where
  "local_route = \<lparr>kind = Route_Local, route_conn = None\<rparr>"

definition route_identity :: "client_transport \<Rightarrow> route \<Rightarrow> int" where
  "route_identity pool route =
     (if kind route = Route_Local then -1
      else if kind route = Route_Remote
           then let index = conn_index pool (route_conn route) in if index \<ge> 0 then index else -2
      else -2)"

definition routes_share_server :: "client_transport \<Rightarrow> route \<Rightarrow> route \<Rightarrow> bool" where
  "routes_share_server pool first second = (route_identity pool first = route_identity pool second)"

definition route_from_identity :: "client_transport \<Rightarrow> int \<Rightarrow> route" where
  "route_from_identity pool route_id =
     (if route_id = -1 then local_route
      else if route_id \<ge> 0 then remote_route_for_conn (transport_connection (nat route_id) pool)
      else invalid_route)"

section \<open>The device table\<close>

record device_entry =
  entry_local :: bool
  entry_local_device :: int
  entry_conn_index :: nat
  entry_remote_device :: int

text \<open>What the local driver and the servers answer; each answer is a result code with a value.\<close>

record device_env =
  local_available :: bool
  local_count :: "int \<times> int"
  local_get :: "int \<Rightarrow> int \<times> int"
  local_uuid :: "int \<Rightarrow> int \<times> u8 list"
  open_result :: int
  remote_count :: "nat \<Rightarrow> int \<times> int"
  remote_get :: "nat \<Rightarrow> int \<Rightarrow> int \<times> int"
  remote_uuid :: "nat \<Rightarrow> int \<Rightarrow> int \<times> u8 list"
  visible_spec :: "string option"

definition hex_digit :: "nat \<Rightarrow> char" where
  "hex_digit d = ''0123456789abcdef'' ! d"

definition uuid_hex :: "u8 list \<Rightarrow> string" where
  "uuid_hex bytes = concat (map (\<lambda>byte. [hex_digit (unat (drop_bit 4 byte AND 0xf)), hex_digit (unat (byte AND 0xf))])
     (take 16 bytes))"

definition device_uuid :: "device_env \<Rightarrow> device_entry list \<Rightarrow> int \<Rightarrow> string" where
  "device_uuid env devices index =
     (let entry = devices ! nat index;
          (result, uuid) = (if entry_local entry then local_uuid env (entry_local_device entry)
                            else remote_uuid env (entry_conn_index entry) (entry_remote_device entry))
      in if result = CUDA_SUCCESS then uuid_hex uuid else [])"

definition apply_visible_devices :: "device_env \<Rightarrow> device_entry list \<Rightarrow> device_entry list" where
  "apply_visible_devices env devices =
     (if visible_spec env = None then devices
      else map (\<lambda>index. devices ! nat index)
             (select_visible_devices (visible_spec env) (int (length devices)) (device_uuid env devices)))"

definition local_entries :: "device_env \<Rightarrow> device_entry list" where
  "local_entries env =
     (if \<not> local_available env \<or> fst (local_count env) \<noteq> CUDA_SUCCESS then []
      else concat (map (\<lambda>ordinal. if fst (local_get env ordinal) = CUDA_SUCCESS
             then [\<lparr>entry_local = True, entry_local_device = snd (local_get env ordinal),
                    entry_conn_index = 0, entry_remote_device = 0\<rparr>]
             else []) (map int [0..<nat (snd (local_count env))])))"

text \<open>The devices of one server, or the first error.\<close>

fun server_entries :: "device_env \<Rightarrow> nat \<Rightarrow> int list \<Rightarrow> int + device_entry list" where
  "server_entries env i [] = Inr []"
| "server_entries env i (ordinal # rest) =
     (let (result, device) = remote_get env i ordinal in
      if result \<noteq> CUDA_SUCCESS then Inl result
      else case server_entries env i rest of
        Inl e \<Rightarrow> Inl e
      | Inr entries \<Rightarrow> Inr (\<lparr>entry_local = False, entry_local_device = -1,
                             entry_conn_index = i, entry_remote_device = device\<rparr> # entries))"

fun remote_entries :: "device_env \<Rightarrow> nat list \<Rightarrow> int + device_entry list" where
  "remote_entries env [] = Inr []"
| "remote_entries env (i # rest) =
     (let (result, n) = remote_count env i in
      if result \<noteq> CUDA_SUCCESS then Inl result
      else case server_entries env i (map int [0..<nat n]) of
        Inl e \<Rightarrow> Inl e
      | Inr entries \<Rightarrow> (case remote_entries env rest of Inl e \<Rightarrow> Inl e | Inr others \<Rightarrow> Inr (entries @ others)))"

datatype handle_kind =
    K_Context | K_Module | K_Library | K_Function | K_Stream | K_Event | K_Memory_Pool
  | K_Graph | K_Graph_Node | K_Graph_Exec | K_Deviceptr

record owner_record =
  owner_route :: int
  is_green_context :: bool
  pointer_context :: handle

definition no_owner :: owner_record where
  "no_owner = \<lparr>owner_route = -2, is_green_context = False, pointer_context = null_handle\<rparr>"

record routing =
  device_table :: "device_entry list"
  device_table_ready :: bool
  owners :: "handle_kind \<Rightarrow> handle \<rightharpoonup> owner_record"
  pointer_cache :: deviceptr_allocation_cache
  thread_contexts :: context_caches
  event_cache :: event_table
  allocating_again :: bool
  current_hint :: handle
  default_hint :: handle
  global_hint :: handle

definition initial_routing :: routing where
  "initial_routing = \<lparr>device_table = [], device_table_ready = False, owners = (\<lambda>_ _. None),
     pointer_cache = empty_allocation_cache, thread_contexts = initial_context_caches,
     event_cache = initial_event_table, allocating_again = False,
     current_hint = null_handle, default_hint = null_handle, global_hint = null_handle\<rparr>"

definition ensure_device_table :: "device_env \<Rightarrow> client_transport \<Rightarrow> routing \<Rightarrow> int \<times> routing" where
  "ensure_device_table env pool s =
     (if device_table_ready s then (CUDA_SUCCESS, s)
      else let locals = local_entries env in
        case (if open_result env = 0 then remote_entries env [0..<conn_count pool] else Inr []) of
          Inl e \<Rightarrow> (e, s\<lparr>device_table := []\<rparr>)
        | Inr remotes \<Rightarrow>
            if locals @ remotes = [] then (CUDA_ERROR_DEVICE_UNAVAILABLE, s\<lparr>device_table := []\<rparr>)
            else (CUDA_SUCCESS, s\<lparr>device_table := apply_visible_devices env (locals @ remotes),
                                  device_table_ready := True\<rparr>))"

definition supports_concurrent_managed_access :: "device_env \<Rightarrow> client_transport \<Rightarrow> transport_conn option \<Rightarrow> routing \<Rightarrow> bool \<times> routing" where
  "supports_concurrent_managed_access env pool conn s =
     (case conn of None \<Rightarrow> (False, s)
      | Some c \<Rightarrow>
          if va_size c = 0 then (False, s)
          else let (result, s) = ensure_device_table env pool s in
            if result \<noteq> CUDA_SUCCESS then (False, s)
            else let index = conn_index pool conn in
              if index < 0 then (False, s)
              else (device_table s \<noteq> [] \<and>
                    list_all (\<lambda>d. \<not> entry_local d \<and> entry_conn_index d = nat index) (device_table s), s))"

definition virtual_device_count :: "device_env \<Rightarrow> client_transport \<Rightarrow> routing \<Rightarrow> int \<times> int option \<times> routing" where
  "virtual_device_count env pool s =
     (let (result, s) = ensure_device_table env pool s in
      if result \<noteq> CUDA_SUCCESS then (result, None, s)
      else (CUDA_SUCCESS, Some (int (length (device_table s))), s))"

definition devices_span_routes :: "device_env \<Rightarrow> client_transport \<Rightarrow> routing \<Rightarrow> bool \<times> routing" where
  "devices_span_routes env pool s =
     (let (_, s) = ensure_device_table env pool s; devices = device_table s; front = hd devices in
      (list_ex (\<lambda>e. entry_local e \<noteq> entry_local front \<or>
                    (\<not> entry_local e \<and> entry_conn_index e \<noteq> entry_conn_index front)) devices, s))"

definition virtual_device_for_ordinal :: "device_env \<Rightarrow> client_transport \<Rightarrow> int \<Rightarrow> routing \<Rightarrow> int \<times> int option \<times> routing" where
  "virtual_device_for_ordinal env pool ordinal s =
     (let (result, s) = ensure_device_table env pool s in
      if result \<noteq> CUDA_SUCCESS then (result, None, s)
      else if ordinal < 0 \<or> int (length (device_table s)) \<le> ordinal then (CUDA_ERROR_INVALID_DEVICE, None, s)
      else (CUDA_SUCCESS, Some ordinal, s))"

text \<open>The loop over the table: the first entry that is the device of the route.\<close>

definition entry_matches :: "route \<Rightarrow> int \<Rightarrow> int \<Rightarrow> device_entry \<Rightarrow> bool" where
  "entry_matches route index route_device candidate =
     (if kind route = Route_Local
      then entry_local candidate \<and> entry_local_device candidate = route_device
      else \<not> entry_local candidate \<and> int (entry_conn_index candidate) = index \<and>
           entry_remote_device candidate = route_device)"

definition virtual_device_for_route :: "device_env \<Rightarrow> client_transport \<Rightarrow> route \<Rightarrow> int \<Rightarrow> routing \<Rightarrow> int \<times> routing" where
  "virtual_device_for_route env pool route route_device s =
     (let (result, s) = ensure_device_table env pool s in
      if result \<noteq> CUDA_SUCCESS then (-1, s)
      else let index = (if kind route = Route_Remote then conn_index pool (route_conn route) else -1) in
        if kind route = Route_Remote \<and> index < 0 then (-1, s)
        else if kind route \<noteq> Route_Remote \<and> kind route \<noteq> Route_Local then (-1, s)
        else (case find_index (entry_matches route index route_device) (device_table s) of
                None \<Rightarrow> -1 | Some i \<Rightarrow> int i, s))"


fun lookup_routes :: "device_env \<Rightarrow> client_transport \<Rightarrow> (route \<Rightarrow> int \<times> int) \<Rightarrow> route list \<Rightarrow> int \<Rightarrow> routing
    \<Rightarrow> int \<times> int option \<times> routing" where
  "lookup_routes env pool lookup [] first_error s = (first_error, None, s)"
| "lookup_routes env pool lookup (route # rest) first_error s =
     (let (result, route_device) = lookup route in
      if result \<noteq> CUDA_SUCCESS
      then lookup_routes env pool lookup rest
             (if first_error = CUDA_ERROR_INVALID_DEVICE \<and> result \<noteq> CUDA_ERROR_INVALID_DEVICE
              then result else first_error) s
      else let (virtual_device, s) = virtual_device_for_route env pool route route_device s in
        if virtual_device < 0 then lookup_routes env pool lookup rest first_error s
        else (CUDA_SUCCESS, Some virtual_device, s))"

definition lookup_device_on_all_routes :: "device_env \<Rightarrow> client_transport \<Rightarrow> (route \<Rightarrow> int \<times> int) \<Rightarrow> routing
    \<Rightarrow> int \<times> int option \<times> routing" where
  "lookup_device_on_all_routes env pool lookup s =
     (let (result, s) = ensure_device_table env pool s in
      if result \<noteq> CUDA_SUCCESS then (result, None, s)
      else let routes = (if list_ex entry_local (device_table s) then [local_route] else []) @
                 map (\<lambda>i. remote_route_for_conn (transport_connection i pool)) [0..<conn_count pool]
           in lookup_routes env pool lookup routes CUDA_ERROR_INVALID_DEVICE s)"

definition route_for_device :: "device_env \<Rightarrow> client_transport \<Rightarrow> int \<Rightarrow> routing \<Rightarrow> route \<times> int \<times> routing" where
  "route_for_device env pool device s =
     (let (result, s) = ensure_device_table env pool s in
      if result \<noteq> CUDA_SUCCESS then (invalid_route, device, s)
      else if device < 0 \<or> int (length (device_table s)) \<le> device
           then (\<lparr>kind = Route_Unknown_Device, route_conn = None\<rparr>, device, s)
      else let mapped = device_table s ! nat device in
        if entry_local mapped then (local_route, entry_local_device mapped, s)
        else (remote_route_for_conn (transport_connection (entry_conn_index mapped) pool),
              entry_remote_device mapped, s))"

definition translate_device_for_conn :: "device_env \<Rightarrow> client_transport \<Rightarrow> transport_conn option \<Rightarrow> int \<Rightarrow> routing
    \<Rightarrow> int option \<times> routing" where
  "translate_device_for_conn env pool conn device s =
     (if conn = None then (None, s)
      else let (result, s) = ensure_device_table env pool s in
        if result \<noteq> CUDA_SUCCESS then (None, s)
        else let index = conn_index pool conn in
          if index < 0 then (None, s)
          else if device < 0 \<or> int (length (device_table s)) \<le> device then (None, s)
          else let mapped = device_table s ! nat device in
            if entry_local mapped \<or> int (entry_conn_index mapped) \<noteq> index then (None, s)
            else (Some (entry_remote_device mapped), s))"

definition local_device_for_remote :: "device_env \<Rightarrow> client_transport \<Rightarrow> transport_conn option \<Rightarrow> int \<Rightarrow> routing
    \<Rightarrow> int \<times> routing" where
  "local_device_for_remote env pool conn remote_device s =
     (if conn = None then (-1, s)
      else let (result, s) = ensure_device_table env pool s in
        if result \<noteq> CUDA_SUCCESS then (-1, s)
        else virtual_device_for_route env pool (remote_route_for_conn conn) remote_device s)"

text \<open>A memory location names a virtual device only when its type is the device type.\<close>

record mem_location =
  location_is_device :: bool
  location_id :: int

definition translate_mem_location :: "device_env \<Rightarrow> client_transport \<Rightarrow> route \<Rightarrow> mem_location \<Rightarrow> routing
    \<Rightarrow> int \<times> mem_location \<times> routing" where
  "translate_mem_location env pool route location s =
     (if \<not> location_is_device location then (CUDA_SUCCESS, location, s)
      else let (device_route, device, s) = route_for_device env pool (location_id location) s in
        if kind device_route = Route_Unknown_Device then (CUDA_ERROR_INVALID_DEVICE, location, s)
        else if kind device_route = Route_Invalid then (CUDA_ERROR_DEVICE_UNAVAILABLE, location, s)
        else if \<not> routes_share_server pool route device_route then (CUDA_ERROR_INVALID_VALUE, location, s)
        else (CUDA_SUCCESS, location\<lparr>location_id := device\<rparr>, s))"

definition restore_mem_location :: "device_env \<Rightarrow> client_transport \<Rightarrow> route \<Rightarrow> mem_location \<Rightarrow> routing
    \<Rightarrow> mem_location \<times> routing" where
  "restore_mem_location env pool route location s =
     (if location_is_device location
      then let (device, s) = virtual_device_for_route env pool route (location_id location) s in
        (location\<lparr>location_id := device\<rparr>, s)
      else (location, s))"

section \<open>Owners\<close>

text \<open>The entry of a handle, made on first use, with the route set; a device pointer also notes the context.\<close>

definition put_owner :: "handle_kind \<Rightarrow> handle \<Rightarrow> int \<Rightarrow> routing \<Rightarrow> routing" where
  "put_owner k handle route_id s =
     (let owner = (case owners s k handle of None \<Rightarrow> no_owner | Some r \<Rightarrow> r);
          owner = owner\<lparr>owner_route := route_id\<rparr>;
          owner = (if k = K_Deviceptr then owner\<lparr>pointer_context := current_hint s\<rparr> else owner)
      in s\<lparr>owners := (owners s)(k := (owners s k)(handle \<mapsto> owner))\<rparr>)"

definition note_owner :: "handle_kind \<Rightarrow> client_transport \<Rightarrow> handle \<Rightarrow> transport_conn option \<Rightarrow> routing \<Rightarrow> routing" where
  "note_owner k pool handle conn s = (let index = conn_index pool conn in
     if handle = null_handle \<or> index < 0 then s else put_owner k handle index s)"

definition note_owner_route :: "handle_kind \<Rightarrow> client_transport \<Rightarrow> handle \<Rightarrow> route \<Rightarrow> routing \<Rightarrow> routing" where
  "note_owner_route k pool handle route s = (let route_id = route_identity pool route in
     if handle = null_handle \<or> route_id < -1 then s else put_owner k handle route_id s)"

definition note_allocation_owner_locked :: "deviceptr \<Rightarrow> u64 \<Rightarrow> int \<Rightarrow> handle \<Rightarrow> routing \<Rightarrow> routing" where
  "note_allocation_owner_locked ptr sz route_id ctx s =
     (let owner = (case owners s K_Deviceptr ptr of None \<Rightarrow> no_owner | Some r \<Rightarrow> r);
          owner = owner\<lparr>owner_route := route_id, pointer_context := ctx\<rparr>
      in s\<lparr>owners := (owners s)(K_Deviceptr := (owners s K_Deviceptr)(ptr \<mapsto> owner)),
           pointer_cache := allocation_cache_insert ptr sz route_id ctx (pointer_cache s)\<rparr>)"

definition note_deviceptr_allocation :: "client_transport \<Rightarrow> deviceptr \<Rightarrow> u64 \<Rightarrow> transport_conn option \<Rightarrow> routing \<Rightarrow> routing" where
  "note_deviceptr_allocation pool ptr sz conn s = (let index = conn_index pool conn in
     if ptr = 0 \<or> index < 0 then s else note_allocation_owner_locked ptr sz index (current_hint s) s)"

definition note_deviceptr_allocation_route :: "client_transport \<Rightarrow> deviceptr \<Rightarrow> u64 \<Rightarrow> route \<Rightarrow> routing \<Rightarrow> routing" where
  "note_deviceptr_allocation_route pool ptr sz route s =
     (if ptr = 0 \<or> kind route = Route_Invalid then s
      else if kind route = Route_Remote then note_deviceptr_allocation pool ptr sz (route_conn route) s
      else note_allocation_owner_locked ptr sz (-1) (current_hint s) s)"

definition note_disjoint_allocation :: "client_transport \<Rightarrow> deviceptr \<Rightarrow> u64 \<Rightarrow> route \<Rightarrow> routing \<Rightarrow> bool \<times> routing" where
  "note_disjoint_allocation pool ptr sz route s = (let route_id = route_identity pool route in
     if ptr = 0 \<or> route_id < -1 then (True, s)
     else if allocation_cache_overlaps_other_route ptr sz route_id (pointer_cache s) then (False, s)
     else (True, note_allocation_owner_locked ptr sz route_id (current_hint s) s))"

text \<open>
  The loop that asks for another block while the block collides; \<^verbatim>\<open>again\<close> lists what the
  repeated allocations answer (result and pointer). \<^term>\<open>None\<close>: the loop is still
  asking when the list ends. The flag is set only while \<^verbatim>\<open>again()\<close> runs.
\<close>

fun record_disjoint_loop :: "client_transport \<Rightarrow> u64 \<Rightarrow> route \<Rightarrow> (int \<times> deviceptr) list \<Rightarrow> deviceptr \<Rightarrow> routing
    \<Rightarrow> (int \<times> deviceptr \<times> routing) option" where
  "record_disjoint_loop pool sz route again ptr s =
     (let (noted, s) = note_disjoint_allocation pool ptr sz route s in
      if noted then Some (CUDA_SUCCESS, ptr, s)
      else case again of [] \<Rightarrow> None
        | (result, ptr') # rest \<Rightarrow>
            if result \<noteq> CUDA_SUCCESS then Some (result, ptr', s)
            else record_disjoint_loop pool sz route rest ptr' s)"

declare record_disjoint_loop.simps [simp del]

definition record_disjoint_allocation :: "client_transport \<Rightarrow> u64 \<Rightarrow> route \<Rightarrow> (int \<times> deviceptr) list \<Rightarrow> deviceptr \<Rightarrow> routing
    \<Rightarrow> (int \<times> deviceptr \<times> routing) option" where
  "record_disjoint_allocation pool sz route again ptr s =
     (if allocating_again s then Some (CUDA_SUCCESS, ptr, s) else record_disjoint_loop pool sz route again ptr s)"

definition forget_owner :: "handle_kind \<Rightarrow> handle \<Rightarrow> routing \<Rightarrow> routing" where
  "forget_owner k handle s = s\<lparr>owners := (owners s)(k := (owners s k)(handle := None))\<rparr>"

definition forget_deviceptr_owner :: "deviceptr \<Rightarrow> routing \<Rightarrow> routing" where
  "forget_deviceptr_owner ptr s = (let s = forget_owner K_Deviceptr ptr s in
     s\<lparr>pointer_cache := allocation_cache_erase ptr (pointer_cache s)\<rparr>)"

definition forget_context_owner :: "handle \<Rightarrow> routing \<Rightarrow> routing" where
  "forget_context_owner ctx s = forget_owner K_Context ctx s"

definition mark_context_green :: "handle \<Rightarrow> routing \<Rightarrow> routing" where
  "mark_context_green ctx s = (if ctx = null_handle then s
     else let owner = (case owners s K_Context ctx of None \<Rightarrow> no_owner | Some r \<Rightarrow> r) in
       s\<lparr>owners := (owners s)(K_Context := (owners s K_Context)(ctx \<mapsto> owner\<lparr>is_green_context := True\<rparr>))\<rparr>)"

definition context_is_green :: "handle \<Rightarrow> routing \<Rightarrow> bool" where
  "context_is_green ctx s = (ctx \<noteq> null_handle \<and>
     (case owners s K_Context ctx of None \<Rightarrow> False | Some r \<Rightarrow> is_green_context r))"

definition forget_stream_owner :: "handle \<Rightarrow> routing \<Rightarrow> routing" where
  "forget_stream_owner stream s = forget_owner K_Stream stream s"

definition forget_event_owner :: "handle \<Rightarrow> routing \<Rightarrow> routing" where
  "forget_event_owner event s = (let s = forget_owner K_Event event s in
     s\<lparr>event_cache := event_forget event (event_cache s)\<rparr>)"


section \<open>The operations per kind of handle\<close>

definition note_context_owner :: "client_transport \<Rightarrow> handle \<Rightarrow> transport_conn option \<Rightarrow> routing \<Rightarrow> routing" where
  "note_context_owner = note_owner K_Context"

definition note_module_owner :: "client_transport \<Rightarrow> handle \<Rightarrow> transport_conn option \<Rightarrow> routing \<Rightarrow> routing" where
  "note_module_owner = note_owner K_Module"

definition note_library_owner :: "client_transport \<Rightarrow> handle \<Rightarrow> transport_conn option \<Rightarrow> routing \<Rightarrow> routing" where
  "note_library_owner = note_owner K_Library"

definition note_function_owner :: "client_transport \<Rightarrow> handle \<Rightarrow> transport_conn option \<Rightarrow> routing \<Rightarrow> routing" where
  "note_function_owner = note_owner K_Function"

definition note_stream_owner :: "client_transport \<Rightarrow> handle \<Rightarrow> transport_conn option \<Rightarrow> routing \<Rightarrow> routing" where
  "note_stream_owner = note_owner K_Stream"

definition note_event_owner :: "client_transport \<Rightarrow> handle \<Rightarrow> transport_conn option \<Rightarrow> routing \<Rightarrow> routing" where
  "note_event_owner = note_owner K_Event"

definition note_memory_pool_owner :: "client_transport \<Rightarrow> handle \<Rightarrow> transport_conn option \<Rightarrow> routing \<Rightarrow> routing" where
  "note_memory_pool_owner = note_owner K_Memory_Pool"

definition note_graph_owner :: "client_transport \<Rightarrow> handle \<Rightarrow> transport_conn option \<Rightarrow> routing \<Rightarrow> routing" where
  "note_graph_owner = note_owner K_Graph"

definition note_graph_node_owner :: "client_transport \<Rightarrow> handle \<Rightarrow> transport_conn option \<Rightarrow> routing \<Rightarrow> routing" where
  "note_graph_node_owner = note_owner K_Graph_Node"

definition note_graph_exec_owner :: "client_transport \<Rightarrow> handle \<Rightarrow> transport_conn option \<Rightarrow> routing \<Rightarrow> routing" where
  "note_graph_exec_owner = note_owner K_Graph_Exec"

definition note_deviceptr_owner :: "client_transport \<Rightarrow> handle \<Rightarrow> transport_conn option \<Rightarrow> routing \<Rightarrow> routing" where
  "note_deviceptr_owner = note_owner K_Deviceptr"

definition note_context_owner_route :: "client_transport \<Rightarrow> handle \<Rightarrow> route \<Rightarrow> routing \<Rightarrow> routing" where
  "note_context_owner_route = note_owner_route K_Context"

definition note_module_owner_route :: "client_transport \<Rightarrow> handle \<Rightarrow> route \<Rightarrow> routing \<Rightarrow> routing" where
  "note_module_owner_route = note_owner_route K_Module"

definition note_library_owner_route :: "client_transport \<Rightarrow> handle \<Rightarrow> route \<Rightarrow> routing \<Rightarrow> routing" where
  "note_library_owner_route = note_owner_route K_Library"

definition note_function_owner_route :: "client_transport \<Rightarrow> handle \<Rightarrow> route \<Rightarrow> routing \<Rightarrow> routing" where
  "note_function_owner_route = note_owner_route K_Function"

definition note_stream_owner_route :: "client_transport \<Rightarrow> handle \<Rightarrow> route \<Rightarrow> routing \<Rightarrow> routing" where
  "note_stream_owner_route = note_owner_route K_Stream"

definition note_event_owner_route :: "client_transport \<Rightarrow> handle \<Rightarrow> route \<Rightarrow> routing \<Rightarrow> routing" where
  "note_event_owner_route = note_owner_route K_Event"

definition note_memory_pool_owner_route :: "client_transport \<Rightarrow> handle \<Rightarrow> route \<Rightarrow> routing \<Rightarrow> routing" where
  "note_memory_pool_owner_route = note_owner_route K_Memory_Pool"

definition note_graph_owner_route :: "client_transport \<Rightarrow> handle \<Rightarrow> route \<Rightarrow> routing \<Rightarrow> routing" where
  "note_graph_owner_route = note_owner_route K_Graph"

definition note_graph_node_owner_route :: "client_transport \<Rightarrow> handle \<Rightarrow> route \<Rightarrow> routing \<Rightarrow> routing" where
  "note_graph_node_owner_route = note_owner_route K_Graph_Node"

definition note_graph_exec_owner_route :: "client_transport \<Rightarrow> handle \<Rightarrow> route \<Rightarrow> routing \<Rightarrow> routing" where
  "note_graph_exec_owner_route = note_owner_route K_Graph_Exec"

definition note_deviceptr_owner_route :: "client_transport \<Rightarrow> handle \<Rightarrow> route \<Rightarrow> routing \<Rightarrow> routing" where
  "note_deviceptr_owner_route = note_owner_route K_Deviceptr"

section \<open>Choosing a route\<close>

definition route_for_known_owner :: "handle_kind \<Rightarrow> client_transport \<Rightarrow> handle \<Rightarrow> routing \<Rightarrow> route" where
  "route_for_known_owner k pool handle s =
     (if handle = null_handle then invalid_route
      else case owners s k handle of None \<Rightarrow> invalid_route
        | Some owner \<Rightarrow> route_from_identity pool (owner_route owner))"

text \<open>
  What the driver of the route answers to \<^verbatim>\<open>cuCtxSetCurrent\<close> is the parameter \<^verbatim>\<open>answer_set\<close>;
  a remote route without a connection cannot be asked.
\<close>

definition set_current_context_on_route :: "client_transport \<Rightarrow> (route \<Rightarrow> handle \<Rightarrow> int) \<Rightarrow> route \<Rightarrow> handle \<Rightarrow> routing
    \<Rightarrow> int \<times> routing" where
  "set_current_context_on_route pool answer_set route ctx s =
     (if kind route = Route_Invalid then (CUDA_ERROR_DEVICE_UNAVAILABLE, s)
      else if \<not> route_is_local route \<and>
              lane_context_cache_matches (route_identity pool route) ctx (thread_contexts s)
           then (CUDA_SUCCESS, s)
      else let epoch = lane_context_cache_epoch (thread_contexts s);
               result = (if \<not> route_is_local route \<and> route_remote_conn route = None
                         then CUDA_ERROR_DEVICE_UNAVAILABLE else answer_set route ctx);
               contexts = note_device_binding_changed (thread_contexts s);
               contexts = lane_context_cache_update (route_identity pool route) ctx epoch (result = CUDA_SUCCESS) contexts
           in (result, s\<lparr>thread_contexts := contexts\<rparr>))"

definition route_for_default_context_hint :: "client_transport \<Rightarrow> (route \<Rightarrow> handle \<Rightarrow> int) \<Rightarrow> handle \<Rightarrow> routing
    \<Rightarrow> route \<times> routing" where
  "route_for_default_context_hint pool answer_set ctx s =
     (if ctx = null_handle then (invalid_route, s)
      else let route = route_for_known_owner K_Context pool ctx s in
        if kind route = Route_Invalid then (route, s)
        else if lane_context_cache_matches (route_identity pool route) ctx (thread_contexts s)
             then (route, s\<lparr>current_hint := ctx\<rparr>)
        else let (result, s) = set_current_context_on_route pool answer_set route ctx s in
          if result \<noteq> CUDA_SUCCESS then (invalid_route, s) else (route, s\<lparr>current_hint := ctx\<rparr>))"

text \<open>The hints in turn: the first that gives a route wins.\<close>

fun route_for_hints :: "client_transport \<Rightarrow> (route \<Rightarrow> handle \<Rightarrow> int) \<Rightarrow> (routing \<Rightarrow> handle) list \<Rightarrow> routing \<Rightarrow> route \<times> routing" where
  "route_for_hints pool answer_set [] s = (invalid_route, s)"
| "route_for_hints pool answer_set (hint # rest) s =
     (let (route, s) = (if hint s \<noteq> null_handle then route_for_default_context_hint pool answer_set (hint s) s
                        else (invalid_route, s))
      in if kind route \<noteq> Route_Invalid then (route, s) else route_for_hints pool answer_set rest s)"

definition route_for_default :: "device_env \<Rightarrow> client_transport \<Rightarrow> (route \<Rightarrow> handle \<Rightarrow> int) \<Rightarrow> routing \<Rightarrow> route \<times> routing" where
  "route_for_default env pool answer_set s =
     (let (route, s) = route_for_hints pool answer_set [current_hint, default_hint, global_hint] s in
      if kind route \<noteq> Route_Invalid then (route, s)
      else let conn = transport_connection 0 pool in
        if conn \<noteq> None then (remote_route_for_conn conn, s)
        else (if local_available env then local_route else invalid_route, s))"

definition route_for_owner_or_default :: "handle_kind \<Rightarrow> device_env \<Rightarrow> client_transport \<Rightarrow> (route \<Rightarrow> handle \<Rightarrow> int) \<Rightarrow> handle \<Rightarrow> routing
    \<Rightarrow> route \<times> routing" where
  "route_for_owner_or_default k env pool answer_set handle s =
     (let route = route_for_known_owner k pool handle s in
      if kind route = Route_Invalid then route_for_default env pool answer_set s else (route, s))"

definition deviceptr_is_tracked :: "deviceptr \<Rightarrow> routing \<Rightarrow> bool" where
  "deviceptr_is_tracked ptr s =
     (owners s K_Deviceptr ptr \<noteq> None \<or> allocation_cache_lookup ptr (pointer_cache s) \<noteq> None)"

text \<open>The lookup as the pointer it returns: the position of the record it found in the map.\<close>

fun lookup_position :: "deviceptr_allocations \<Rightarrow> u64 \<Rightarrow> deviceptr \<Rightarrow> nat \<Rightarrow> nat option" where
  "lookup_position m n ptr 0 = None"
| "lookup_position m n ptr (Suc entry) =
     (if ptr - fst (m ! entry) < rec_size (snd (m ! entry)) then Some entry
      else if n = 0 then None
      else lookup_position m n ptr entry)"

definition lookup_pointer :: "deviceptr \<Rightarrow> deviceptr_allocation_cache \<Rightarrow> nat option" where
  "lookup_pointer ptr c = lookup_position (allocations c) (overlapping_neighbors c) ptr
     (upper_bound ptr (allocations c))"

definition deviceptr_allocation_covers :: "deviceptr \<Rightarrow> u64 \<Rightarrow> int \<Rightarrow> routing \<Rightarrow> bool" where
  "deviceptr_allocation_covers ptr bytes route_id s =
     (if bytes = 0 then False
      else case lookup_pointer ptr (pointer_cache s) of None \<Rightarrow> False
        | Some i \<Rightarrow> rec_route (snd (allocations (pointer_cache s) ! i)) = route_id \<and>
            lookup_pointer (ptr + bytes - 1) (pointer_cache s) = Some i)"

definition route_for_deviceptr :: "device_env \<Rightarrow> client_transport \<Rightarrow> (route \<Rightarrow> handle \<Rightarrow> int) \<Rightarrow> deviceptr \<Rightarrow> routing
    \<Rightarrow> route \<times> routing" where
  "route_for_deviceptr env pool answer_set ptr s =
     (case owners s K_Deviceptr ptr of
        Some owner \<Rightarrow> (route_from_identity pool (owner_route owner), s)
      | None \<Rightarrow> (case allocation_cache_lookup ptr (pointer_cache s) of
          Some allocation \<Rightarrow> (route_from_identity pool (rec_route allocation), s)
        | None \<Rightarrow> route_for_default env pool answer_set s))"

definition deviceptrs_share_route :: "device_env \<Rightarrow> client_transport \<Rightarrow> (route \<Rightarrow> handle \<Rightarrow> int) \<Rightarrow> deviceptr \<Rightarrow> deviceptr \<Rightarrow> routing
    \<Rightarrow> bool \<times> routing" where
  "deviceptrs_share_route env pool answer_set first second s =
     (let (r1, s) = route_for_deviceptr env pool answer_set first s;
          (r2, s) = route_for_deviceptr env pool answer_set second s
      in (routes_share_server pool r1 r2, s))"

definition context_for_deviceptr :: "deviceptr \<Rightarrow> routing \<Rightarrow> handle" where
  "context_for_deviceptr ptr s =
     (case owners s K_Deviceptr ptr of
        Some owner \<Rightarrow>
          if pointer_context owner \<noteq> null_handle then pointer_context owner
          else (case allocation_cache_lookup ptr (pointer_cache s) of None \<Rightarrow> null_handle | Some a \<Rightarrow> rec_context a)
      | None \<Rightarrow> (case allocation_cache_lookup ptr (pointer_cache s) of None \<Rightarrow> null_handle | Some a \<Rightarrow> rec_context a))"

definition route_for_context :: "device_env \<Rightarrow> client_transport \<Rightarrow> (route \<Rightarrow> handle \<Rightarrow> int) \<Rightarrow> handle \<Rightarrow> routing \<Rightarrow> route \<times> routing" where
  "route_for_context = route_for_owner_or_default K_Context"

definition route_for_module :: "device_env \<Rightarrow> client_transport \<Rightarrow> (route \<Rightarrow> handle \<Rightarrow> int) \<Rightarrow> handle \<Rightarrow> routing \<Rightarrow> route \<times> routing" where
  "route_for_module = route_for_owner_or_default K_Module"

definition route_for_library :: "device_env \<Rightarrow> client_transport \<Rightarrow> (route \<Rightarrow> handle \<Rightarrow> int) \<Rightarrow> handle \<Rightarrow> routing \<Rightarrow> route \<times> routing" where
  "route_for_library = route_for_owner_or_default K_Library"

definition route_for_function :: "device_env \<Rightarrow> client_transport \<Rightarrow> (route \<Rightarrow> handle \<Rightarrow> int) \<Rightarrow> handle \<Rightarrow> routing \<Rightarrow> route \<times> routing" where
  "route_for_function = route_for_owner_or_default K_Function"

definition route_for_stream :: "device_env \<Rightarrow> client_transport \<Rightarrow> (route \<Rightarrow> handle \<Rightarrow> int) \<Rightarrow> handle \<Rightarrow> routing \<Rightarrow> route \<times> routing" where
  "route_for_stream = route_for_owner_or_default K_Stream"

definition route_for_event :: "device_env \<Rightarrow> client_transport \<Rightarrow> (route \<Rightarrow> handle \<Rightarrow> int) \<Rightarrow> handle \<Rightarrow> routing \<Rightarrow> route \<times> routing" where
  "route_for_event = route_for_owner_or_default K_Event"

definition route_for_memory_pool :: "device_env \<Rightarrow> client_transport \<Rightarrow> (route \<Rightarrow> handle \<Rightarrow> int) \<Rightarrow> handle \<Rightarrow> routing \<Rightarrow> route \<times> routing" where
  "route_for_memory_pool = route_for_owner_or_default K_Memory_Pool"

definition route_for_graph :: "device_env \<Rightarrow> client_transport \<Rightarrow> (route \<Rightarrow> handle \<Rightarrow> int) \<Rightarrow> handle \<Rightarrow> routing \<Rightarrow> route \<times> routing" where
  "route_for_graph = route_for_owner_or_default K_Graph"

definition route_for_graph_node :: "device_env \<Rightarrow> client_transport \<Rightarrow> (route \<Rightarrow> handle \<Rightarrow> int) \<Rightarrow> handle \<Rightarrow> routing \<Rightarrow> route \<times> routing" where
  "route_for_graph_node = route_for_owner_or_default K_Graph_Node"

definition route_for_graph_exec :: "device_env \<Rightarrow> client_transport \<Rightarrow> (route \<Rightarrow> handle \<Rightarrow> int) \<Rightarrow> handle \<Rightarrow> routing \<Rightarrow> route \<times> routing" where
  "route_for_graph_exec = route_for_owner_or_default K_Graph_Exec"

definition route_for_known_stream :: "client_transport \<Rightarrow> handle \<Rightarrow> routing \<Rightarrow> route" where
  "route_for_known_stream = route_for_known_owner K_Stream"

definition route_for_current_context :: "device_env \<Rightarrow> client_transport \<Rightarrow> (route \<Rightarrow> handle \<Rightarrow> int) \<Rightarrow> routing \<Rightarrow> route \<times> routing" where
  "route_for_current_context env pool answer_set s = route_for_context env pool answer_set (current_hint s) s"


section \<open>Pointers lead to their server\<close>

text \<open>
  The steps that record and drop device memory. A recorded range is not empty and
  does not wrap, for the block first offered and for every block offered instead.
\<close>

inductive pointer_step :: "client_transport \<Rightarrow> routing \<Rightarrow> routing \<Rightarrow> bool" for pool where
  step_record: "record_disjoint_allocation pool sz route again ptr s = Some (result, ptr', s') \<Longrightarrow> sz \<noteq> 0 \<Longrightarrow>
     (\<forall>p \<in> insert ptr (snd ` set again). unat p + unat sz < 2 ^ 64) \<Longrightarrow> pointer_step pool s s'"
| step_forget: "pointer_step pool s (forget_deviceptr_owner ptr s)"

abbreviation routing_init :: "routing \<Rightarrow> bool" where
  "routing_init s \<equiv> s = initial_routing"

definition pointers_ok :: "routing \<Rightarrow> bool" where
  "pointers_ok s = (let m = map_of (allocations (pointer_cache s)) in
     allocation_cache_ok (pointer_cache s) \<and>
     (\<forall>b r b' r' p. m b = Some r \<and> m b' = Some r' \<and> entry_contains (b, r) p \<and> entry_contains (b', r') p \<longrightarrow>
        rec_route r = rec_route r') \<and>
     (\<forall>p owner. owners s K_Deviceptr p = Some owner \<longrightarrow>
        (\<exists>r. m p = Some r \<and> owner_route owner = rec_route r)))"

lemma pointer_cache_insert:
  assumes "allocation_cache_ok c" "ptr \<noteq> 0" "sz \<noteq> 0"
  shows "allocation_cache_ok (allocation_cache_insert ptr sz rt ctx c)"
    "map_of (allocations (allocation_cache_insert ptr sz rt ctx c)) =
       (map_of (allocations c))(ptr \<mapsto> \<lparr>rec_size = sz, rec_route = rt, rec_context = ctx\<rparr>)"
  using run_op_refines [OF assms(1), of "Insert ptr sz rt ctx"] assms(2,3) by simp_all

lemma pointer_cache_erase:
  assumes "allocation_cache_ok c"
  shows "allocation_cache_ok (allocation_cache_erase ptr c)"
    "map_of (allocations (allocation_cache_erase ptr c)) = (map_of (allocations c))(ptr := None)"
  using run_op_refines [OF assms(1), of "Erase ptr"] by simp_all

lemma pointers_ok_note:
  assumes "pointers_ok s" "sz \<noteq> 0" "unat ptr + unat sz < 2 ^ 64"
    and "note_disjoint_allocation pool ptr sz route s = (noted, s')"
  shows "pointers_ok s'"
proof -
  let ?id = "route_identity pool route"
  let ?r = "\<lparr>rec_size = sz, rec_route = ?id, rec_context = current_hint s\<rparr>"
  let ?m = "map_of (allocations (pointer_cache s))"
  consider (same) "s' = s" | (noted) "ptr \<noteq> 0" "s' = note_allocation_owner_locked ptr sz ?id (current_hint s) s"
      "\<not> allocation_cache_overlaps_other_route ptr sz ?id (pointer_cache s)"
    using assms(4) by (auto simp: note_disjoint_allocation_def Let_def split: if_splits)
  then show ?thesis
  proof cases
    case same
    with assms(1) show ?thesis by simp
  next
    case noted
    have ok: "allocation_cache_ok (pointer_cache s)" using assms(1) by (simp add: pointers_ok_def Let_def)
    have map_iff: "?m b = Some r \<longleftrightarrow> (b, r) \<in> set (allocations (pointer_cache s))" for b r
      using ok by (simp add: allocation_cache_ok_def omap_map_of_iff)
    note ins = pointer_cache_insert [OF ok noted(1) assms(2), of ?id "current_hint s"]
    have cache: "pointer_cache s' = allocation_cache_insert ptr sz ?id (current_hint s) (pointer_cache s)"
      by (simp add: noted(2) note_allocation_owner_locked_def Let_def)
    have m': "map_of (allocations (pointer_cache s')) = ?m(ptr \<mapsto> ?r)" by (simp add: cache ins(2))
    have fresh: "rec_route r = ?id" if "?m b = Some r" "entry_contains (b, r) p" "entry_contains (ptr, ?r) p" for b r p
    proof -
      have "ranges_meet ptr sz (b, r)" using that(2,3) by (auto simp: ranges_meet_def entry_contains_def)
      then show ?thesis
        using noted(3) that(1) map_iff unfolding overlaps_other_route_eq [OF ok assms(3,2)] by auto
    qed
    have pairs: "rec_route r = rec_route r'"
      if "(?m(ptr \<mapsto> ?r)) b = Some r" "(?m(ptr \<mapsto> ?r)) b' = Some r'" "entry_contains (b, r) p" "entry_contains (b', r') p"
      for b r b' r' p
    proof -
      have old: "rec_route r = rec_route r'" if "?m b = Some r" "?m b' = Some r'"
        using assms(1) that \<open>entry_contains (b, r) p\<close> \<open>entry_contains (b', r') p\<close>
        unfolding pointers_ok_def Let_def by blast
      show ?thesis
        using that old fresh [of b r p] fresh [of b' r' p] by (auto split: if_splits)
    qed
    have own: "\<exists>r. (?m(ptr \<mapsto> ?r)) p = Some r \<and> owner_route owner = rec_route r"
      if "owners s' K_Deviceptr p = Some owner" for p owner
      using that assms(1) unfolding noted(2)
      by (auto simp: note_allocation_owner_locked_def Let_def pointers_ok_def split: if_splits)
    show ?thesis
      unfolding pointers_ok_def Let_def m' using ins(1) pairs own unfolding cache by blast
  qed
qed

lemma pointers_ok_record:
  assumes "pointers_ok s" "sz \<noteq> 0" "\<forall>p \<in> insert ptr (snd ` set again). unat p + unat sz < 2 ^ 64"
    and "record_disjoint_loop pool sz route again ptr s = Some (result, ptr', s')"
  shows "pointers_ok s'"
  using assms(1,3,4)
proof (induction again arbitrary: ptr s)
  case Nil
  then show ?case
    using pointers_ok_note [OF Nil.prems(1) assms(2)]
    by (subst (asm) record_disjoint_loop.simps) (auto split: prod.splits if_splits)
next
  case (Cons a again)
  obtain noted s1 where n: "note_disjoint_allocation pool ptr sz route s = (noted, s1)" by fastforce
  have ok1: "pointers_ok s1" using pointers_ok_note [OF Cons.prems(1) assms(2) _ n] Cons.prems(2) by simp
  obtain r p where a: "a = (r, p)" by fastforce
  show ?case
  proof (cases "noted \<or> r \<noteq> CUDA_SUCCESS")
    case True
    with Cons.prems(3) n a ok1 show ?thesis
      by (subst (asm) record_disjoint_loop.simps) (auto split: if_splits)
  next
    case False
    with Cons.prems(3) n a have "record_disjoint_loop pool sz route again p s1 = Some (result, ptr', s')"
      by (subst (asm) record_disjoint_loop.simps) auto
    with Cons.IH [OF ok1, of p] Cons.prems(2) a show ?thesis by simp
  qed
qed

lemma pointers_ok_forget: "pointers_ok s \<Longrightarrow> pointers_ok (forget_deviceptr_owner ptr s)"
  using pointer_cache_erase [of "pointer_cache s" ptr]
  by (fastforce simp: pointers_ok_def forget_deviceptr_owner_def forget_owner_def Let_def split: if_splits)

lemma pointers_ok_init: "pointers_ok initial_routing"
  by (simp add: pointers_ok_def initial_routing_def empty_allocation_cache_ok)
     (simp add: empty_allocation_cache_def)


lemma pointer_step_ok: "pointer_step pool s s' \<Longrightarrow> pointers_ok s \<Longrightarrow> pointers_ok s'"
proof (induction rule: pointer_step.induct)
  case (step_record sz route again ptr s result ptr' s')
  then show ?case
    using pointers_ok_record [OF step_record.prems step_record.hyps(2,3)]
    by (auto simp: record_disjoint_allocation_def split: if_splits)
next
  case (step_forget s ptr)
  then show ?case by (rule pointers_ok_forget)
qed

interpretation rt: step_invariant routing_init "pointer_step pool" pointers_ok for pool
  by unfold_locales (auto intro: pointers_ok_init pointer_step_ok)

section \<open>The table and its devices\<close>

definition same_device :: "device_entry \<Rightarrow> device_entry \<Rightarrow> bool" where
  "same_device a b = (entry_local a = entry_local b \<and>
     (if entry_local a then entry_local_device a = entry_local_device b
      else entry_conn_index a = entry_conn_index b \<and> entry_remote_device a = entry_remote_device b))"

definition table_ok :: "client_transport \<Rightarrow> device_entry list \<Rightarrow> bool" where
  "table_ok pool devices = (\<forall>e \<in> set devices. \<not> entry_local e \<longrightarrow> entry_conn_index e < conn_count pool)"

lemma local_entries_local: "e \<in> set (local_entries env) \<Longrightarrow> entry_local e"
  by (auto simp: local_entries_def split: if_splits)

lemma server_entries_index:
  "server_entries env i ordinals = Inr entries \<Longrightarrow> e \<in> set entries \<Longrightarrow> \<not> entry_local e \<and> entry_conn_index e = i"
  by (induction ordinals arbitrary: entries) (auto split: prod.splits sum.splits if_splits)

lemma remote_entries_index:
  "remote_entries env is = Inr entries \<Longrightarrow> e \<in> set entries \<Longrightarrow> \<not> entry_local e \<and> entry_conn_index e \<in> set is"
  by (induction "is" arbitrary: entries)
     (auto split: prod.splits sum.splits if_splits dest!: server_entries_index)

lemma apply_visible_subset: "set (apply_visible_devices env devices) \<subseteq> set devices"
  using select_visible_range [of "int (length devices)" "visible_spec env" "device_uuid env devices"]
  by (auto simp: apply_visible_devices_def list_all_iff)


lemma server_entries_error: "server_entries env i ordinals = Inl e \<Longrightarrow> e \<noteq> CUDA_SUCCESS"
  by (induction ordinals) (auto split: prod.splits sum.splits if_splits)

lemma remote_entries_error: "remote_entries env is = Inl e \<Longrightarrow> e \<noteq> CUDA_SUCCESS"
  by (induction "is") (auto split: prod.splits sum.splits if_splits dest: server_entries_error)

lemma ensure_device_table_ok:
  assumes "ensure_device_table env pool s0 = (CUDA_SUCCESS, s)" "\<not> device_table_ready s0"
  shows "device_table_ready s" "table_ok pool (device_table s)"
proof -
  define remotes where "remotes = (if open_result env = 0 then remote_entries env [0..<conn_count pool] else Inr [])"
  have "e \<noteq> CUDA_SUCCESS" if "remotes = Inl e" for e
    using that remote_entries_error by (auto simp: remotes_def split: if_splits)
  then obtain found where r: "remotes = Inr found"
    using assms unfolding ensure_device_table_def remotes_def [symmetric]
    by (cases remotes) (auto simp: Let_def)
  have "CUDA_ERROR_DEVICE_UNAVAILABLE \<noteq> CUDA_SUCCESS"
    by (simp add: CUDA_SUCCESS_def CUDA_ERROR_DEVICE_UNAVAILABLE_def)
  then have s: "s = s0\<lparr>device_table := apply_visible_devices env (local_entries env @ found), device_table_ready := True\<rparr>"
    using assms r unfolding ensure_device_table_def remotes_def [symmetric]
    by (auto simp: Let_def split: if_splits)
  show "device_table_ready s" by (simp add: s)
  have "\<not> entry_local e \<longrightarrow> entry_conn_index e < conn_count pool" if "e \<in> set (local_entries env @ found)" for e
    using that r local_entries_local [of e env] remote_entries_index [of env "[0..<conn_count pool]" found e]
    by (auto simp: remotes_def split: if_splits)
  then show "table_ok pool (device_table s)"
    using apply_visible_subset [of env "local_entries env @ found"] by (auto simp: s table_ok_def)
qed

lemma find_index_exists: "x \<in> set xs \<Longrightarrow> P x \<Longrightarrow> \<exists>i. find_index P xs = Some i"
  using find_index_None [of P xs] by (cases "find_index P xs") auto

text \<open>On the route of an entry, exactly the entries of the same device match.\<close>

lemma route_of_entry:
  assumes "pool_ok pool" "e \<in> set devices" "table_ok pool devices"
  defines "route \<equiv> (if entry_local e then local_route
      else remote_route_for_conn (transport_connection (entry_conn_index e) pool))"
    and "dev \<equiv> (if entry_local e then entry_local_device e else entry_remote_device e)"
    and "index \<equiv> (if entry_local e then -1 else int (entry_conn_index e))"
  shows "entry_matches route index dev c \<longleftrightarrow> same_device c e"
    "kind route = (if entry_local e then Route_Local else Route_Remote)"
    "kind route = Route_Remote \<Longrightarrow> conn_index pool (route_conn route) = index \<and> 0 \<le> index"
proof -
  have conn: "\<exists>c. transport_connection (entry_conn_index e) pool = Some c \<and> logical_index c = int (entry_conn_index e)"
    if "\<not> entry_local e"
    using assms(1-3) that by (auto simp: table_ok_def transport_connection_def pool_ok_def)
  show k: "kind route = (if entry_local e then Route_Local else Route_Remote)"
    using conn by (auto simp: route_def local_route_def remote_route_for_conn_def)
  show "entry_matches route index dev c \<longleftrightarrow> same_device c e"
    using k by (auto simp: entry_matches_def same_device_def dev_def index_def)
  show "kind route = Route_Remote \<Longrightarrow> conn_index pool (route_conn route) = index \<and> 0 \<le> index"
    using conn k assms(2,3)
    by (auto simp: route_def remote_route_for_conn_def conn_index_def index_def table_ok_def split: if_splits)
qed

section \<open>Properties\<close>

text \<open>
  C7: as long as device memory is recorded through the disjointness check and no
  range wraps, an address inside a recorded allocation routes to the server that
  made this allocation, however the allocations of several servers are interleaved.
\<close>

theorem pointers_route_to_their_server:
  assumes "reachable routing_init (pointer_step pool) s"
    and "map_of (allocations (pointer_cache s)) base = Some r" and "entry_contains (base, r) ptr"
  shows "route_for_deviceptr env pool answer_set ptr s = (route_from_identity pool (rec_route r), s)"
proof -
  let ?m = "map_of (allocations (pointer_cache s))"
  have ok: "pointers_ok s" using rt.inv_reachable [OF assms(1)] .
  then have cache: "allocation_cache_ok (pointer_cache s)" by (simp add: pointers_ok_def Let_def)
  then have omap: "omap_ok (allocations (pointer_cache s))" by (simp add: allocation_cache_ok_def)
  have same: "rec_route r' = rec_route r" if "?m b = Some r'" "entry_contains (b, r') ptr" for b r'
    using ok that assms(2,3) unfolding pointers_ok_def Let_def by blast
  show ?thesis
  proof (cases "owners s K_Deviceptr ptr")
    case (Some owner)
    then obtain r' where r': "?m ptr = Some r'" "owner_route owner = rec_route r'"
      using ok unfolding pointers_ok_def Let_def by blast
    then have "rec_size r' \<noteq> 0"
      using cache omap by (auto simp: allocation_cache_ok_def entries_ok_def omap_map_of_iff)
    then have "entry_contains (ptr, r') ptr" by (simp add: entry_contains_def word_neq_0_conv)
    with r' Some same show ?thesis by (simp add: route_for_deviceptr_def)
  next
    case None
    have "lookup_reference (allocations (pointer_cache s)) ptr \<noteq> None"
      using assms(2,3) by (auto simp: lookup_reference_None omap_map_of_iff [OF omap])
    then obtain r' where l: "allocation_cache_lookup ptr (pointer_cache s) = Some r'"
      by (auto simp: allocation_cache_lookup_eq [OF cache])
    then obtain b where "?m b = Some r'" "entry_contains (b, r') ptr"
      by (auto simp: allocation_cache_lookup_eq [OF cache] lookup_reference_Some [OF omap] omap_map_of_iff [OF omap])
    with same l None show ?thesis by (simp add: route_for_deviceptr_def)
  qed
qed


text \<open>Two servers give out the same address; the second block is the next one offered.\<close>

definition demo_servers :: client_transport where
  "demo_servers = initial_transport\<lparr>conn_count := 2,
     connections := [blank_conn\<lparr>connected := True\<rparr>, blank_conn\<lparr>connected := True, logical_index := 1\<rparr>] @
       replicate 14 blank_conn\<rparr>"

definition demo_route :: "nat \<Rightarrow> route" where
  "demo_route i = remote_route_for_conn (transport_connection i demo_servers)"

theorem pointers_route_witness:
  "\<exists>s1 s2. record_disjoint_allocation demo_servers 256 (demo_route 0) [] 4096 initial_routing = Some (CUDA_SUCCESS, 4096, s1) \<and>
     record_disjoint_allocation demo_servers 256 (demo_route 1) [(CUDA_SUCCESS, 8192)] 4096 s1 = Some (CUDA_SUCCESS, 8192, s2) \<and>
     (\<forall>env answer_set. fst (route_for_deviceptr env demo_servers answer_set 8200 s2) = route_from_identity demo_servers 1)"
proof -
  let ?r0 = "\<lparr>rec_size = 256, rec_route = 0, rec_context = 0\<rparr>" and ?r1 = "\<lparr>rec_size = 256, rec_route = 1, rec_context = 0\<rparr>"
  let ?o1 = "record_disjoint_allocation demo_servers 256 (demo_route 0) [] 4096 initial_routing"
  let ?o2 = "record_disjoint_allocation demo_servers 256 (demo_route 1) [(CUDA_SUCCESS, 8192)] 4096"
  have "map_option (\<lambda>(r, p, s). (r, p, allocations (pointer_cache s))) (Option.bind ?o1 (\<lambda>(r, p, s). ?o2 s)) =
      Some (CUDA_SUCCESS, 8192, [(4096, ?r0), (8192, ?r1)])" "map_option (\<lambda>(r, p, s). (r, p)) ?o1 = Some (CUDA_SUCCESS, 4096)"
    by code_simp+
  then obtain s1 s2 where o1: "?o1 = Some (CUDA_SUCCESS, 4096, s1)" and o2: "?o2 s1 = Some (CUDA_SUCCESS, 8192, s2)"
      and a: "allocations (pointer_cache s2) = [(4096, ?r0), (8192, ?r1)]"
    by (auto simp: bind_eq_Some_conv)
  have "reachable routing_init (pointer_step demo_servers) initial_routing" by (rule reach_init) simp
  then have "reachable routing_init (pointer_step demo_servers) s1"
    by (rule reach_step) (rule step_record [OF o1], simp_all)
  then have r: "reachable routing_init (pointer_step demo_servers) s2"
    by (rule reach_step) (rule step_record [OF o2], simp_all)
  have m: "map_of (allocations (pointer_cache s2)) 8192 = Some ?r1" by (simp add: a)
  have "entry_contains (8192, ?r1) 8200" by code_simp
  note routed = pointers_route_to_their_server [OF r m this]
  have "\<forall>env answer_set. fst (route_for_deviceptr env demo_servers answer_set 8200 s2) = route_from_identity demo_servers 1"
    by (simp add: routed)
  with o1 o2 show ?thesis by blast
qed

text \<open>
  C21: translating a virtual device to its server and back gives the first virtual
  device that stands for the same physical one, which is the device itself when the
  table lists no physical device twice.
\<close>

theorem virtual_device_roundtrip:
  assumes "pool_ok pool" and "ensure_device_table env pool s0 = (CUDA_SUCCESS, s)" and "\<not> device_table_ready s0"
    and "0 \<le> device" and "device < int (length (device_table s))"
    and "route_for_device env pool device s = (route, route_device, s')"
  shows "\<exists>d. virtual_device_for_route env pool route route_device s' = (int d, s) \<and> int d \<le> device \<and>
             same_device (device_table s ! d) (device_table s ! nat device) \<and>
             (sorted_wrt (\<lambda>a b. \<not> same_device a b) (device_table s) \<longrightarrow> int d = device)"
proof -
  let ?e = "device_table s ! nat device" and ?ds = "device_table s"
  note ready = ensure_device_table_ok [OF assms(2,3)]
  have ens: "ensure_device_table env pool s = (CUDA_SUCCESS, s)" using ready(1) by (simp add: ensure_device_table_def)
  have lt: "nat device < length ?ds" using assms(4,5) by simp
  then have mem: "?e \<in> set ?ds" by simp
  note r = route_of_entry [OF assms(1) mem ready(2)]
  define index where "index = (if entry_local ?e then -1 else int (entry_conn_index ?e))"
  have f: "route = (if entry_local ?e then local_route
      else remote_route_for_conn (transport_connection (entry_conn_index ?e) pool))"
      "route_device = (if entry_local ?e then entry_local_device ?e else entry_remote_device ?e)" "s' = s"
    using assms(4-6) ens by (auto simp: route_for_device_def Let_def split: if_splits)
  have matches: "entry_matches route index route_device c \<longleftrightarrow> same_device c ?e" for c
    using r(1) [of c] by (simp only: f index_def)
  have k: "kind route = (if entry_local ?e then Route_Local else Route_Remote)"
    "kind route = Route_Remote \<Longrightarrow> conn_index pool (route_conn route) = index \<and> 0 \<le> index"
    using r(2,3) by (simp_all only: f index_def)
  have "same_device ?e ?e" by (simp add: same_device_def)
  then obtain d where d: "find_index (entry_matches route index route_device) ?ds = Some d"
    using find_index_exists [OF mem] matches by blast
  note fd = find_index_Some [OF d]
  have v: "virtual_device_for_route env pool route route_device s = (int d, s)"
    using k d ens by (cases "entry_local ?e") (auto simp: virtual_device_for_route_def index_def Let_def)
  have le: "d \<le> nat device"
  proof (rule ccontr)
    assume "\<not> d \<le> nat device"
    then have "?e \<in> set (take d ?ds)" using lt fd by (auto simp: in_set_conv_nth intro!: exI [of _ "nat device"])
    with fd matches \<open>same_device ?e ?e\<close> show False by blast
  qed
  have same: "same_device (?ds ! d) ?e" using fd matches by blast
  have "d = nat device" if "sorted_wrt (\<lambda>a b. \<not> same_device a b) ?ds"
    using that same le lt by (metis le_neq_implies_less sorted_wrt_nth_less)
  with v le same f(3) assms(4) show ?thesis by (intro exI [of _ d]) auto
qed

theorem virtual_device_roundtrip_witness:
  "\<exists>env s s'. ensure_device_table env demo_servers initial_routing = (CUDA_SUCCESS, s) \<and>
     route_for_device env demo_servers 1 s = (demo_route 1, 6, s') \<and>
     virtual_device_for_route env demo_servers (demo_route 1) 6 s' = (1, s)"
proof -
  let ?env = "\<lparr>local_available = False, local_count = (0, 0), local_get = (\<lambda>_. (0, 0)), local_uuid = (\<lambda>_. (0, [])),
     open_result = 0, remote_count = (\<lambda>_. (0, 1)), remote_get = (\<lambda>i _. (0, 5 + int i)),
     remote_uuid = (\<lambda>_ _. (0, [])), visible_spec = None\<rparr>"
  have table: "fst (ensure_device_table ?env demo_servers initial_routing) = CUDA_SUCCESS"
      "map (\<lambda>e. (entry_local e, entry_conn_index e, entry_remote_device e))
         (device_table (snd (ensure_device_table ?env demo_servers initial_routing))) = [(False, 0, 5), (False, 1, 6)]"
    by code_simp+
  obtain s where e: "ensure_device_table ?env demo_servers initial_routing = (CUDA_SUCCESS, s)"
    using table(1) by (metis prod.collapse)
  obtain e0 e1 where ds: "device_table s = [e0, e1]" "\<not> entry_local e0" "\<not> entry_local e1"
      "entry_conn_index e0 = 0" "entry_conn_index e1 = 1" "entry_remote_device e1 = 6"
    using table(2) e by (auto simp: map_eq_Cons_conv)
  have pool: "pool_ok demo_servers"
    by (simp add: pool_ok_def demo_servers_def initial_transport_def kTransportCapacity_def held_def blank_conn_def
        ranges_ok_def less_Suc_eq numeral_2_eq_2)
  have fresh: "\<not> device_table_ready initial_routing" by (simp add: initial_routing_def)
  note ready = ensure_device_table_ok [OF e fresh]
  have f: "route_for_device ?env demo_servers 1 s = (demo_route 1, 6, s)"
    using ready(1) ds by (simp add: route_for_device_def ensure_device_table_def demo_route_def)
  from virtual_device_roundtrip [OF pool e fresh _ _ f] ds
  obtain d where v: "virtual_device_for_route ?env demo_servers (demo_route 1) 6 s = (int d, s)"
      and d: "sorted_wrt (\<lambda>a b. \<not> same_device a b) (device_table s) \<longrightarrow> int d = 1" by auto
  have "\<not> same_device e0 e1" using ds by (simp add: same_device_def)
  then have "int d = 1" using d ds(1) by simp
  with v e f show ?thesis by (intro exI [of _ ?env] exI [of _ s]) simp
qed

lemma lookup_position_Some:
  "lookup_position m n ptr i = Some j \<Longrightarrow> j < i \<and> ptr - fst (m ! j) < rec_size (snd (m ! j))"
  by (induction i) (auto split: if_splits)

lemma lookup_pointer_Some:
  assumes "allocation_cache_ok c" "lookup_pointer ptr c = Some i"
  shows "allocations c ! i \<in> set (allocations c)" "entry_contains (allocations c ! i) ptr"
proof -
  have ok: "omap_ok (allocations c)" using assms(1) by (simp add: allocation_cache_ok_def)
  obtain l r where s: "allocations c = l @ r" "upper_bound ptr (allocations c) = length l" "\<forall>e \<in> set l. fst e \<le> ptr"
    using upper_bound_split [OF ok] by metis
  have i: "i < length l" "ptr - fst (allocations c ! i) < rec_size (snd (allocations c ! i))"
    using lookup_position_Some [of "allocations c"] assms(2) s(2) by (simp_all add: lookup_pointer_def)
  then show "allocations c ! i \<in> set (allocations c)" using s(1) by (intro nth_mem) simp
  have "fst (allocations c ! i) \<le> ptr" using i(1) s by (auto simp: nth_append)
  with i(2) show "entry_contains (allocations c ! i) ptr" by (simp add: entry_contains_def)
qed

text \<open>
  C26: when the coverage test says that one allocation of a route covers a range that
  does not wrap, the whole range lies inside one recorded allocation of this route.
\<close>

theorem coverage_is_sound:
  assumes "allocation_cache_ok (pointer_cache s)" and "unat ptr + unat bytes \<le> 2 ^ 64"
    and "deviceptr_allocation_covers ptr bytes route_id s"
  shows "\<exists>base r. map_of (allocations (pointer_cache s)) base = Some r \<and> rec_route r = route_id \<and>
           unat base \<le> unat ptr \<and> unat ptr + unat bytes \<le> unat base + unat (rec_size r)"
proof -
  let ?c = "pointer_cache s"
  obtain i where i: "bytes \<noteq> 0" "lookup_pointer ptr ?c = Some i" "lookup_pointer (ptr + bytes - 1) ?c = Some i"
      "rec_route (snd (allocations ?c ! i)) = route_id"
    using assms(3) by (auto simp: deviceptr_allocation_covers_def split: if_splits option.splits)
  obtain base r where e: "allocations ?c ! i = (base, r)" by fastforce
  note first = lookup_pointer_Some [OF assms(1) i(2), unfolded e]
  note final = lookup_pointer_Some(2) [OF assms(1) i(3), unfolded e]
  have omap: "omap_ok (allocations ?c)" using assms(1) by (simp add: allocation_cache_ok_def)
  have q: "unat (ptr + bytes - 1) = unat ptr + unat bytes - 1"
  proof -
    have "unat (bytes - 1) = unat bytes - 1" using i(1) by (rule unat_minus_one)
    moreover have "unat bytes \<noteq> 0" using i(1) by (simp add: unat_eq_0)
    ultimately have "unat (ptr + (bytes - 1)) = unat ptr + (unat bytes - 1)"
      using unat_add_no_wrap [of ptr "bytes - 1"] assms(2) by simp
    then show ?thesis using \<open>unat bytes \<noteq> 0\<close> by (simp add: algebra_simps)
  qed
  have b: "unat base \<le> unat ptr" "base \<le> ptr + bytes - 1"
    using first(2) final by (simp_all add: entry_contains_def word_le_nat_alt)
  have "unat (ptr + bytes - 1) - unat base < unat (rec_size r)"
    using final unat_diff [OF b(2)] by (simp add: entry_contains_def word_less_nat_alt)
  then have "unat ptr + unat bytes \<le> unat base + unat (rec_size r)" using q by linarith
  moreover have "map_of (allocations ?c) base = Some r" using first(1) by (simp add: omap_map_of_iff [OF omap])
  ultimately show ?thesis using b(1) i(4) e by auto
qed


theorem coverage_is_sound_witness:
  "\<exists>s. deviceptr_allocation_covers 4100 16 0 s \<and>
     (\<exists>base r. map_of (allocations (pointer_cache s)) base = Some r \<and> rec_route r = 0 \<and>
        unat base \<le> 4100 \<and> 4116 \<le> unat base + unat (rec_size r))"
proof -
  let ?s = "initial_routing\<lparr>pointer_cache := run_op (Insert 4096 256 0 7) empty_allocation_cache\<rparr>"
  have ok: "allocation_cache_ok (pointer_cache ?s)"
    using run_op_refines(1) [OF empty_allocation_cache_ok, of "Insert 4096 256 0 7"] by simp
  have c: "deviceptr_allocation_covers 4100 16 0 ?s" by code_simp
  from coverage_is_sound [OF ok _ c] c show ?thesis by (intro exI [of _ ?s]) auto
qed

end
