(* ===== verification/Smemcpy_Dispatch.thy ===== *)
theory Smemcpy_Dispatch
  imports Prelude Std_String
begin

text \<open>
  The dispatcher of the scatter copy (\<^verbatim>\<open>ops/smemcpy_dispatch.cpp\<close> and the driver front
  end \<^verbatim>\<open>ops/smemcpy_module.cpp\<close>): a packed fragment of a three-dimensional region goes
  to a destination with gaps between rows and slices. The dispatcher decides
  whether a plain copy is enough, which kernel runs otherwise, with how many blocks,
  and rebases the parameters for the kernel. All sizes and addresses are 64-bit
  words, so every sum and product wraps as it does in the code.
\<close>

unbundle bit_operations_syntax

section \<open>Parameters and launches\<close>

record smemcpy_params =
  destination :: deviceptr
  source :: deviceptr
  logical_offset :: u64
  bytes :: u64
  width :: u64
  rows :: u64
  destination_row_stride :: u64
  destination_slice_stride :: u64

record smemcpy_device =
  major :: int
  minor :: int
  is_l4 :: bool

datatype kernel_kind = KERNEL_3D | KERNEL_2D | KERNEL_PITCHED | KERNEL_NARROW_2D | KERNEL_NARROW_3D
  | KERNEL_ATOMIC_NARROW_2D | KERNEL_ATOMIC_ROWS

record launch_descriptor =
  params :: smemcpy_params
  use_cuda_memcpy :: bool
  kernel :: kernel_kind
  blocks :: u32
  threads :: u32
  word_bytes :: u32
  launch_width :: u32
  items :: u32
  byte_offset :: u32
  group_threads :: u32

definition kThreadsPerBlock :: u32 where "kThreadsPerBlock = 256"
definition kMaximumBlocks :: u64 where "kMaximumBlocks = 65535"
definition kNarrowItemsPerThread :: u64 where "kNarrowItemsPerThread = 4"

section \<open>Geometry\<close>

definition blocks_for :: "u64 \<Rightarrow> u64 \<Rightarrow> u64" where
  "blocks_for n bytes_per_thread =
     (let block_bytes = ucast kThreadsPerBlock * bytes_per_thread;
          full = n div block_bytes + bool_word (n mod block_bytes \<noteq> 0)
      in min (max full 1) kMaximumBlocks)"

definition destination_at :: "smemcpy_params \<Rightarrow> u64 \<Rightarrow> deviceptr" where
  "destination_at p logical =
     (let row_index = logical div width p;
          x = logical - row_index * width p;
          slice = row_index div rows p;
          row = row_index - slice * rows p
      in destination p + slice * destination_slice_stride p + row * destination_row_stride p + x)"

definition contiguous_destination :: "smemcpy_params \<Rightarrow> u64 \<Rightarrow> bool" where
  "contiguous_destination p slice_bytes =
     (let first_row = logical_offset p div width p;
          last_row = (logical_offset p + bytes p - 1) div width p
      in if first_row = last_row then True
         else if destination_row_stride p \<noteq> width p then False
         else first_row div rows p = last_row div rows p \<or> destination_slice_stride p = slice_bytes)"

definition can_vectorize_pitched :: "u64 \<Rightarrow> smemcpy_params \<Rightarrow> deviceptr \<Rightarrow> bool" where
  "can_vectorize_pitched wb p first_destination =
     (let m = wb - 1
      in width p AND m = 0 \<and> destination p AND m = 0 \<and> destination_row_stride p AND m = 0 \<and>
         destination_slice_stride p AND m = 0 \<and> (source p XOR first_destination) AND m = 0)"

definition set_pitched_vector_launch :: "u64 \<Rightarrow> launch_descriptor \<Rightarrow> launch_descriptor" where
  "set_pitched_vector_launch wb launch =
     launch\<lparr>kernel := KERNEL_PITCHED, word_bytes := ucast wb,
            blocks := ucast (blocks_for (bytes (params launch)) wb)\<rparr>"

definition select_pitched_vector_launch :: "launch_descriptor \<Rightarrow> deviceptr \<Rightarrow> bool \<times> launch_descriptor" where
  "select_pitched_vector_launch launch first_destination =
     (if can_vectorize_pitched 16 (params launch) first_destination then (True, set_pitched_vector_launch 16 launch)
      else if can_vectorize_pitched 8 (params launch) first_destination then (True, set_pitched_vector_launch 8 launch)
      else if can_vectorize_pitched 4 (params launch) first_destination then (True, set_pitched_vector_launch 4 launch)
      else if can_vectorize_pitched 2 (params launch) first_destination then (True, set_pitched_vector_launch 2 launch)
      else (False, launch))"

definition set_narrow_launch :: "bool \<Rightarrow> u64 \<Rightarrow> u64 \<Rightarrow> launch_descriptor \<Rightarrow> launch_descriptor" where
  "set_narrow_launch is_3d w n launch =
     launch\<lparr>kernel := (if is_3d then KERNEL_NARROW_3D else KERNEL_NARROW_2D), launch_width := ucast w,
            items := ucast n, blocks := ucast (blocks_for (bytes (params launch)) n)\<rparr>"

definition set_atomic_launch :: "u64 \<Rightarrow> u32 \<Rightarrow> u32 \<Rightarrow> launch_descriptor \<Rightarrow> launch_descriptor" where
  "set_atomic_launch w byte_off gt launch =
     launch\<lparr>kernel := (if w = 1 then KERNEL_ATOMIC_NARROW_2D else KERNEL_ATOMIC_ROWS),
            launch_width := ucast w, byte_offset := byte_off, group_threads := gt,
            blocks := ucast (blocks_for (bytes (params launch)) w)\<rparr>"

section \<open>Atomic updates of narrow rows\<close>

datatype atomic_narrow_target = Atomic_None | Atomic_Pascal | Atomic_Volta | Atomic_Turing | Atomic_Ampere | Atomic_L4

fun atomic_target_for :: "smemcpy_device option \<Rightarrow> atomic_narrow_target" where
  "atomic_target_for None = Atomic_None"
| "atomic_target_for (Some d) =
     (if major d = 6 \<and> minor d = 0 then Atomic_Pascal
      else if major d = 7 \<and> minor d = 0 then Atomic_Volta
      else if major d = 7 \<and> minor d = 5 then Atomic_Turing
      else if major d = 8 \<and> minor d = 0 then Atomic_Ampere
      else if major d = 8 \<and> minor d = 9 \<and> is_l4 d then Atomic_L4
      else Atomic_None)"

definition atomic_group_threads :: "atomic_narrow_target \<Rightarrow> u64 \<Rightarrow> u64 \<Rightarrow> u32" where
  "atomic_group_threads target w stride =
     (if stride < 64 \<or> 512 < stride \<or> stride AND (stride - 1) \<noteq> 0 then 0
      else case target of
        Atomic_Pascal \<Rightarrow> if w = 1 then (if 128 \<le> stride then 4 else 0) else if stride = 64 then 8 else 4
      | Atomic_Volta \<Rightarrow>
          if w = 1 then (if 128 \<le> stride then 4 else 0)
          else if stride = 64 \<or> w = 3 \<and> stride = 128 then 16
          else if stride = 128 then 8 else 4
      | Atomic_Turing \<Rightarrow>
          if w = 1 then (if stride = 64 then 8 else 4)
          else if w = 2 then (if stride = 128 \<or> stride = 256 then 4 else 0)
          else if stride = 64 then 16 else 4
      | Atomic_Ampere \<Rightarrow> if w = 1 \<and> 256 \<le> stride then 8 else 0
      | Atomic_L4 \<Rightarrow> if w = 1 then (if stride = 64 then 16 else 8) else 16
      | Atomic_None \<Rightarrow> 0)"

definition rows_fit_atomic_word :: "smemcpy_params \<Rightarrow> deviceptr \<Rightarrow> bool" where
  "rows_fit_atomic_word p first_destination =
     (let owns_complete_rows = (logical_offset p mod width p = 0 \<and> bytes p mod width p = 0);
          byte_off = first_destination AND 3
      in width p \<le> 3 \<and> owns_complete_rows \<and> byte_off + width p \<le> 4)"

section \<open>The launch decision\<close>

definition invalid_params :: "smemcpy_params \<Rightarrow> bool" where
  "invalid_params p =
     (width p = 0 \<or> rows p = 0 \<or> bytes p \<noteq> 0 \<and> (source p = 0 \<or> destination p = 0) \<or>
      width p > -1 div rows p \<or> bytes p > -1 - logical_offset p)"

definition initial_launch :: "smemcpy_params \<Rightarrow> launch_descriptor" where
  "initial_launch p =
     \<lparr>params = p, use_cuda_memcpy = False, kernel = KERNEL_3D, blocks = 0, threads = kThreadsPerBlock,
      word_bytes = 0, launch_width = 0, items = 0, byte_offset = 0, group_threads = 0\<rparr>"

definition latency_hiding_narrow :: "smemcpy_params \<Rightarrow> smemcpy_device option \<Rightarrow> bool" where
  "latency_hiding_narrow p device =
     (width p \<le> 3 \<and> (case device of None \<Rightarrow> False | Some d \<Rightarrow> major d < 8))"

definition atomic_threads_for :: "smemcpy_params \<Rightarrow> smemcpy_device option \<Rightarrow> deviceptr \<Rightarrow> u64 \<Rightarrow> u64 \<Rightarrow> u32" where
  "atomic_threads_for p device first_destination first_slice last_slice =
     (let atomic_threads =
            (if width p \<le> 3
             then let gt = atomic_group_threads (atomic_target_for device) (width p) (destination_row_stride p)
                  in if gt \<noteq> 0 \<and> \<not> rows_fit_atomic_word p first_destination then 0 else gt
             else 0);
          regular_rows_across_slices =
            (destination_row_stride p \<le> -1 div rows p \<and>
             destination_slice_stride p = destination_row_stride p * rows p)
      in if atomic_threads \<noteq> 0 \<and> first_slice \<noteq> last_slice \<and> \<not> regular_rows_across_slices then 0
         else atomic_threads)"

definition kernel_for_slice :: "smemcpy_params \<Rightarrow> u32 \<Rightarrow> bool \<Rightarrow> deviceptr \<Rightarrow> bool \<Rightarrow> launch_descriptor \<Rightarrow> launch_descriptor" where
  "kernel_for_slice p atomic_threads latency_hiding first_destination is_3d launch =
     (if width p \<le> 3
      then if atomic_threads \<noteq> 0
           then set_atomic_launch (width p) (ucast (first_destination AND 3)) atomic_threads launch
           else set_narrow_launch is_3d (width p) (if latency_hiding then kNarrowItemsPerThread else 1) launch
      else launch\<lparr>kernel := (if is_3d then KERNEL_3D else KERNEL_2D), blocks := ucast (blocks_for (bytes p) 1)\<rparr>)"

definition prepare_kernel :: "smemcpy_params \<Rightarrow> smemcpy_device option \<Rightarrow> deviceptr \<Rightarrow> launch_descriptor" where
  "prepare_kernel p device first_destination =
     (let launch = initial_launch p;
          slice_bytes = width p * rows p;
          first_row_index = logical_offset p div width p;
          first_slice = first_row_index div rows p;
          last_logical = logical_offset p + bytes p - 1;
          last_slice = last_logical div width p div rows p;
          latency_hiding = latency_hiding_narrow p device;
          atomic_threads = atomic_threads_for p device first_destination first_slice last_slice;
          (vectorized, vector_launch) = select_pitched_vector_launch launch first_destination
      in if atomic_threads = 0 \<and> \<not> latency_hiding \<and> vectorized then vector_launch
         else if first_slice = last_slice
         then let first_row = first_row_index - first_slice * rows p;
                  first_x = logical_offset p - first_row_index * width p;
                  rebased = p\<lparr>destination := destination p + first_slice * destination_slice_stride p
                                             + first_row * destination_row_stride p,
                              logical_offset := first_x\<rparr>
              in kernel_for_slice p atomic_threads latency_hiding first_destination False (launch\<lparr>params := rebased\<rparr>)
         else let rebased = (if first_slice \<noteq> 0
                             then p\<lparr>destination := destination p + first_slice * destination_slice_stride p,
                                    logical_offset := logical_offset p - first_slice * slice_bytes\<rparr>
                             else p)
              in kernel_for_slice p atomic_threads latency_hiding first_destination True (launch\<lparr>params := rebased\<rparr>))"

text \<open>
  The result and, on success, the launch written through the last argument. A null
  pointer is \<^term>\<open>None\<close>; the launch is only written, so its argument says whether it is
  given.
\<close>

definition lupine_smemcpy_prepare_descriptor ::
  "smemcpy_params option \<Rightarrow> smemcpy_device option \<Rightarrow> bool \<Rightarrow> int + launch_descriptor" where
  "lupine_smemcpy_prepare_descriptor ps device launch_given =
     (case ps of
        None \<Rightarrow> Inl CUDA_ERROR_INVALID_VALUE
      | Some p \<Rightarrow>
          if \<not> launch_given \<or> invalid_params p then Inl CUDA_ERROR_INVALID_VALUE
          else if bytes p = 0 then Inr (initial_launch p)
          else let first_destination = destination_at p (logical_offset p)
               in if contiguous_destination p (width p * rows p)
                  then Inr ((initial_launch p)\<lparr>params := p\<lparr>destination := first_destination, logical_offset := 0\<rparr>,
                                               use_cuda_memcpy := True\<rparr>)
                  else Inr (prepare_kernel p device first_destination))"

section \<open>Kernel names\<close>

abbreviation (input) print_u :: "u32 \<Rightarrow> string" where
  "print_u n \<equiv> to_decimal (unat n)"

definition lupine_smemcpy_kernel_name :: "launch_descriptor option \<Rightarrow> string option" where
  "lupine_smemcpy_kernel_name launch =
     (case launch of
        None \<Rightarrow> None
      | Some l \<Rightarrow>
          if use_cuda_memcpy l \<or> blocks l = 0 then None
          else Some (case kernel l of
              KERNEL_3D \<Rightarrow> ''lupine_smemcpy_3d''
            | KERNEL_2D \<Rightarrow> ''lupine_smemcpy_2d''
            | KERNEL_PITCHED \<Rightarrow> ''lupine_smemcpy_pitched_'' @ print_u (word_bytes l)
            | KERNEL_NARROW_2D \<Rightarrow> ''lupine_smemcpy_narrow_2d_'' @ print_u (launch_width l) @ ''_'' @ print_u (items l)
            | KERNEL_NARROW_3D \<Rightarrow> ''lupine_smemcpy_narrow_3d_'' @ print_u (launch_width l) @ ''_'' @ print_u (items l)
            | KERNEL_ATOMIC_NARROW_2D \<Rightarrow>
                ''lupine_smemcpy_atomic_2d_'' @ print_u (byte_offset l) @ ''_'' @ print_u (group_threads l)
            | KERNEL_ATOMIC_ROWS \<Rightarrow>
                ''lupine_smemcpy_atomic_rows_'' @ print_u (launch_width l) @ ''_'' @ print_u (byte_offset l) @ ''_''
                  @ print_u (group_threads l)))"

section \<open>The driver front end\<close>

text \<open>What the driver answers about the current device: result and value of each query.\<close>

record device_answers =
  current_device :: "int \<times> int"
  capability_major :: "int \<Rightarrow> int \<times> int"
  capability_minor :: "int \<Rightarrow> int \<times> int"
  device_name :: "int \<Rightarrow> int \<times> string"

definition lupine_smemcpy_prepare_driver_launch ::
  "device_answers \<Rightarrow> smemcpy_params option \<Rightarrow> bool \<Rightarrow> int + launch_descriptor" where
  "lupine_smemcpy_prepare_driver_launch driver ps launch_given =
     (case lupine_smemcpy_prepare_descriptor ps None launch_given of
        Inl e \<Rightarrow> Inl e
      | Inr launch \<Rightarrow>
          (case ps of None \<Rightarrow> Inr launch | Some p \<Rightarrow>
           if bytes p = 0 \<or> 3 < width p \<or> use_cuda_memcpy launch then Inr launch
           else let (result, device) = current_device driver in
             if result \<noteq> CUDA_SUCCESS then Inl result
             else let (result, mj) = capability_major driver device in
               if result \<noteq> CUDA_SUCCESS then Inl result
               else let (result, mn) = capability_minor driver device in
                 if result \<noteq> CUDA_SUCCESS then Inl result
                 else let (result, name) = device_name driver device in
                   if result \<noteq> CUDA_SUCCESS then Inl result
                   else lupine_smemcpy_prepare_descriptor ps
                          (Some \<lparr>major = mj, minor = mn, is_l4 = (name = ''NVIDIA L4'')\<rparr>) launch_given))"

text \<open>The function of the loaded module that runs a launch; the module is a parameter.\<close>

definition lupine_smemcpy_module_function ::
  "(string \<Rightarrow> int + handle) option \<Rightarrow> launch_descriptor option \<Rightarrow> bool \<Rightarrow> int + handle" where
  "lupine_smemcpy_module_function module launch function_given =
     (case module of
        None \<Rightarrow> Inl CUDA_ERROR_INVALID_VALUE
      | Some get_function \<Rightarrow>
          if \<not> function_given then Inl CUDA_ERROR_INVALID_VALUE
          else case lupine_smemcpy_kernel_name launch of
              None \<Rightarrow> Inl CUDA_ERROR_INVALID_VALUE
            | Some name \<Rightarrow> get_function name)"

end
