(* ===== verification/Smemcpy_Kernels.thy ===== *)
theory Smemcpy_Kernels
  imports Smemcpy_Dispatch "HOL-Library.Monad_Syntax"
begin

text \<open>
  The kernels of the scatter copy (\<^verbatim>\<open>ops/cuda_smemcpy.cu\<close>) and the runtime front end.
  A kernel body is, for each thread, the list of its memory accesses in program
  order; the threads of a launch interleave as a step relation, with the
  compare-and-swap loops of the atomic kernels as steps of their own. A body that
  would loop for ever is \<^term>\<open>None\<close>.
\<close>

section \<open>Threads and accesses\<close>

type_synonym memory = "deviceptr \<Rightarrow> u8"

record thread_id =
  gridDim :: u32
  blockDim :: u32
  blockIdx :: u32
  threadIdx :: u32

definition thread_of :: "thread_id \<Rightarrow> u64" where
  "thread_of g = ucast (blockIdx g) * ucast (blockDim g) + ucast (threadIdx g)"

definition step_of :: "thread_id \<Rightarrow> u64" where
  "step_of g = ucast (gridDim g) * ucast (blockDim g)"

definition warpSize :: u32 where "warpSize = 32"

definition lane_of :: "thread_id \<Rightarrow> u32" where
  "lane_of g = threadIdx g AND (warpSize - 1)"

text \<open>
  A byte store, a vector store of some bytes of the source, and the two phases of an
  atomic update of a 32-bit word: before the first load, and before a
  compare-and-swap against the value loaded last.
\<close>

datatype access =
    Put deviceptr u8
  | Put_Word deviceptr deviceptr nat
  | Load_Word deviceptr u32 u32
  | Cas deviceptr u32 u32 u32

text \<open>A grid-stride loop.\<close>

partial_function (option) grid_loop :: "(u64 \<Rightarrow> access list) \<Rightarrow> u64 \<Rightarrow> u64 \<Rightarrow> u64 \<Rightarrow> access list option" where
  "grid_loop body index bound step =
     (if index < bound
      then do { rest \<leftarrow> grid_loop body (index + step) bound step; Some (body index @ rest) }
      else Some [])"

declare grid_loop.simps [code]

definition kSourceTransactionAlignment :: u64 where "kSourceTransactionAlignment = 128"

definition source_prefix :: "deviceptr \<Rightarrow> u64 \<Rightarrow> u64" where
  "source_prefix src_addr n =
     (let prefix = (- src_addr) AND (kSourceTransactionAlignment - 1)
      in if prefix < n then prefix else n)"

section \<open>Stores of one element\<close>

definition scatter_byte :: "memory \<Rightarrow> smemcpy_params \<Rightarrow> u64 \<Rightarrow> access" where
  "scatter_byte src p index =
     (let logical = logical_offset p + index;
          row_index = logical div width p;
          x = logical - row_index * width p;
          slice = row_index div rows p;
          row = row_index - slice * rows p
      in Put (destination p + (slice * destination_slice_stride p + row * destination_row_stride p + x))
             (src (source p + index)))"

definition scatter_2d_byte :: "memory \<Rightarrow> smemcpy_params \<Rightarrow> u64 \<Rightarrow> access" where
  "scatter_2d_byte src p index =
     (let logical = logical_offset p + index;
          row = logical div width p;
          x = logical - row * width p
      in Put (destination p + (row * destination_row_stride p + x)) (src (source p + index)))"

definition scatter_narrow_store :: "u64 \<Rightarrow> smemcpy_params \<Rightarrow> u64 \<Rightarrow> u8 \<Rightarrow> access" where
  "scatter_narrow_store w p index v =
     (let logical = logical_offset p + index;
          row = logical div w;
          x = logical - row * w
      in Put (destination p + (row * destination_row_stride p + x)) v)"

definition scatter_narrow_3d_store :: "u64 \<Rightarrow> smemcpy_params \<Rightarrow> u64 \<Rightarrow> u8 \<Rightarrow> access" where
  "scatter_narrow_3d_store w p index v =
     (let logical = logical_offset p + index;
          row_index = logical div w;
          x = logical - row_index * w;
          slice = row_index div rows p;
          row = row_index - slice * rows p
      in Put (destination p + (slice * destination_slice_stride p + row * destination_row_stride p + x)) v)"

definition atomic_store_byte :: "u32 \<Rightarrow> deviceptr \<Rightarrow> deviceptr \<Rightarrow> u8 \<Rightarrow> access list" where
  "atomic_store_byte off dest accessible_begin v =
     (if off \<noteq> 0 \<and> dest < accessible_begin + ucast off then [Put dest v]
      else let shift = unat (off * 8)
           in [Load_Word (dest - ucast off) (push_bit shift 0xff) (push_bit shift (ucast v))])"

definition row_bytes :: "u64 \<Rightarrow> deviceptr \<Rightarrow> u32 \<Rightarrow> access list" where
  "row_bytes w dest v = map (\<lambda>x. Put (dest + of_nat x) (ucast (drop_bit (x * 8) v))) [0..<unat w]"

definition atomic_store_row :: "u64 \<Rightarrow> u32 \<Rightarrow> deviceptr \<Rightarrow> deviceptr \<Rightarrow> u32 \<Rightarrow> access list" where
  "atomic_store_row w off dest accessible_begin v =
     (if off \<noteq> 0 \<and> dest < accessible_begin + ucast off then row_bytes w dest v
      else let shift = unat (off * 8)
           in [Load_Word (dest - ucast off) (push_bit shift (push_bit (unat (w * 8)) 1 - 1)) (push_bit shift v)])"

definition scatter_atomic_2d_store :: "u32 \<Rightarrow> smemcpy_params \<Rightarrow> u64 \<Rightarrow> u8 \<Rightarrow> access list" where
  "scatter_atomic_2d_store off p index v =
     (let row = logical_offset p + index
      in atomic_store_byte off (destination p + row * destination_row_stride p) (destination p) v)"

text \<open>
  The lanes of a warp take turns in groups: the loop over the first lane of each
  group performs the store in the turn of the thread's own group.
\<close>

definition in_turn :: "u32 \<Rightarrow> thread_id \<Rightarrow> access list \<Rightarrow> access list" where
  "in_turn gt g stores =
     concat (map (\<lambda>first. if first \<le> lane_of g \<and> lane_of g < first + gt then stores else [])
                 (filter (\<lambda>first. first mod gt = 0) (map of_nat [0..<unat warpSize])))"

section \<open>Kernel bodies\<close>

definition smemcpy_pitched_vector_body :: "u64 \<Rightarrow> memory \<Rightarrow> smemcpy_params \<Rightarrow> thread_id \<Rightarrow> access list option" where
  "smemcpy_pitched_vector_body wb src p g =
     (let thread = thread_of g; step = step_of g; prefix = source_prefix (source p) (bytes p);
          start = (if thread < prefix then [scatter_byte src p thread] else []);
          bulk_bytes = (bytes p - prefix) AND NOT (wb - 1);
          tail = bytes p - prefix - bulk_bytes
      in do {
        bulk \<leftarrow> grid_loop (\<lambda>index.
            (let logical = logical_offset p + index;
                 row_index = logical div width p;
                 x = logical - row_index * width p;
                 slice = row_index div rows p;
                 row = row_index - slice * rows p
             in [Put_Word (destination p + slice * destination_slice_stride p + row * destination_row_stride p + x)
                          (source p + index) (unat wb)]))
          (prefix + thread * wb) (prefix + bulk_bytes) (step * wb);
        Some (start @ bulk @ (if thread < tail then [scatter_byte src p (prefix + bulk_bytes + thread)] else []))
      })"

definition smemcpy_2d_body :: "memory \<Rightarrow> smemcpy_params \<Rightarrow> thread_id \<Rightarrow> access list option" where
  "smemcpy_2d_body src p g =
     (let thread = thread_of g; step = step_of g; prefix = source_prefix (source p) (bytes p)
      in do {
        rest \<leftarrow> grid_loop (\<lambda>index. [scatter_2d_byte src p index]) (prefix + thread) (bytes p) step;
        Some ((if thread < prefix then [scatter_2d_byte src p thread] else []) @ rest)
      })"

definition smemcpy_narrow_2d_body :: "u64 \<Rightarrow> nat \<Rightarrow> memory \<Rightarrow> smemcpy_params \<Rightarrow> thread_id \<Rightarrow> access list option" where
  "smemcpy_narrow_2d_body w n src p g =
     (let thread = thread_of g; step = step_of g; prefix = source_prefix (source p) (bytes p)
      in Some ((if thread < prefix then [scatter_narrow_store w p thread (src (source p + thread))] else []) @
           concat (map (\<lambda>item.
             (let index = prefix + thread + of_nat item * step;
                  stores = (if index < bytes p then [scatter_narrow_store w p index (src (source p + index))] else [])
              in if n = 1 \<or> w = 3 then stores else in_turn (if w = 1 then 4 else 8) g stores)) [0..<n])))"

definition smemcpy_narrow_3d_body :: "u64 \<Rightarrow> nat \<Rightarrow> memory \<Rightarrow> smemcpy_params \<Rightarrow> thread_id \<Rightarrow> access list option" where
  "smemcpy_narrow_3d_body w n src p g =
     (let thread = thread_of g; step = step_of g; prefix = source_prefix (source p) (bytes p)
      in Some ((if thread < prefix then [scatter_narrow_3d_store w p thread (src (source p + thread))] else []) @
           concat (map (\<lambda>item.
             (let index = prefix + thread + of_nat item * step;
                  stores = (if index < bytes p then [scatter_narrow_3d_store w p index (src (source p + index))] else [])
              in if n = 1 \<or> w = 3 then stores else in_turn (if w = 1 then 4 else 8) g stores)) [0..<n])))"

definition smemcpy_atomic_narrow_2d_body :: "u32 \<Rightarrow> u32 \<Rightarrow> memory \<Rightarrow> smemcpy_params \<Rightarrow> thread_id \<Rightarrow> access list option" where
  "smemcpy_atomic_narrow_2d_body off gt src p g =
     (let thread = thread_of g; step = step_of g; prefix = source_prefix (source p) (bytes p)
      in do {
        rest \<leftarrow> grid_loop (\<lambda>index.
            (if index + 1 = bytes p then [scatter_narrow_store 1 p index (src (source p + index))]
             else in_turn gt g (scatter_atomic_2d_store off p index (src (source p + index)))))
          (prefix + thread) (bytes p) step;
        Some ((if thread < prefix
               then if thread + 1 = bytes p then [scatter_narrow_store 1 p thread (src (source p + thread))]
                    else scatter_atomic_2d_store off p thread (src (source p + thread))
               else []) @ rest)
      })"

definition row_value :: "u64 \<Rightarrow> memory \<Rightarrow> deviceptr \<Rightarrow> u32" where
  "row_value w src address =
     fold (\<lambda>x v. v OR push_bit (x * 8) (ucast (src (address + of_nat x)))) [0..<unat w] 0"

definition smemcpy_atomic_rows_body :: "u64 \<Rightarrow> u32 \<Rightarrow> u32 \<Rightarrow> memory \<Rightarrow> smemcpy_params \<Rightarrow> thread_id \<Rightarrow> access list option" where
  "smemcpy_atomic_rows_body w off gt src p g =
     (let thread = thread_of g; step = step_of g; copy_rows = bytes p div w
      in grid_loop (\<lambda>copy_row.
           (let source_index = copy_row * w;
                v = row_value w src (source p + source_index);
                destination_row = logical_offset p div w + copy_row;
                output = destination p + destination_row * destination_row_stride p
            in if copy_row + 1 = copy_rows then row_bytes w output v
               else in_turn gt g (atomic_store_row w off output (destination p) v)))
         thread copy_rows step)"

definition smemcpy_3d_body :: "memory \<Rightarrow> smemcpy_params \<Rightarrow> thread_id \<Rightarrow> access list option" where
  "smemcpy_3d_body src p g =
     (let thread = thread_of g; step = step_of g; prefix = source_prefix (source p) (bytes p)
      in do {
        rest \<leftarrow> grid_loop (\<lambda>index. [scatter_byte src p index]) (prefix + thread) (bytes p) step;
        Some ((if thread < prefix then [scatter_byte src p thread] else []) @ rest)
      })"

section \<open>The table of kernels\<close>

datatype kernel_function =
    Smemcpy_3d
  | Smemcpy_2d
  | Smemcpy_pitched u64
  | Smemcpy_narrow_2d u64 nat
  | Smemcpy_narrow_3d u64 nat
  | Smemcpy_atomic_2d u32 u32
  | Smemcpy_atomic_rows u64 u32 u32

fun kernel_body :: "kernel_function \<Rightarrow> memory \<Rightarrow> smemcpy_params \<Rightarrow> thread_id \<Rightarrow> access list option" where
  "kernel_body Smemcpy_3d = smemcpy_3d_body"
| "kernel_body Smemcpy_2d = smemcpy_2d_body"
| "kernel_body (Smemcpy_pitched wb) = smemcpy_pitched_vector_body wb"
| "kernel_body (Smemcpy_narrow_2d w n) = smemcpy_narrow_2d_body w n"
| "kernel_body (Smemcpy_narrow_3d w n) = smemcpy_narrow_3d_body w n"
| "kernel_body (Smemcpy_atomic_2d off gt) = smemcpy_atomic_narrow_2d_body off gt"
| "kernel_body (Smemcpy_atomic_rows w off gt) = smemcpy_atomic_rows_body w off gt"

definition kKernels :: "(string \<times> kernel_function) list" where
  "kKernels =
     [(''lupine_smemcpy_3d'', Smemcpy_3d), (''lupine_smemcpy_2d'', Smemcpy_2d)] @
     map (\<lambda>wb. (''lupine_smemcpy_pitched_'' @ to_decimal wb, Smemcpy_pitched (of_nat wb))) [2, 4, 8, 16] @
     map (\<lambda>(w, n). (''lupine_smemcpy_narrow_2d_'' @ to_decimal w @ ''_'' @ to_decimal n, Smemcpy_narrow_2d (of_nat w) n))
       [(1, 1), (1, 4), (2, 1), (2, 4), (3, 1), (3, 4)] @
     map (\<lambda>(w, n). (''lupine_smemcpy_narrow_3d_'' @ to_decimal w @ ''_'' @ to_decimal n, Smemcpy_narrow_3d (of_nat w) n))
       [(1, 1), (1, 4), (2, 1), (2, 4), (3, 1), (3, 4)] @
     map (\<lambda>(gt, off). (''lupine_smemcpy_atomic_2d_'' @ to_decimal off @ ''_'' @ to_decimal gt,
                        Smemcpy_atomic_2d (of_nat off) (of_nat gt)))
       (List.product [4, 8, 16] [0, 1, 2, 3]) @
     map (\<lambda>(gt, w, off). (''lupine_smemcpy_atomic_rows_'' @ to_decimal w @ ''_'' @ to_decimal off @ ''_'' @ to_decimal gt,
                           Smemcpy_atomic_rows (of_nat w) (of_nat off) (of_nat gt)))
       (List.product [4, 8, 16] [(2, 0), (2, 1), (2, 2), (3, 0), (3, 1)])"

definition runtime_kernel :: "launch_descriptor \<Rightarrow> kernel_function option" where
  "runtime_kernel d =
     (case lupine_smemcpy_kernel_name (Some d) of None \<Rightarrow> None | Some name \<Rightarrow> map_of kKernels name)"

section \<open>The runtime front end\<close>

definition cudaErrorInvalidValue :: int where "cudaErrorInvalidValue = 1"
definition cudaErrorInvalidDeviceFunction :: int where "cudaErrorInvalidDeviceFunction = 98"

record smemcpy_launch =
  prepared_params :: smemcpy_params
  plain_copy :: bool
  kernel_entry :: "kernel_function option"
  launch_blocks :: u32
  launch_threads :: u32

text \<open>What the runtime answers: the current device, and its capability and name.\<close>

record runtime_answers =
  get_device :: "int \<times> int"
  get_properties :: "int \<Rightarrow> int \<times> int \<times> int \<times> string"

definition finish_launch :: "launch_descriptor \<Rightarrow> int + smemcpy_launch" where
  "finish_launch d =
     (let launch = \<lparr>prepared_params = params d, plain_copy = use_cuda_memcpy d, kernel_entry = runtime_kernel d,
                    launch_blocks = blocks d, launch_threads = threads d\<rparr>
      in if blocks d \<noteq> 0 \<and> \<not> use_cuda_memcpy d \<and> kernel_entry launch = None
         then Inl cudaErrorInvalidDeviceFunction else Inr launch)"

definition lupine_smemcpy_prepare_launch ::
  "runtime_answers \<Rightarrow> smemcpy_params option \<Rightarrow> bool \<Rightarrow> int + smemcpy_launch" where
  "lupine_smemcpy_prepare_launch runtime ps launch_given =
     (if \<not> launch_given then Inl cudaErrorInvalidValue
      else case lupine_smemcpy_prepare_descriptor ps None True of
        Inl e \<Rightarrow> Inl e
      | Inr d \<Rightarrow>
          (case ps of None \<Rightarrow> finish_launch d | Some p \<Rightarrow>
           if bytes p \<noteq> 0 \<and> width p \<le> 3 \<and> \<not> use_cuda_memcpy d
           then let (result, device) = get_device runtime in
             if result \<noteq> CUDA_SUCCESS then Inl result
             else let (result, mj, mn, name) = get_properties runtime device in
               if result \<noteq> CUDA_SUCCESS then Inl result
               else (case lupine_smemcpy_prepare_descriptor ps
                            (Some \<lparr>major = mj, minor = mn, is_l4 = (mj = 8 \<and> mn = 9 \<and> name = ''NVIDIA L4'')\<rparr>) True of
                       Inl e \<Rightarrow> Inl e
                     | Inr d' \<Rightarrow> finish_launch d')
           else finish_launch d))"

text \<open>What a scatter copy enqueues on its stream.\<close>

datatype stream_work = Nothing_To_Do | Native_Copy deviceptr deviceptr u64
  | Kernel_Launch "kernel_function option" u32 u32 smemcpy_params

definition lupine_smemcpy_async :: "runtime_answers \<Rightarrow> smemcpy_params option \<Rightarrow> int + stream_work" where
  "lupine_smemcpy_async runtime ps =
     (case lupine_smemcpy_prepare_launch runtime ps True of
        Inl e \<Rightarrow> Inl e
      | Inr launch \<Rightarrow>
          if plain_copy launch
          then Inr (Native_Copy (destination (prepared_params launch)) (source (prepared_params launch))
                      (bytes (prepared_params launch)))
          else if launch_blocks launch = 0 then Inr Nothing_To_Do
          else Inr (Kernel_Launch (kernel_entry launch) (launch_blocks launch) (launch_threads launch)
                      (prepared_params launch)))"

section \<open>Running a launch\<close>

definition load_word :: "memory \<Rightarrow> deviceptr \<Rightarrow> u32" where
  "load_word m a = ucast (m a) OR push_bit 8 (ucast (m (a + 1))) OR push_bit 16 (ucast (m (a + 2)))
                   OR push_bit 24 (ucast (m (a + 3)))"

definition store_word :: "deviceptr \<Rightarrow> u32 \<Rightarrow> memory \<Rightarrow> memory" where
  "store_word a v m = m(a := ucast v, a + 1 := ucast (drop_bit 8 v), a + 2 := ucast (drop_bit 16 v),
                        a + 3 := ucast (drop_bit 24 v))"

definition copy_bytes :: "memory \<Rightarrow> deviceptr \<Rightarrow> deviceptr \<Rightarrow> nat \<Rightarrow> memory \<Rightarrow> memory" where
  "copy_bytes src d s n m = fold (\<lambda>j m. m(d + of_nat j := src (s + of_nat j))) [0..<n] m"

definition replacement :: "u32 \<Rightarrow> u32 \<Rightarrow> u32 \<Rightarrow> u32" where
  "replacement mask_bits v old = (old AND NOT mask_bits) OR v"

text \<open>
  One access of one thread. The load before a compare-and-swap loop and each attempt
  are separate steps, so other threads may change the word in between; an attempt
  that finds another value than expected tries again with this value.
\<close>

inductive gpu_step :: "memory \<Rightarrow> access list list \<times> memory \<Rightarrow> access list list \<times> memory \<Rightarrow> bool"
  for src :: memory where
  gpu_put: "\<lbrakk>i < length ts; ts ! i = Put d v # rest\<rbrakk> \<Longrightarrow> gpu_step src (ts, m) (ts[i := rest], m(d := v))"
| gpu_vector: "\<lbrakk>i < length ts; ts ! i = Put_Word d s n # rest\<rbrakk>
    \<Longrightarrow> gpu_step src (ts, m) (ts[i := rest], copy_bytes src d s n m)"
| gpu_load: "\<lbrakk>i < length ts; ts ! i = Load_Word a k v # rest\<rbrakk>
    \<Longrightarrow> gpu_step src (ts, m) (ts[i := Cas a k v (load_word m a) # rest], m)"
| gpu_cas: "\<lbrakk>i < length ts; ts ! i = Cas a k v old # rest; load_word m a = old\<rbrakk>
    \<Longrightarrow> gpu_step src (ts, m) (ts[i := rest], store_word a (replacement k v old) m)"
| gpu_retry: "\<lbrakk>i < length ts; ts ! i = Cas a k v old # rest; load_word m a \<noteq> old\<rbrakk>
    \<Longrightarrow> gpu_step src (ts, m) (ts[i := Cas a k v (load_word m a) # rest], m)"

definition threads_of :: "u32 \<Rightarrow> u32 \<Rightarrow> thread_id list" where
  "threads_of grid block =
     map (\<lambda>(b, t). \<lparr>gridDim = grid, blockDim = block, blockIdx = of_nat b, threadIdx = of_nat t\<rparr>)
       (List.product [0..<unat grid] [0..<unat block])"

definition kernel_threads :: "memory \<Rightarrow> kernel_function \<Rightarrow> u32 \<Rightarrow> u32 \<Rightarrow> smemcpy_params \<Rightarrow> access list list option" where
  "kernel_threads src f grid block p = those (map (kernel_body f src p) (threads_of grid block))"

text \<open>
  The memories a piece of work may leave behind. A launch without a kernel is the
  launch of a null pointer, which the runtime refuses.
\<close>

definition work_result :: "memory \<Rightarrow> stream_work \<Rightarrow> memory \<Rightarrow> memory \<Rightarrow> bool" where
  "work_result src work m m' =
     (case work of
        Nothing_To_Do \<Rightarrow> m' = m
      | Native_Copy d s n \<Rightarrow> m' = copy_bytes src d s (unat n) m
      | Kernel_Launch None grid block p \<Rightarrow> False
      | Kernel_Launch (Some f) grid block p \<Rightarrow>
          (\<exists>ts ts'. kernel_threads src f grid block p = Some ts \<and>
             reachable (\<lambda>state. state = (ts, m)) (gpu_step src) (ts', m') \<and> (\<forall>t \<in> set ts'. t = [])))"

end
