(* ===== verification/Smemcpy_Runs.thy ===== *)
theory Smemcpy_Runs
  imports Smemcpy_Kernels
begin

text \<open>
  Runs of a kernel launch: what each access does to the memory, an invariant of the
  interleaved threads, the termination of every interleaving, and the memory that is
  left when all threads have ended.
\<close>

section \<open>Effects of accesses\<close>

definition masked_bytes :: "deviceptr \<Rightarrow> u32 \<Rightarrow> u32 \<Rightarrow> (deviceptr \<times> u8) list" where
  "masked_bytes a k v =
     map (\<lambda>j. (a + of_nat j, ucast (drop_bit (8 * j) v))) (filter (\<lambda>j. bit k (8 * j)) [0..<4])"

fun access_writes :: "memory \<Rightarrow> access \<Rightarrow> (deviceptr \<times> u8) list" where
  "access_writes src (Put d v) = [(d, v)]"
| "access_writes src (Put_Word d s n) = map (\<lambda>j. (d + of_nat j, src (s + of_nat j))) [0..<n]"
| "access_writes src (Load_Word a k v) = masked_bytes a k v"
| "access_writes src (Cas a k v old) = masked_bytes a k v"

text \<open>The mask selects whole bytes and the value has no bits outside the mask.\<close>

definition mask_ok :: "u32 \<Rightarrow> u32 \<Rightarrow> bool" where
  "mask_ok k v = ((\<forall>i < 32. bit k i = bit k (8 * (i div 8))) \<and> (\<forall>i < 32. bit v i \<longrightarrow> bit k i))"

definition aligned :: "nat \<Rightarrow> deviceptr \<Rightarrow> bool" where
  "aligned n a = (unat a mod n = 0)"

text \<open>The device faults on a vector or word access that is not naturally aligned.\<close>

fun access_aligned :: "access \<Rightarrow> bool" where
  "access_aligned (Put d v) = True"
| "access_aligned (Put_Word d s n) = (n \<in> {2, 4, 8, 16} \<and> aligned n d \<and> aligned n s)"
| "access_aligned (Load_Word a k v) = aligned 4 a"
| "access_aligned (Cas a k v old) = aligned 4 a"

fun access_masked :: "access \<Rightarrow> bool" where
  "access_masked (Put d v) = True"
| "access_masked (Put_Word d s n) = True"
| "access_masked (Load_Word a k v) = mask_ok k v"
| "access_masked (Cas a k v old) = mask_ok k v"

definition access_ok :: "access \<Rightarrow> bool" where
  "access_ok c = (access_aligned c \<and> access_masked c)"

definition apply_writes :: "(deviceptr \<times> u8) list \<Rightarrow> memory \<Rightarrow> memory" where
  "apply_writes ws m = fold (\<lambda>(a, v) m. m(a := v)) ws m"

lemma apply_writes_agree:
  assumes "\<forall>(a, v) \<in> set ws. g a = Some v"
  shows "apply_writes ws m x = (if x \<in> fst ` set ws then the (g x) else m x)"
proof -
  have "fold (\<lambda>(a, v) m. m(a := v)) ws m x = (if x \<in> fst ` set ws then the (g x) else m x)" for m
    using assms
  proof (induction ws arbitrary: m)
    case Nil then show ?case by simp
  next
    case (Cons w ws)
    obtain a v where w: "w = (a, v)" by (cases w)
    have "g a = Some v" and "\<forall>(a, v) \<in> set ws. g a = Some v" using Cons.prems w by auto
    then show ?case using Cons.IH [of "m(a := v)"] w by auto
  qed
  then show ?thesis by (simp add: apply_writes_def)
qed

lemma copy_bytes_writes: "copy_bytes src d s n m = apply_writes (access_writes src (Put_Word d s n)) m"
  by (simp add: copy_bytes_def apply_writes_def fold_map comp_def)

lemma unat_byte_index: "j < 4 \<Longrightarrow> unat (of_nat j :: deviceptr) = j"
  by (simp add: unat_of_nat take_bit_nat_eq_self)

lemma upt_4: "[0..<4] = [0, 1, 2, 3 :: nat]"
  by (simp add: upt_rec)

lemma store_word_fold: "store_word a w m = apply_writes (map (\<lambda>j. (a + of_nat j, ucast (drop_bit (8 * j) w))) [0..<4]) m"
  by (simp add: store_word_def apply_writes_def upt_4)

lemma load_word_byte:
  assumes "j < 4"
  shows "ucast (drop_bit (8 * j) (load_word m a)) = m (a + of_nat j)"
proof (rule bit_eqI)
  fix n assume "possible_bit TYPE(u8) n"
  then have n: "n < 8" by simp
  have high: "\<not> bit (m x) i" if "8 \<le> i" for x i using that by (simp add: bit_word.rep_eq not_less)
  consider "j = 0" | "j = 1" | "j = 2" | "j = 3" using assms by linarith
  then show "bit (ucast (drop_bit (8 * j) (load_word m a)) :: u8) n = bit (m (a + of_nat j)) n"
    by cases (use n in \<open>simp_all add: load_word_def bit_simps high\<close>)
qed

lemma replacement_byte:
  assumes "mask_ok k v" and "j < 4"
  shows "(ucast (drop_bit (8 * j) (replacement k v old)) :: u8)
           = (if bit k (8 * j) then ucast (drop_bit (8 * j) v) else ucast (drop_bit (8 * j) old))"
proof (rule bit_eqI)
  fix n assume "possible_bit TYPE(u8) n"
  then have n: "n < 8" by simp
  have lt: "8 * j + n < 32" using n assms(2) by simp
  have "bit k (8 * j + n) = bit k (8 * ((8 * j + n) div 8))"
    using assms(1) lt unfolding mask_ok_def by blast
  also have "(8 * j + n) div 8 = j" using n by simp
  finally have k: "bit k (8 * j + n) = bit k (8 * j)" .
  moreover have "bit v (8 * j + n) \<longrightarrow> bit k (8 * j + n)" using assms(1) lt unfolding mask_ok_def by blast
  ultimately show "bit (ucast (drop_bit (8 * j) (replacement k v old)) :: u8) n
      = bit (if bit k (8 * j) then ucast (drop_bit (8 * j) v) else ucast (drop_bit (8 * j) old) :: u8) n"
    using n lt by (auto simp: replacement_def bit_simps)
qed

text \<open>A successful compare-and-swap changes the bytes of its mask and no others.\<close>

lemma cas_effect:
  assumes "mask_ok k v"
  shows "store_word a (replacement k v (load_word m a)) m = apply_writes (masked_bytes a k v) m"
proof
  fix x
  define w where "w = replacement k v (load_word m a)"
  define g where "g = (\<lambda>x. Some (ucast (drop_bit (8 * unat (x - a)) w) :: u8))"
  have g: "g (a + of_nat j) = Some (ucast (drop_bit (8 * j) w))" if "j < 4" for j
    using unat_byte_index [OF that] by (simp add: g_def)
  have w: "(ucast (drop_bit (8 * j) w) :: u8)
      = (if bit k (8 * j) then ucast (drop_bit (8 * j) v) else m (a + of_nat j))" if "j < 4" for j
    using replacement_byte [OF assms that, of "load_word m a"] load_word_byte [OF that, of m a] by (simp add: w_def)
  have all: "store_word a w m x = (if x \<in> (\<lambda>j. a + of_nat j) ` {0..<4} then the (g x) else m x)"
    unfolding store_word_fold
    by (subst apply_writes_agree [where g = g]) (simp_all add: g image_image)
  have sel: "apply_writes (masked_bytes a k v) m x
      = (if x \<in> (\<lambda>j. a + of_nat j) ` {j \<in> {0..<4}. bit k (8 * j)} then the (g x) else m x)"
    by (subst apply_writes_agree [where g = g]) (simp_all add: masked_bytes_def g w image_image)
  have rest: "the (g x) = m x" if j: "j < 4" "x = a + of_nat j" "\<not> bit k (8 * j)" for j
    using g [OF j(1)] w [OF j(1)] j(2,3) by simp
  show "store_word a (replacement k v (load_word m a)) m x = apply_writes (masked_bytes a k v) m x"
  proof (cases "\<exists>j < 4. x = a + of_nat j \<and> \<not> bit k (8 * j)")
    case True
    then have "the (g x) = m x" using rest by blast
    then show ?thesis unfolding w_def [symmetric] all sel by simp
  next
    case False
    then have "x \<in> (\<lambda>j. a + of_nat j) ` {0..<4} \<longleftrightarrow> x \<in> (\<lambda>j. a + of_nat j) ` {j \<in> {0..<4}. bit k (8 * j)}"
      by auto
    then show ?thesis unfolding w_def [symmetric] all sel by simp
  qed
qed

section \<open>Interleaved threads\<close>

text \<open>
  A plan says which byte each address is to hold. The accesses of a launch follow a
  plan when they store what it says; they cover it when each planned byte is stored.
\<close>

definition follows :: "memory \<Rightarrow> (deviceptr \<Rightarrow> u8 option) \<Rightarrow> access \<Rightarrow> bool" where
  "follows src plan c = (access_ok c \<and> (\<forall>(a, v) \<in> set (access_writes src c). plan a = Some v))"

definition pending :: "memory \<Rightarrow> access list list \<Rightarrow> deviceptr set" where
  "pending src ts = {a. \<exists>t \<in> set ts. \<exists>c \<in> set t. a \<in> fst ` set (access_writes src c)}"

definition plan_init :: "memory \<Rightarrow> (deviceptr \<Rightarrow> u8 option) \<Rightarrow> memory \<Rightarrow> access list list \<times> memory \<Rightarrow> bool" where
  "plan_init src plan m0 state = (case state of (ts, m) \<Rightarrow>
     m = m0 \<and> (\<forall>t \<in> set ts. list_all (follows src plan) t) \<and> dom plan \<subseteq> pending src ts)"

definition plan_inv :: "memory \<Rightarrow> (deviceptr \<Rightarrow> u8 option) \<Rightarrow> memory \<Rightarrow> access list list \<times> memory \<Rightarrow> bool" where
  "plan_inv src plan m0 state = (case state of (ts, m) \<Rightarrow>
     (\<forall>t \<in> set ts. list_all (follows src plan) t) \<and>
     (\<forall>a. plan a = None \<longrightarrow> m a = m0 a) \<and>
     (\<forall>a v. plan a = Some v \<longrightarrow> m a = v \<or> a \<in> pending src ts))"

lemma pending_nth:
  "a \<in> pending src ts \<longleftrightarrow> (\<exists>k < length ts. \<exists>c \<in> set (ts ! k). a \<in> fst ` set (access_writes src c))"
proof -
  have "(\<exists>t \<in> set ts. P t) \<longleftrightarrow> (\<exists>k < length ts. P (ts ! k))" for P by (metis in_set_conv_nth)
  then show ?thesis by (simp only: pending_def mem_Collect_eq)
qed

lemma pending_update:
  assumes "i < length ts" and "ts ! i = c # rest"
  shows "pending src ts \<subseteq> pending src (ts[i := rest]) \<union> fst ` set (access_writes src c)"
proof
  fix a assume "a \<in> pending src ts"
  then obtain k d where k: "k < length ts" "d \<in> set (ts ! k)" "a \<in> fst ` set (access_writes src d)"
    unfolding pending_nth by blast
  show "a \<in> pending src (ts[i := rest]) \<union> fst ` set (access_writes src c)"
  proof (cases "k = i \<and> d = c")
    case True then show ?thesis using k by simp
  next
    case False
    then have "d \<in> set (ts[i := rest] ! k)" using k(1,2) assms by (cases "k = i") auto
    moreover have "ts[i := rest] ! k \<in> set (ts[i := rest])" using k(1) by simp
    ultimately show ?thesis using k(3) by (auto simp: pending_def)
  qed
qed

lemma list_all_update:
  assumes "\<forall>t \<in> set ts. list_all P t" and "i < length ts" and "ts ! i = c # rest"
  shows "P c" and "\<forall>t \<in> set (ts[i := rest]). list_all P t"
    and "P c' \<Longrightarrow> \<forall>t \<in> set (ts[i := c' # rest]). list_all P t"
proof -
  have "list_all P (c # rest)" using assms by (metis nth_mem)
  then show "P c" and "\<forall>t \<in> set (ts[i := rest]). list_all P t"
    and "P c' \<Longrightarrow> \<forall>t \<in> set (ts[i := c' # rest]). list_all P t"
    using assms(1) by (auto dest: set_update_subset_insert [THEN subsetD])
qed

text \<open>Performing an access keeps the invariant.\<close>

lemma plan_inv_perform:
  assumes "plan_inv src plan m0 (ts, m)" and "i < length ts" and "ts ! i = c # rest"
  shows "plan_inv src plan m0 (ts[i := rest], apply_writes (access_writes src c) m)"
proof -
  have inv: "\<forall>t \<in> set ts. list_all (follows src plan) t" "\<And>a. plan a = None \<Longrightarrow> m a = m0 a"
      "\<And>a v. plan a = Some v \<Longrightarrow> m a = v \<or> a \<in> pending src ts"
    using assms(1) by (auto simp: plan_inv_def)
  have c: "\<forall>(a, v) \<in> set (access_writes src c). plan a = Some v"
    using list_all_update(1) [OF inv(1) assms(2,3)] by (simp add: follows_def)
  note m' = apply_writes_agree [OF c, of m]
  have "apply_writes (access_writes src c) m a = m0 a" if "plan a = None" for a
    using that inv(2) [OF that] c by (auto simp: m')
  moreover have "apply_writes (access_writes src c) m a = v \<or> a \<in> pending src (ts[i := rest])"
    if "plan a = Some v" for a v
    using inv(3) [OF that] pending_update [OF assms(2,3), of src] that by (auto simp: m')
  ultimately show ?thesis
    using list_all_update(2) [OF inv(1) assms(2,3)] by (auto simp: plan_inv_def)
qed

text \<open>Moving between the phases of an atomic update keeps it, too.\<close>

lemma plan_inv_rephase:
  assumes "plan_inv src plan m0 (ts, m)" and "i < length ts" and "ts ! i = c # rest"
    and "access_writes src c' = access_writes src c" and "access_ok c' = access_ok c"
  shows "plan_inv src plan m0 (ts[i := c' # rest], m)"
proof -
  have inv: "\<forall>t \<in> set ts. list_all (follows src plan) t" "\<And>a. plan a = None \<Longrightarrow> m a = m0 a"
      "\<And>a v. plan a = Some v \<Longrightarrow> m a = v \<or> a \<in> pending src ts"
    using assms(1) by (auto simp: plan_inv_def)
  have "follows src plan c'"
    using list_all_update(1) [OF inv(1) assms(2,3)] assms(4,5) by (simp add: follows_def)
  then have "\<forall>t \<in> set (ts[i := c' # rest]). list_all (follows src plan) t"
    by (rule list_all_update(3) [OF inv(1) assms(2,3)])
  moreover have "pending src ts \<subseteq> pending src (ts[i := c' # rest])"
  proof -
    have "pending src (ts[i := rest]) \<subseteq> pending src (ts[i := c' # rest])"
    proof
      fix a assume "a \<in> pending src (ts[i := rest])"
      then obtain k d where k: "k < length ts" "d \<in> set (ts[i := rest] ! k)" "a \<in> fst ` set (access_writes src d)"
        unfolding pending_nth length_list_update by blast
      then have "d \<in> set (ts[i := c' # rest] ! k)" by (cases "k = i") auto
      moreover have "ts[i := c' # rest] ! k \<in> set (ts[i := c' # rest])" using k(1) by simp
      ultimately show "a \<in> pending src (ts[i := c' # rest])" using k(3) by (auto simp: pending_def)
    qed
    moreover have "fst ` set (access_writes src c) \<subseteq> pending src (ts[i := c' # rest])"
    proof -
      have "c' # rest \<in> set (ts[i := c' # rest])" using assms(2) by (rule set_update_memI)
      moreover have "fst ` set (access_writes src c) = fst ` set (access_writes src c')" using assms(4) by simp
      ultimately show ?thesis unfolding pending_def by (metis (mono_tags, lifting) list.set_intros(1) mem_Collect_eq subsetI)
    qed
    ultimately show ?thesis using pending_update [OF assms(2,3), of src] by blast
  qed
  ultimately show ?thesis using inv(2,3) unfolding plan_inv_def by blast
qed

interpretation gk: step_invariant "plan_init src plan m0" "gpu_step src" "plan_inv src plan m0" for src plan m0
proof
  fix state :: "access list list \<times> memory"
  assume "plan_init src plan m0 state"
  then show "plan_inv src plan m0 state" by (auto simp: plan_init_def plan_inv_def)
next
  fix state state' :: "access list list \<times> memory"
  assume inv: "plan_inv src plan m0 state" and "gpu_step src state state'"
  from this(2) show "plan_inv src plan m0 state'"
  proof cases
    case (gpu_put i ts d v rest m)
    then show ?thesis using plan_inv_perform [of src plan m0 ts m i] inv by (simp add: apply_writes_def)
  next
    case (gpu_vector i ts d s n rest m)
    then show ?thesis
      using plan_inv_perform [of src plan m0 ts m i "Put_Word d s n"] inv by (simp only: copy_bytes_writes)
  next
    case (gpu_load i ts a k v rest m)
    then show ?thesis using plan_inv_rephase [of src plan m0 ts m i "Load_Word a k v"] inv by (simp add: access_ok_def)
  next
    case (gpu_cas i ts a k v old rest m)
    have "list_all (follows src plan) (Cas a k v old # rest)"
      using inv gpu_cas(1,3,4) nth_mem [of i ts] unfolding plan_inv_def by fastforce
    then have "mask_ok k v" by (simp add: follows_def access_ok_def)
    then show ?thesis
      using plan_inv_perform [of src plan m0 ts m i "Cas a k v old" rest] inv gpu_cas
      by (simp add: cas_effect [symmetric])
  next
    case (gpu_retry i ts a k v old rest m)
    then show ?thesis using plan_inv_rephase [of src plan m0 ts m i "Cas a k v old"] inv by (simp add: access_ok_def)
  qed
qed

text \<open>When all threads have ended, the memory holds the plan.\<close>

lemma plan_finished:
  assumes "plan_init src plan m0 (ts, m0)" and "reachable (\<lambda>state. state = (ts, m0)) (gpu_step src) (ts', m')"
    and "\<forall>t \<in> set ts'. t = []"
  shows "m' a = (case plan a of None \<Rightarrow> m0 a | Some v \<Rightarrow> v)"
proof -
  have "reachable (plan_init src plan m0) (gpu_step src) state"
    if "reachable (\<lambda>state. state = (ts, m0)) (gpu_step src) state" for state
    using that by (induction) (auto intro: reach_init reach_step simp: assms(1))
  then have "plan_inv src plan m0 (ts', m')" using assms(2) by (intro gk.inv_reachable) blast
  moreover have "pending src ts' = {}" using assms(3) by (auto simp: pending_def)
  ultimately show ?thesis by (auto simp: plan_inv_def split: option.splits)
qed

text \<open>
  Every interleaving ends. An access that is performed leaves fewer of them; a load
  or a failed attempt leaves as many, but its thread now expects the value the word
  holds, and this changes only when another access is performed.
\<close>

fun stale :: "memory \<Rightarrow> access list \<Rightarrow> bool" where
  "stale m (Cas a k v old # rest) = (load_word m a \<noteq> old)"
| "stale m t = True"

definition accesses_left :: "access list list \<times> memory \<Rightarrow> nat" where
  "accesses_left state = sum_list (map length (fst state))"

definition stale_threads :: "access list list \<times> memory \<Rightarrow> nat" where
  "stale_threads state = length (filter (stale (snd state)) (fst state))"

lemma sum_length_update:
  assumes "i < length ts" and "ts ! i = c # rest"
  shows "sum_list (map length (ts[i := rest])) < sum_list (map length ts)"
    and "sum_list (map length (ts[i := c' # rest])) = sum_list (map length ts)"
proof -
  have "sum_list (map length (ts[i := x])) + length (ts ! i) = sum_list (map length ts) + length x" for x
    using assms(1) by (induction ts arbitrary: i) (auto split: nat.splits)
  from this [of rest] this [of "c' # rest"]
  show "sum_list (map length (ts[i := rest])) < sum_list (map length ts)"
    and "sum_list (map length (ts[i := c' # rest])) = sum_list (map length ts)" using assms(2) by simp_all
qed

lemma stale_update:
  assumes "i < length ts" and "P (ts ! i)" and "\<not> P x"
  shows "length (filter P (ts[i := x])) < length (filter P ts)"
  using assms
proof (induction ts arbitrary: i)
  case (Cons t ts)
  then show ?case by (cases i) (auto intro: less_SucI)
qed simp

lemma gpu_step_measure:
  assumes "gpu_step src state state'"
  shows "(state', state) \<in> measures [accesses_left, stale_threads]"
  using assms
proof cases
  case (gpu_load i ts a k v rest m)
  then show ?thesis
    using sum_length_update(2) [of i ts] stale_update [of i ts "stale m" "Cas a k v (load_word m a) # rest"]
    by (simp add: accesses_left_def stale_threads_def)
next
  case (gpu_retry i ts a k v old rest m)
  then show ?thesis
    using sum_length_update(2) [of i ts] stale_update [of i ts "stale m" "Cas a k v (load_word m a) # rest"]
    by (simp add: accesses_left_def stale_threads_def)
qed (simp_all add: accesses_left_def sum_length_update)

lemma gpu_step_terminates: "wfp (gpu_step src)\<inverse>\<inverse>"
  unfolding wfp_def
proof (rule wf_subset)
  show "{(x, y). (gpu_step src)\<inverse>\<inverse> x y} \<subseteq> measures [accesses_left, stale_threads]"
    using gpu_step_measure by auto
qed simp

lemma gpu_step_progress:
  assumes "\<exists>t \<in> set ts. t \<noteq> []"
  shows "\<exists>state. gpu_step src (ts, m) state"
proof -
  obtain i where i: "i < length ts" "ts ! i \<noteq> []" using assms by (auto simp: in_set_conv_nth)
  then obtain c rest where c: "ts ! i = c # rest" by (cases "ts ! i") auto
  show ?thesis
  proof (cases c)
    case (Cas a k v old)
    then show ?thesis using i c gpu_cas [of i ts a k v old rest m src] gpu_retry [of i ts a k v old rest m src] by blast
  qed (use i c gpu_step.intros [of i ts] in blast)+
qed

lemma gpu_run_ends:
  "\<exists>ts' m'. reachable (\<lambda>state. state = start) (gpu_step src) (ts', m') \<and> (\<forall>t \<in> set ts'. t = [])"
proof -
  have "\<exists>ts' m'. reachable (\<lambda>s. s = start) (gpu_step src) (ts', m') \<and> (\<forall>t \<in> set ts'. t = [])"
    if "reachable (\<lambda>s. s = start) (gpu_step src) state" for state
    using that
  proof (induction state rule: wfp_induct_rule [OF gpu_step_terminates [of src]])
    case (1 state)
    obtain ts m where state: "state = (ts, m)" by (cases state)
    show ?case
    proof (cases "\<forall>t \<in> set ts. t = []")
      case True then show ?thesis using 1(2) state by blast
    next
      case False
      then obtain next_state where "gpu_step src state next_state" using gpu_step_progress state by blast
      then show ?thesis using 1(1) [of next_state] reach_step [OF 1(2)] by simp
    qed
  qed
  then show ?thesis using reach_init [of "\<lambda>s. s = start" start "gpu_step src"] by blast
qed

lemma plan_result:
  assumes "plan_init src plan m0 (ts, m0)"
  shows "(\<exists>ts'. reachable (\<lambda>state. state = (ts, m0)) (gpu_step src) (ts', m') \<and> (\<forall>t \<in> set ts'. t = []))
           \<longleftrightarrow> m' = (\<lambda>a. case plan a of None \<Rightarrow> m0 a | Some v \<Rightarrow> v)"
    (is "?run m' \<longleftrightarrow> m' = ?m")
proof -
  have det: "x = ?m" if "?run x" for x
    using that plan_finished [OF assms] by (intro ext) blast
  obtain ts' x where "reachable (\<lambda>state. state = (ts, m0)) (gpu_step src) (ts', x)" "\<forall>t \<in> set ts'. t = []"
    using gpu_run_ends [of "(ts, m0)" src] by blast
  then have "?run x" by blast
  then show ?thesis using det [of x] det [of m'] by blast
qed

text \<open>An address no access touches keeps its byte.\<close>

lemma gpu_frame:
  assumes "reachable (\<lambda>state. state = (ts0, m0)) (gpu_step src) state"
    and "\<forall>t \<in> set ts0. list_all (\<lambda>c. access_masked c \<and> a \<notin> fst ` set (access_writes src c)) t"
  shows "(\<forall>t \<in> set (fst state). list_all (\<lambda>c. access_masked c \<and> a \<notin> fst ` set (access_writes src c)) t) \<and> snd state a = m0 a"
  using assms(1)
proof (induction rule: reachable.induct)
  case (reach_init state)
  then show ?case using assms(2) by simp
next
  case (reach_step state state')
  let ?P = "\<lambda>c. access_masked c \<and> a \<notin> fst ` set (access_writes src c)"
  have untouched: "apply_writes (access_writes src c) m a = m a" if "?P c" for c m
  proof -
    have "a \<notin> fst ` set ws \<Longrightarrow> fold (\<lambda>(a, v) m. m(a := v)) ws m a = m a" for ws and m :: memory
      by (induction ws arbitrary: m) auto
    then show ?thesis using that by (simp add: apply_writes_def)
  qed
  have inv: "\<forall>t \<in> set (fst state). list_all ?P t" "snd state a = m0 a" using reach_step.IH by blast+
  from reach_step.hyps(2) show ?case
  proof cases
    case (gpu_put i ts d v rest m)
    note u = list_all_update [OF inv(1) [unfolded gpu_put(1) fst_conv] gpu_put(3,4)]
    then show ?thesis using gpu_put inv(2) u(2) by auto
  next
    case (gpu_vector i ts d s n rest m)
    note u = list_all_update [OF inv(1) [unfolded gpu_vector(1) fst_conv] gpu_vector(3,4)]
    show ?thesis unfolding gpu_vector(2) fst_conv snd_conv copy_bytes_writes
      using u(2) untouched [OF u(1)] inv(2) gpu_vector(1) by simp
  next
    case (gpu_load i ts b k v rest m)
    note u = list_all_update [OF inv(1) [unfolded gpu_load(1) fst_conv] gpu_load(3,4)]
    show ?thesis unfolding gpu_load(2) fst_conv snd_conv
      using u(1) u(3) [of "Cas b k v (load_word m b)"] inv(2) gpu_load(1) by simp
  next
    case (gpu_cas i ts b k v old rest m)
    note u = list_all_update [OF inv(1) [unfolded gpu_cas(1) fst_conv] gpu_cas(3,4)]
    have "mask_ok k v" using u(1) by simp
    then show ?thesis unfolding gpu_cas(2) fst_conv snd_conv
      using u(2) untouched [OF u(1), of m] inv(2) gpu_cas(1) cas_effect [of k v b m] by (simp add: gpu_cas(5) [symmetric])
  next
    case (gpu_retry i ts b k v old rest m)
    note u = list_all_update [OF inv(1) [unfolded gpu_retry(1) fst_conv] gpu_retry(3,4)]
    show ?thesis unfolding gpu_retry(2) fst_conv snd_conv
      using u(1) u(3) [of "Cas b k v (load_word m b)"] inv(2) gpu_retry(1) by simp
  qed
qed

end
