(* ===== verification/Smemcpy_Correct.thy ===== *)
theory Smemcpy_Correct
  imports Smemcpy_Runs
begin

text \<open>
  Correctness of the scatter copy: whatever implementation the dispatcher selects,
  every interleaving of its threads ends, and ends with the memory of the reference,
  which stores byte after byte at its coordinate.
\<close>

section \<open>The reference\<close>

definition scatter :: "memory \<Rightarrow> smemcpy_params \<Rightarrow> memory \<Rightarrow> memory" where
  "scatter src p m =
     fold (\<lambda>i m. m(destination_at p (logical_offset p + of_nat i) := src (source p + of_nat i))) [0..<unat (bytes p)] m"

text \<open>No two bytes of the fragment have the same coordinate.\<close>

definition distinct_coordinates :: "smemcpy_params \<Rightarrow> bool" where
  "distinct_coordinates p = distinct (map (\<lambda>i. destination_at p (logical_offset p + of_nat i)) [0..<unat (bytes p)])"

section \<open>Covering the fragment\<close>

definition planned :: "memory \<Rightarrow> smemcpy_params \<Rightarrow> nat \<Rightarrow> deviceptr \<times> u8" where
  "planned src p i = (destination_at p (logical_offset p + of_nat i), src (source p + of_nat i))"

text \<open>The accesses store exactly the bytes of some indices.\<close>

definition covers :: "memory \<Rightarrow> smemcpy_params \<Rightarrow> nat set \<Rightarrow> access list \<Rightarrow> bool" where
  "covers src p I cs = (list_all access_ok cs \<and> (\<Union>c \<in> set cs. set (access_writes src c)) = planned src p ` I)"

lemma covers_Nil [simp]: "covers src p {} []"
  by (simp add: covers_def)

lemma covers_append: "covers src p I xs \<Longrightarrow> covers src p J ys \<Longrightarrow> covers src p (I \<union> J) (xs @ ys)"
  by (auto simp: covers_def image_Un)

lemma covers_concat:
  "(\<And>x. x \<in> set xs \<Longrightarrow> covers src p (I x) (f x)) \<Longrightarrow> covers src p (\<Union>x \<in> set xs. I x) (concat (map f xs))"
  by (induction xs) (auto intro: covers_append)

lemma scatter_plan:
  assumes "distinct_coordinates p"
  shows "scatter src p m = (\<lambda>a. case map_of (map (planned src p) [0..<unat (bytes p)]) a of None \<Rightarrow> m a | Some v \<Rightarrow> v)"
proof -
  let ?ws = "map (planned src p) [0..<unat (bytes p)]"
  have d: "distinct (map fst ?ws)" using assms by (simp add: distinct_coordinates_def planned_def comp_def)
  have "scatter src p m = apply_writes ?ws m"
    by (simp add: scatter_def apply_writes_def fold_map planned_def comp_def)
  moreover have "\<forall>(a, v) \<in> set ?ws. map_of ?ws a = Some v" using d by (auto intro: map_of_is_SomeI)
  ultimately have "scatter src p m a = (if a \<in> fst ` set ?ws then the (map_of ?ws a) else m a)" for a
    using apply_writes_agree [of ?ws "map_of ?ws" m a] by simp
  moreover have "a \<in> fst ` set ?ws \<longleftrightarrow> map_of ?ws a \<noteq> None" for a by (simp add: map_of_eq_None_iff)
  ultimately show ?thesis by (intro ext) (auto split: option.splits)
qed

text \<open>
  A launch is correct when its threads are defined, all their accesses are aligned,
  and the memory every interleaving leaves is that of the reference.
\<close>

definition correct_launch :: "memory \<Rightarrow> smemcpy_params \<Rightarrow> kernel_function \<Rightarrow> u32 \<Rightarrow> smemcpy_params \<Rightarrow> bool" where
  "correct_launch src p f grid q =
     ((\<exists>ts. kernel_threads src f grid kThreadsPerBlock q = Some ts \<and> (\<forall>t \<in> set ts. list_all access_aligned t)) \<and>
      (\<forall>m m'. work_result src (Kernel_Launch (Some f) grid kThreadsPerBlock q) m m' \<longleftrightarrow> m' = scatter src p m))"

lemma those_map_all:
  assumes "\<And>x. x \<in> set xs \<Longrightarrow> \<exists>y. f x = Some y \<and> P y"
  shows "\<exists>ys. those (map f xs) = Some ys \<and> (\<forall>y \<in> set ys. P y)"
  using assms
proof (induction xs)
  case (Cons x xs)
  obtain y where "f x = Some y" "P y" using Cons.prems [of x] by auto
  moreover obtain ys where "those (map f xs) = Some ys" "\<forall>y \<in> set ys. P y" using Cons.IH Cons.prems by auto
  ultimately show ?case by simp
qed simp

lemma launch_scatters:
  assumes "distinct_coordinates p"
    and body: "\<And>g. g \<in> set (threads_of grid kThreadsPerBlock) \<Longrightarrow> \<exists>t. kernel_body f src q g = Some t \<and> covers src p (I g) t"
    and all: "(\<Union>g \<in> set (threads_of grid kThreadsPerBlock). I g) = {..<unat (bytes p)}"
  shows "correct_launch src p f grid q"
proof -
  let ?gs = "threads_of grid kThreadsPerBlock"
  let ?ws = "map (planned src p) [0..<unat (bytes p)]"
  define T where "T g = (SOME t. kernel_body f src q g = Some t \<and> covers src p (I g) t)" for g
  have T: "kernel_body f src q g = Some (T g)" "covers src p (I g) (T g)" if "g \<in> set ?gs" for g
    using someI_ex [OF body [OF that]] by (auto simp: T_def)
  have "those (map (kernel_body f src q) gs) = Some (map T gs)" if "set gs \<subseteq> set ?gs" for gs
    using that T(1) by (induction gs) auto
  then have ts: "kernel_threads src f grid kThreadsPerBlock q = Some (map T ?gs)" by (simp add: kernel_threads_def)
  have d: "distinct (map fst ?ws)" using assms(1) by (simp add: distinct_coordinates_def planned_def comp_def)
  have in_plan: "map_of ?ws a = Some v" if "(a, v) \<in> planned src p ` I g" "g \<in> set ?gs" for a v g
  proof -
    have "I g \<subseteq> {..<unat (bytes p)}" using all that(2) by blast
    then have "(a, v) \<in> set ?ws" using that(1) by auto
    then show ?thesis using d by (rule map_of_is_SomeI [rotated])
  qed
  have follow: "list_all (follows src (map_of ?ws)) (T g)" if "g \<in> set ?gs" for g
    using T(2) [OF that] in_plan [OF _ that] unfolding covers_def follows_def list_all_iff by blast
  have "a \<in> pending src (map T ?gs)" if dom: "a \<in> dom (map_of ?ws)" for a
  proof -
    obtain i where i: "i < unat (bytes p)" "a = fst (planned src p i)"
      using dom by (auto simp: dom_map_of_conv_image_fst)
    then obtain g where g: "g \<in> set ?gs" "i \<in> I g" using all by blast
    then have "planned src p i \<in> (\<Union>c \<in> set (T g). set (access_writes src c))" using T(2) [OF g(1)] by (simp add: covers_def)
    then obtain c where "c \<in> set (T g)" "a \<in> fst ` set (access_writes src c)" using i(2) by blast
    then show ?thesis using g(1) by (auto simp: pending_def)
  qed
  then have "plan_init src (map_of ?ws) m (map T ?gs, m)" for m
    using follow by (auto simp: plan_init_def)
  note result = plan_result [OF this]
  moreover have "\<forall>t \<in> set (map T ?gs). list_all access_aligned t"
    using follow by (auto simp: follows_def access_ok_def list_all_iff)
  ultimately show ?thesis
    by (simp add: correct_launch_def work_result_def ts scatter_plan [OF assms(1)])
qed

section \<open>Threads and loops\<close>

lemma grid_loop_covers:
  assumes "unat bound + unat step \<le> 2 ^ 64" and "0 < step"
    and "\<And>k. unat index + k * unat step < unat bound \<Longrightarrow>
           covers src p (I (unat index + k * unat step)) (body (of_nat (unat index + k * unat step)))"
  shows "\<exists>t. grid_loop body index bound step = Some t \<and>
           covers src p (\<Union>k \<in> {k. unat index + k * unat step < unat bound}. I (unat index + k * unat step)) t"
  using assms(3)
proof (induction "unat bound - unat index" arbitrary: index rule: less_induct)
  case less
  show ?case
  proof (cases "index < bound")
    case False
    then have "{k. unat index + k * unat step < unat bound} = {}" by (auto simp: word_less_nat_alt)
    then show ?thesis using False by (subst grid_loop.simps) simp
  next
    case True
    then have lt: "unat index < unat bound" by (simp add: word_less_nat_alt)
    have pos: "0 < unat step" using assms(2) by (simp add: word_less_nat_alt)
    have idx: "unat (index + step) = unat index + unat step"
      using lt assms(1) by (intro unat_add_no_wrap) simp
    have shift: "unat (index + step) + k * unat step = unat index + Suc k * unat step" for k using idx by simp
    have "\<exists>t. grid_loop body (index + step) bound step = Some t \<and>
        covers src p (\<Union>k \<in> {k. unat (index + step) + k * unat step < unat bound}. I (unat (index + step) + k * unat step)) t"
    proof (rule less.hyps)
      show "unat bound - unat (index + step) < unat bound - unat index" using lt pos idx by simp
      show "covers src p (I (unat (index + step) + k * unat step)) (body (of_nat (unat (index + step) + k * unat step)))"
        if "unat (index + step) + k * unat step < unat bound" for k
        using less.prems [of "Suc k"] that unfolding shift .
    qed
    then obtain t where t: "grid_loop body (index + step) bound step = Some t"
      "covers src p (\<Union>k \<in> {k. unat index + Suc k * unat step < unat bound}. I (unat index + Suc k * unat step)) t"
      unfolding shift by blast
    have first: "covers src p (I (unat index)) (body index)" using less.prems [of 0] lt by simp
    have "(\<Union>k \<in> {k. unat index + k * unat step < unat bound}. I (unat index + k * unat step))
        = I (unat index) \<union> (\<Union>k \<in> {k. unat index + Suc k * unat step < unat bound}. I (unat index + Suc k * unat step))"
    proof -
      have "{k. unat index + k * unat step < unat bound} = insert 0 (Suc ` {k. unat index + Suc k * unat step < unat bound})"
        using lt by (auto simp: image_iff) (metis not0_implies_Suc mult_Suc)
      then show ?thesis by simp
    qed
    then show ?thesis using covers_append [OF first t(2)] t(1) True by (subst grid_loop.simps) simp
  qed
qed

lemma threads_of_range:
  assumes "unat grid \<le> 65535" and "g \<in> set (threads_of grid kThreadsPerBlock)"
  shows "unat (thread_of g) < 256 * unat grid" and "step_of g = of_nat (256 * unat grid)"
    and "unat (step_of g) = 256 * unat grid"
proof -
  obtain b t where bt: "b < unat grid" "t < 256" and g: "g = \<lparr>gridDim = grid, blockDim = 256, blockIdx = of_nat b, threadIdx = of_nat t\<rparr>"
    using assms(2) by (auto simp: threads_of_def kThreadsPerBlock_def)
  have b: "unat (of_nat b :: u32) = b" and t: "unat (of_nat t :: u32) = t"
    using bt assms(1) by (simp_all add: unat_of_nat take_bit_nat_eq_self)
  have "ucast (of_nat b :: u32) = (of_nat b :: u64)" "ucast (of_nat t :: u32) = (of_nat t :: u64)"
    using b t by (metis of_nat_unat)+
  then have thread: "thread_of g = of_nat (b * 256 + t)" by (simp add: thread_of_def g)
  have le: "b * 256 + t < 256 * unat grid" using bt by simp
  show "unat (thread_of g) < 256 * unat grid"
    unfolding thread using le assms(1) by (simp only: unat_of_nat) (simp add: take_bit_nat_eq_self)
  have "ucast grid = (of_nat (unat grid) :: u64)" by simp
  then show step: "step_of g = of_nat (256 * unat grid)" by (simp add: step_of_def g)
  show "unat (step_of g) = 256 * unat grid"
    unfolding step using assms(1) by (simp only: unat_of_nat) (simp add: take_bit_nat_eq_self)
qed

lemma threads_of_all:
  assumes "unat grid \<le> 65535" and "k < 256 * unat grid"
  shows "\<exists>g \<in> set (threads_of grid kThreadsPerBlock). unat (thread_of g) = k"
proof -
  let ?g = "\<lparr>gridDim = grid, blockDim = 256, blockIdx = of_nat (k div 256), threadIdx = of_nat (k mod 256)\<rparr> :: thread_id"
  have "k div 256 < unat grid" using assms(2) by (simp add: less_mult_imp_div_less mult.commute)
  then have "?g \<in> set (threads_of grid kThreadsPerBlock)" by (force simp: threads_of_def kThreadsPerBlock_def)
  moreover have "unat (thread_of ?g) = k"
  proof -
    have "unat (of_nat (k div 256) :: u32) = k div 256" "unat (of_nat (k mod 256) :: u32) = k mod 256"
      using assms by (simp_all add: unat_of_nat take_bit_nat_eq_self)
    then have "ucast (of_nat (k div 256) :: u32) = (of_nat (k div 256) :: u64)"
      "ucast (of_nat (k mod 256) :: u32) = (of_nat (k mod 256) :: u64)" by (metis of_nat_unat)+
    then have "thread_of ?g = of_nat (k div 256) * of_nat 256 + of_nat (k mod 256)" by (simp add: thread_of_def)
    also have "\<dots> = of_nat (k div 256 * 256 + k mod 256)" by (simp only: of_nat_mult of_nat_add)
    also have "\<dots> = of_nat k" by (simp only: div_mult_mod_eq)
    finally have "thread_of ?g = of_nat k" .
    then show ?thesis using assms by (simp add: unat_of_nat take_bit_nat_eq_self)
  qed
  ultimately show ?thesis by blast
qed

section \<open>Coordinates\<close>

text \<open>The coordinate of a logical offset, with its slice, row and column as natural numbers.\<close>

definition coordinate :: "smemcpy_params \<Rightarrow> nat \<Rightarrow> deviceptr" where
  "coordinate p l =
     destination p + of_nat (l div unat (width p) div unat (rows p)) * destination_slice_stride p
       + of_nat (l div unat (width p) mod unat (rows p)) * destination_row_stride p + of_nat (l mod unat (width p))"

definition coordinate_2d :: "smemcpy_params \<Rightarrow> nat \<Rightarrow> deviceptr" where
  "coordinate_2d p l =
     destination p + of_nat (l div unat (width p)) * destination_row_stride p + of_nat (l mod unat (width p))"

lemma word_div_nat: "x div y = of_nat (unat x div unat y)" for x y :: u64
  by (simp add: unat_div [symmetric])

lemma word_mod_nat: "x mod y = of_nat (unat x mod unat y)" for x y :: u64
  by (simp add: unat_mod [symmetric])

lemma word_minus_div: "x - x div y * y = of_nat (unat x mod unat y)" for x y :: u64
  by (simp add: minus_div_mult_eq_mod word_mod_nat)

lemma of_nat_unat_u64: "of_nat (unat x) = x" for x :: u64
  by simp

lemma destination_at_nat: "destination_at p l = coordinate p (unat l)"
proof -
  have "unat (l div width p) = unat l div unat (width p)" by (simp add: unat_div)
  then show ?thesis
    using word_div_nat [of "l div width p" "rows p"] word_minus_div [of "l div width p" "rows p"] word_minus_div [of l "width p"]
    by (simp add: destination_at_def coordinate_def Let_def)
qed

lemma valid_params:
  assumes "\<not> invalid_params p"
  shows "0 < unat (width p)" and "0 < unat (rows p)" and "unat (width p) * unat (rows p) < 2 ^ 64"
    and "unat (logical_offset p) + unat (bytes p) < 2 ^ 64"
proof -
  have w: "width p \<noteq> 0" and r: "rows p \<noteq> 0" and wr: "\<not> width p > -1 div rows p"
    and b: "\<not> bytes p > -1 - logical_offset p"
    using assms by (auto simp: invalid_params_def)
  show "0 < unat (width p)" "0 < unat (rows p)" using w r by (simp_all add: unat_gt_0)
  then have "unat (width p) \<le> (2 ^ 64 - 1) div unat (rows p)"
    using wr by (simp add: word_less_nat_alt unat_div unsigned_minus_1_eq_mask mask_eq_exp_minus_1 not_less)
  then have "unat (width p) * unat (rows p) \<le> 2 ^ 64 - 1"
    using \<open>0 < unat (rows p)\<close> by (simp only: less_eq_div_iff_mult_less_eq)
  then show "unat (width p) * unat (rows p) < 2 ^ 64" by simp
  show "unat (logical_offset p) + unat (bytes p) < 2 ^ 64" using b by (simp only: size_max_guard not_le)
qed

lemma logical_index:
  assumes "\<not> invalid_params p" and "i < unat (bytes p)"
  shows "unat (logical_offset p + of_nat i) = unat (logical_offset p) + i"
proof -
  have "unat (of_nat i :: u64) = i"
    using assms(2) unat_lt_2_64 [of "bytes p"] by (simp add: unat_of_nat take_bit_nat_eq_self)
  then show ?thesis using assms(2) valid_params(4) [OF assms(1)] unat_add_no_wrap [of "logical_offset p" "of_nat i"] by simp
qed

lemma logical_parts:
  "(of_nat l :: u64) = (of_nat (l div unat (width p) div unat (rows p)) * rows p
      + of_nat (l div unat (width p) mod unat (rows p))) * width p + of_nat (l mod unat (width p))"
proof -
  have "l = (l div unat (width p) div unat (rows p) * unat (rows p) + l div unat (width p) mod unat (rows p)) * unat (width p)
      + l mod unat (width p)" by (simp only: div_mult_mod_eq)
  then have "(of_nat l :: u64) = of_nat ((l div unat (width p) div unat (rows p) * unat (rows p)
      + l div unat (width p) mod unat (rows p)) * unat (width p) + l mod unat (width p))" by (rule arg_cong)
  then show ?thesis by (simp only: of_nat_add of_nat_mult of_nat_unat_u64)
qed

text \<open>With rows and slices packed the coordinate is linear.\<close>

lemma coordinate_packed_rows:
  assumes "destination_row_stride p = width p"
  shows "coordinate p l = destination p
           + of_nat (l div unat (width p) div unat (rows p)) * (destination_slice_stride p - width p * rows p) + of_nat l"
  using logical_parts [of l p] assms by (simp add: coordinate_def algebra_simps)

lemma coordinate_regular:
  assumes "destination_slice_stride p = destination_row_stride p * rows p"
  shows "coordinate p l = coordinate_2d p l"
proof -
  let ?r = "l div unat (width p)"
  have "(of_nat ?r :: u64) = of_nat (?r div unat (rows p) * unat (rows p) + ?r mod unat (rows p))" by (simp only: div_mult_mod_eq)
  then have "(of_nat ?r :: u64) = of_nat (?r div unat (rows p)) * rows p + of_nat (?r mod unat (rows p))"
    by (simp only: of_nat_add of_nat_mult of_nat_unat_u64)
  then show ?thesis using assms by (simp add: coordinate_def coordinate_2d_def algebra_simps)
qed

lemma div_between:
  fixes a b c w :: nat
  assumes "a \<le> b" and "b \<le> c" and "a div w = c div w"
  shows "b div w = a div w"
  using assms div_le_mono by (metis le_antisym)

lemma coordinate_contiguous:
  assumes "\<not> invalid_params p" and "i < unat (bytes p)" and "contiguous_destination p (width p * rows p)"
  shows "coordinate p (unat (logical_offset p) + i) = coordinate p (unat (logical_offset p)) + of_nat i"
proof -
  let ?O = "unat (logical_offset p)" and ?n = "unat (bytes p)" and ?W = "unat (width p)" and ?R = "unat (rows p)"
  note v = valid_params [OF assms(1)]
  have eq: "logical_offset p + bytes p - 1 = logical_offset p + of_nat (?n - 1)"
    using assms(2) by (simp add: of_nat_diff)
  have last: "unat (logical_offset p + bytes p - 1) = ?O + ?n - 1"
    unfolding eq using logical_index [OF assms(1), of "?n - 1"] assms(2) by simp
  have row: "x div width p = y div width p \<longleftrightarrow> unat x div ?W = unat y div ?W" for x y
    by (simp add: word_unat_eq_iff unat_div)
  have slice: "x div width p div rows p = y div width p div rows p \<longleftrightarrow> unat x div ?W div ?R = unat y div ?W div ?R" for x y
    by (simp add: word_unat_eq_iff unat_div)
  have between: "?O \<le> ?O + i" "?O + i \<le> ?O + ?n - 1" using assms(2) by auto
  consider "?O div ?W = (?O + ?n - 1) div ?W"
    | "destination_row_stride p = width p" "?O div ?W div ?R = (?O + ?n - 1) div ?W div ?R"
    | "destination_row_stride p = width p" "destination_slice_stride p = width p * rows p"
    using assms(3) unfolding contiguous_destination_def Let_def row slice last by (auto split: if_splits)
  then show ?thesis
  proof cases
    case 1
    then have d: "(?O + i) div ?W = ?O div ?W" using between div_between by blast
    then have "(?O + i) mod ?W = ?O mod ?W + i" using div_mult_mod_eq [of "?O + i" ?W, unfolded d] div_mult_mod_eq [of ?O ?W] by linarith
    then show ?thesis by (simp add: coordinate_def d)
  next
    case 2
    then have "(?O + i) div (?W * ?R) = ?O div (?W * ?R)"
      using between div_between [of ?O "?O + i" "?O + ?n - 1" "?W * ?R"] by (simp add: div_mult2_eq)
    then have "(?O + i) div ?W div ?R = ?O div ?W div ?R" by (simp add: div_mult2_eq)
    then show ?thesis by (simp add: coordinate_packed_rows [OF 2(1)])
  next
    case 3
    then show ?thesis by (simp add: coordinate_packed_rows [OF 3(1)])
  qed
qed

text \<open>Rebasing at the first slice of the fragment.\<close>

lemma coordinate_rebase:
  assumes "0 < unat (width p)" and "0 < unat (rows p)" and "s * (unat (width p) * unat (rows p)) \<le> l"
  shows "coordinate (p\<lparr>destination := destination p + of_nat s * destination_slice_stride p, logical_offset := x\<rparr>)
           (l - s * (unat (width p) * unat (rows p))) = coordinate p l"
proof -
  let ?W = "unat (width p)" and ?R = "unat (rows p)"
  define k where "k = l - s * (?W * ?R)"
  have l: "l = k + s * ?R * ?W" using assms(3) by (simp add: k_def)
  have "l div ?W = k div ?W + s * ?R" "l mod ?W = k mod ?W" using assms(1) by (simp_all add: l)
  moreover have "(k div ?W + s * ?R) div ?R = k div ?W div ?R + s" "(k div ?W + s * ?R) mod ?R = k div ?W mod ?R"
    using assms(2) by simp_all
  ultimately show ?thesis unfolding k_def [symmetric] coordinate_def by (simp add: algebra_simps)
qed

text \<open>Rebasing at the first row of a fragment that stays in one slice.\<close>

lemma coordinate_rebase_2d:
  assumes "0 < unat (width p)" and "0 < unat (rows p)" and "b \<le> l"
    and "l div unat (width p) div unat (rows p) = b div unat (width p) div unat (rows p)"
  shows "coordinate_2d (p\<lparr>destination := destination p
             + of_nat (b div unat (width p) div unat (rows p)) * destination_slice_stride p
             + of_nat (b div unat (width p) mod unat (rows p)) * destination_row_stride p, logical_offset := x\<rparr>)
           (b mod unat (width p) + (l - b)) = coordinate p l"
proof -
  let ?W = "unat (width p)" and ?R = "unat (rows p)"
  define e where "e = b mod ?W + (l - b)"
  have l: "l = e + b div ?W * ?W" using assms(3) div_mult_mod_eq [of b ?W] unfolding e_def by linarith
  have row: "l div ?W = e div ?W + b div ?W" and column: "l mod ?W = e mod ?W" using assms(1) by (simp_all add: l)
  have "l div ?W mod ?R = e div ?W + b div ?W mod ?R"
    using assms(4) div_mult_mod_eq [of "l div ?W" ?R] div_mult_mod_eq [of "b div ?W" ?R] row by (simp only:)
  then show ?thesis unfolding e_def [symmetric] coordinate_2d_def coordinate_def assms(4) column
    by (simp add: algebra_simps)
qed

end
