(* ===== verification/Smemcpy_Cover.thy ===== *)
theory Smemcpy_Cover
  imports Smemcpy_Correct
begin

text \<open>
  The accesses of each kernel body, thread by thread, cover the bytes of the
  fragment: the elements first, then the loops, with the vector kernel and the
  atomic kernels apart.
\<close>

section \<open>Alignment\<close>

lemma aligned_take_bit: "aligned (2 ^ e) a \<longleftrightarrow> take_bit e a = 0"
proof -
  have "unat (take_bit e a) = unat a mod 2 ^ e" by (simp only: unsigned_take_bit_eq take_bit_nat_def)
  then show ?thesis by (metis aligned_def unat_eq_0)
qed

lemma aligned_pow2: "aligned 2 a = (take_bit 1 a = 0)" "aligned 4 a = (take_bit 2 a = 0)"
  "aligned 8 a = (take_bit 3 a = 0)" "aligned 16 a = (take_bit 4 a = 0)"
  using aligned_take_bit [of 1] aligned_take_bit [of 2] aligned_take_bit [of 3] aligned_take_bit [of 4] by simp_all

text \<open>Alignment is kept by sums, differences and multiples, also when they wrap.\<close>

lemma unat_add_mod:
  assumes "n dvd 2 ^ 64"
  shows "unat (a + b :: u64) mod n = (unat a + unat b) mod n"
  using assms by (simp add: unat_word_ariths(1) mod_mod_cancel)

lemma aligned_add: "n dvd 2 ^ 64 \<Longrightarrow> aligned n a \<Longrightarrow> aligned n b \<Longrightarrow> aligned n (a + b)"
  using unat_add_mod [of n a b] by (simp add: aligned_def mod_eq_0_iff_dvd)

lemma aligned_mult: "n dvd 2 ^ 64 \<Longrightarrow> aligned n b \<Longrightarrow> aligned n (a * b)"
proof -
  assume n: "n dvd 2 ^ 64" and b: "aligned n b"
  have "unat (a * b) mod n = (unat a * unat b) mod n"
    using n by (simp add: unat_word_ariths(2) mod_mod_cancel)
  then show ?thesis using b by (simp add: aligned_def mod_eq_0_iff_dvd)
qed

lemma aligned_diff_iff:
  assumes "n dvd 2 ^ 64"
  shows "aligned n (a - b) \<longleftrightarrow> unat a mod n = unat b mod n"
proof -
  have "unat a mod n = (unat (a - b) + unat b) mod n" using unat_add_mod [OF assms, of "a - b" b] by simp
  then show ?thesis
    using mod_eq_dvd_iff_nat [of "unat b" "unat (a - b) + unat b" n] by (simp add: aligned_def mod_eq_0_iff_dvd)
qed

lemma row_aligned:
  assumes "aligned 4 stride" and "aligned 4 (base - off)"
  shows "aligned 4 (base + x * stride - off)"
proof -
  have eq: "base + x * stride - off = (base - off) + x * stride" by simp
  show ?thesis unfolding eq by (intro aligned_add aligned_mult assms) simp_all
qed

section \<open>Elements\<close>

definition same_fragment :: "smemcpy_params \<Rightarrow> smemcpy_params \<Rightarrow> bool" where
  "same_fragment q p = (source q = source p \<and> bytes q = bytes p)"

lemma covers_single:
  "access_ok c \<Longrightarrow> set (access_writes src c) = {planned src p i} \<Longrightarrow> covers src p {i} [c]"
  by (simp add: covers_def)

lemma covers_set: "set ds = set cs \<Longrightarrow> covers src p I ds = covers src p I cs"
  by (simp add: covers_def list_all_iff)

lemma scatter_byte_access:
  "scatter_byte src q index = Put (destination_at q (logical_offset q + index)) (src (source q + index))"
  by (simp add: scatter_byte_def destination_at_def Let_def add.assoc)

lemma narrow_store_access:
  "scatter_narrow_store (width q) q index v = Put (coordinate_2d q (unat (logical_offset q + index))) v"
  using word_minus_div [of "logical_offset q + index" "width q"]
  by (simp add: scatter_narrow_store_def coordinate_2d_def Let_def add.assoc word_div_nat)

lemma scatter_2d_access:
  "scatter_2d_byte src q index = Put (coordinate_2d q (unat (logical_offset q + index))) (src (source q + index))"
  using narrow_store_access [of q index] by (simp add: scatter_2d_byte_def scatter_narrow_store_def)

lemma narrow_3d_store_access:
  "scatter_narrow_3d_store (width q) q index v = Put (destination_at q (logical_offset q + index)) v"
  by (simp add: scatter_narrow_3d_store_def destination_at_def Let_def add.assoc)

lemma covers_put:
  assumes "same_fragment q p" and "a = destination_at p (logical_offset p + of_nat i)"
  shows "covers src p {i} [Put a (src (source q + of_nat i))]"
  using assms by (intro covers_single) (simp_all add: planned_def same_fragment_def access_ok_def)

text \<open>The bytes an atomic update of a row changes.\<close>

lemma row_mask_bit:
  assumes "off + w \<le> 4" and "i < 32"
  shows "bit (push_bit (8 * off) (mask (8 * w)) :: u32) i \<longleftrightarrow> off \<le> i div 8 \<and> i div 8 < off + w"
proof -
  have "bit (push_bit (8 * off) (mask (8 * w)) :: u32) i \<longleftrightarrow> 8 * off \<le> i \<and> i < 8 * (off + w)"
    using assms by (auto simp: bit_simps)
  also have "\<dots> \<longleftrightarrow> off \<le> i div 8 \<and> i div 8 < off + w"
    by (metis less_eq_div_iff_mult_less_eq div_less_iff_less_mult mult.commute zero_less_numeral)
  finally show ?thesis .
qed

lemma row_mask_ok:
  fixes v :: u32
  assumes "off + w \<le> 4" and "\<And>i. bit v i \<Longrightarrow> i < 8 * w"
  shows "mask_ok (push_bit (8 * off) (mask (8 * w))) (push_bit (8 * off) v)"
proof -
  have "bit (push_bit (8 * off) (mask (8 * w)) :: u32) i = bit (push_bit (8 * off) (mask (8 * w)) :: u32) (8 * (i div 8))"
    if "i < 32" for i
  proof -
    have "8 * (i div 8) < 32" using that by simp
    then show ?thesis using row_mask_bit [OF assms(1)] that by simp
  qed
  moreover have "bit (push_bit (8 * off) (mask (8 * w)) :: u32) i" if "i < 32" "bit (push_bit (8 * off) v) i" for i
    using that assms(2) by (auto simp: bit_simps)
  ultimately show ?thesis unfolding mask_ok_def by blast
qed

lemma row_mask_bytes:
  fixes v :: u32
  assumes "off + w \<le> 4"
  shows "set (masked_bytes a (push_bit (8 * off) (mask (8 * w))) (push_bit (8 * off) v))
           = (\<lambda>x. (a + of_nat (off + x), ucast (drop_bit (8 * x) v))) ` {..<w}"
proof -
  have byte: "(ucast (drop_bit (8 * (off + x)) (push_bit (8 * off) v)) :: u8) = ucast (drop_bit (8 * x) v)" if "x < w" for x
  proof (rule bit_eqI)
    fix n assume "possible_bit TYPE(u8) n"
    then show "bit (ucast (drop_bit (8 * (off + x)) (push_bit (8 * off) v)) :: u8) n = bit (ucast (drop_bit (8 * x) v) :: u8) n"
      using that assms by (auto simp: bit_simps)
  qed
  have "{j. j < 4 \<and> bit (push_bit (8 * off) (mask (8 * w)) :: u32) (8 * j)} = (\<lambda>x. off + x) ` {..<w}"
  proof -
    have "bit (push_bit (8 * off) (mask (8 * w)) :: u32) (8 * j) \<longleftrightarrow> off \<le> j \<and> j < off + w" if "j < 4" for j
      using row_mask_bit [OF assms, of "8 * j"] that by simp
    then have "{j. j < 4 \<and> bit (push_bit (8 * off) (mask (8 * w)) :: u32) (8 * j)} = {off..<off + w}"
      using assms by auto
    also have "\<dots> = (\<lambda>x. off + x) ` {..<w}" by (simp add: lessThan_atLeast0 add.commute)
    finally show ?thesis .
  qed
  moreover have "set (masked_bytes a (push_bit (8 * off) (mask (8 * w))) (push_bit (8 * off) v))
      = (\<lambda>j. (a + of_nat j, ucast (drop_bit (8 * j) (push_bit (8 * off) v))))
          ` {j. j < 4 \<and> bit (push_bit (8 * off) (mask (8 * w)) :: u32) (8 * j)}"
    by (auto simp: masked_bytes_def)
  ultimately show ?thesis using byte by (auto simp: image_image)
qed

lemma ucast_of_u8: "(ucast (ucast v :: u32) :: u8) = v"
  by (rule bit_eqI) (simp add: bit_simps)

lemma unat_below_4: "off < 4 \<Longrightarrow> unat (off * 8) = 8 * unat off" for off :: u32
  by (simp add: unat_word_ariths word_less_nat_alt)

lemma atomic_byte_covers:
  assumes "off < 4" and "planned src p i = (dest, v)" and "aligned 4 (dest - ucast off)"
  shows "covers src p {i} (atomic_store_byte off dest begin v)"
proof (cases "off \<noteq> 0 \<and> dest < begin + ucast off")
  case True then show ?thesis using assms(2) by (simp add: atomic_store_byte_def covers_def access_ok_def)
next
  case False
  let ?o = "unat off"
  have o: "?o + 1 \<le> 4" using assms(1) by (simp add: word_less_nat_alt)
  have v: "i < 8 * 1" if "bit (ucast v :: u32) i" for i using that by (auto simp: bit_simps dest: bit_imp_le_length)
  have k: "0xff = (mask (8 * 1) :: u32)" by (simp add: mask_eq_exp_minus_1)
  have "set (masked_bytes (dest - ucast off) (push_bit (8 * ?o) (mask (8 * 1))) (push_bit (8 * ?o) (ucast v))) = {(dest, v)}"
    unfolding row_mask_bytes [OF o] by (simp add: lessThan_Suc ucast_of_u8)
  then show ?thesis
    using False assms row_mask_ok [OF o v]
    by (simp add: atomic_store_byte_def covers_def access_ok_def Let_def unat_below_4 k del: One_nat_def)
qed

lemma lane_turns:
  assumes "gt \<in> {4, 8, 16}" and "l < 32"
  shows "\<exists>first \<in> set (filter (\<lambda>first. first mod gt = 0) (map of_nat [0..<unat warpSize])). first \<le> l \<and> l < first + (gt :: u32)"
proof -
  have "list_all (\<lambda>gt. list_all (\<lambda>k. list_ex (\<lambda>first. first \<le> of_nat k \<and> of_nat k < first + (gt :: u32))
      (filter (\<lambda>first. first mod gt = 0) (map of_nat [0..<unat warpSize]))) [0..<32]) [4, 8, 16]"
    by code_simp
  then have "list_all (\<lambda>k. list_ex (\<lambda>first. first \<le> of_nat k \<and> of_nat k < first + (gt :: u32))
      (filter (\<lambda>first. first mod gt = 0) (map of_nat [0..<unat warpSize]))) [0..<32]"
    using assms(1) by (auto simp only: list.pred_inject insert_iff empty_iff)
  then have "list_ex (\<lambda>first. first \<le> of_nat (unat l) \<and> of_nat (unat l) < first + (gt :: u32))
      (filter (\<lambda>first. first mod gt = 0) (map of_nat [0..<unat warpSize]))"
    unfolding list_all_iff [of _ "[0..<32]"] by (rule bspec) (use assms(2) in \<open>simp add: word_less_nat_alt\<close>)
  moreover have "of_nat (unat l) = l" by simp
  ultimately show ?thesis unfolding list_ex_iff by (simp only:)
qed

lemma lane_of_less: "lane_of g < 32"
proof -
  have "lane_of g \<le> 31" by (simp add: lane_of_def warpSize_def word_and_le1)
  then show ?thesis by (simp add: word_le_nat_alt word_less_nat_alt)
qed

lemma in_turn_set:
  assumes "gt \<in> {4, 8, 16}"
  shows "set (in_turn gt g stores) = set stores"
proof -
  define F where "F = filter (\<lambda>first. first mod gt = 0) (map of_nat [0..<unat warpSize])"
  obtain first where "first \<in> set F" "first \<le> lane_of g \<and> lane_of g < first + gt"
    using lane_turns [OF assms lane_of_less [of g]] unfolding F_def by blast
  then show ?thesis unfolding in_turn_def F_def [symmetric] by (auto split: if_splits)
qed

lemma in_turn_covers: "gt \<in> {4, 8, 16} \<Longrightarrow> covers src p I (in_turn gt g stores) = covers src p I stores"
  by (rule covers_set) (rule in_turn_set)

section \<open>Loops over bytes\<close>

lemma source_prefix_bounds:
  "unat (source_prefix a n) \<le> unat n" "unat (source_prefix a n) < 128"
proof -
  have "unat (- a AND 127 :: u64) \<le> 127" using word_and_le1 [of "- a" 127] by (simp add: word_le_nat_alt)
  then show "unat (source_prefix a n) \<le> unat n" "unat (source_prefix a n) < 128"
    by (auto simp: source_prefix_def kSourceTransactionAlignment_def word_less_nat_alt Let_def)
qed

text \<open>The indices a thread handles: one of the prefix and, from there on, every one of its stride.\<close>

definition byte_indices :: "nat \<Rightarrow> nat \<Rightarrow> nat \<Rightarrow> nat \<Rightarrow> nat set" where
  "byte_indices pre n T t = {i. i < n \<and> (i = t \<and> i < pre \<or> (\<exists>k. i = pre + t + k * T))}"

lemma byte_indices_all:
  assumes "pre \<le> T" and "0 < T"
  shows "(\<Union>t \<in> {..<T}. byte_indices pre n T t) = {..<n}"
proof -
  have "\<exists>t < T. i \<in> byte_indices pre n T t" if "i < n" for i
  proof (cases "i < pre")
    case True
    then show ?thesis using that assms by (auto simp: byte_indices_def)
  next
    case False
    have "i = pre + (i - pre) mod T + (i - pre) div T * T"
      using False div_mult_mod_eq [of "i - pre" T] by linarith
    then have "\<exists>k. i = pre + (i - pre) mod T + k * T" by blast
    then show ?thesis using that assms(2) by (intro exI [of _ "(i - pre) mod T"]) (simp add: byte_indices_def)
  qed
  moreover have "byte_indices pre n T t \<subseteq> {..<n}" for t by (auto simp: byte_indices_def)
  ultimately show ?thesis by blast
qed

lemma threads_union:
  assumes "unat grid \<le> 65535"
  shows "(\<Union>g \<in> set (threads_of grid kThreadsPerBlock). I (unat (thread_of g))) = (\<Union>t \<in> {..<256 * unat grid}. I t)"
  using threads_of_range(1) [OF assms] threads_of_all [OF assms] by fastforce

text \<open>The shape the scalar kernels share.\<close>

lemma byte_loop_covers:
  assumes grid: "unat grid \<le> 65535" "0 < unat grid" and g: "g \<in> set (threads_of grid kThreadsPerBlock)"
    and n: "unat (bytes q) < 2 ^ 63"
    and element: "\<And>i. i < unat (bytes q) \<Longrightarrow> covers src p {i} (body (of_nat i))"
    and first: "\<And>i. i < unat (bytes q) \<Longrightarrow> covers src p {i} (body' (of_nat i))"
  defines "pre \<equiv> source_prefix (source q) (bytes q)"
  shows "\<exists>t. (do {
             rest \<leftarrow> grid_loop body (pre + thread_of g) (bytes q) (step_of g);
             Some ((if thread_of g < pre then body' (thread_of g) else []) @ rest)
           }) = Some t \<and> covers src p (byte_indices (unat pre) (unat (bytes q)) (256 * unat grid) (unat (thread_of g))) t"
proof -
  let ?t = "unat (thread_of g)" and ?T = "256 * unat grid" and ?n = "unat (bytes q)"
  note range = threads_of_range [OF grid(1) g]
  have pre: "unat pre \<le> ?n" "unat pre < 128" unfolding pre_def by (rule source_prefix_bounds)+
  have idx: "unat (pre + thread_of g) = unat pre + ?t"
    using pre range(1) grid(1) by (intro unat_add_no_wrap) simp
  have step: "unat (step_of g) = ?T" by (rule range(3))
  have "\<exists>t. grid_loop body (pre + thread_of g) (bytes q) (step_of g) = Some t \<and>
      covers src p (\<Union>k \<in> {k. unat (pre + thread_of g) + k * unat (step_of g) < ?n}. {unat (pre + thread_of g) + k * unat (step_of g)}) t"
  proof (rule grid_loop_covers)
    show "unat (bytes q) + unat (step_of g) \<le> 2 ^ 64" "0 < step_of g"
      using n grid by (simp_all add: step word_less_nat_alt)
  qed (rule element)
  then obtain t where t: "grid_loop body (pre + thread_of g) (bytes q) (step_of g) = Some t"
      "covers src p (\<Union>k \<in> {k. unat pre + ?t + k * ?T < ?n}. {unat pre + ?t + k * ?T}) t"
    unfolding idx step by blast
  have "covers src p (if ?t < unat pre then {?t} else {}) (if thread_of g < pre then body' (thread_of g) else [])"
    using first [of ?t] pre by (simp add: word_less_nat_alt)
  from covers_append [OF this t(2)]
  have "covers src p (byte_indices (unat pre) ?n ?T ?t) ((if thread_of g < pre then body' (thread_of g) else []) @ t)"
  proof -
    have "byte_indices (unat pre) ?n ?T ?t
        = (if ?t < unat pre then {?t} else {}) \<union> (\<Union>k \<in> {k. unat pre + ?t + k * ?T < ?n}. {unat pre + ?t + k * ?T})"
      using pre(1) by (auto simp: byte_indices_def)
    then show ?thesis using \<open>covers src p ((if ?t < unat pre then {?t} else {}) \<union> _) _\<close> by simp
  qed
  then show ?thesis using t(1) by simp
qed

text \<open>Where the element addresses of a launch agree with the coordinates of the fragment.\<close>

definition agrees_3d :: "smemcpy_params \<Rightarrow> smemcpy_params \<Rightarrow> bool" where
  "agrees_3d q p = (same_fragment q p \<and>
     (\<forall>i < unat (bytes p). destination_at q (logical_offset q + of_nat i) = destination_at p (logical_offset p + of_nat i)))"

definition agrees_2d :: "smemcpy_params \<Rightarrow> smemcpy_params \<Rightarrow> bool" where
  "agrees_2d q p = (same_fragment q p \<and>
     (\<forall>i < unat (bytes p). coordinate_2d q (unat (logical_offset q + of_nat i)) = destination_at p (logical_offset p + of_nat i)))"

lemma agrees_bytes: "agrees_3d q p \<Longrightarrow> bytes q = bytes p" "agrees_2d q p \<Longrightarrow> bytes q = bytes p"
  by (simp_all add: agrees_3d_def agrees_2d_def same_fragment_def)

lemma covers_put_3d:
  "agrees_3d q p \<Longrightarrow> i < unat (bytes q) \<Longrightarrow>
     covers src p {i} [Put (destination_at q (logical_offset q + of_nat i)) (src (source q + of_nat i))]"
  by (rule covers_put) (simp_all add: agrees_3d_def same_fragment_def)

lemma covers_put_2d:
  "agrees_2d q p \<Longrightarrow> i < unat (bytes q) \<Longrightarrow>
     covers src p {i} [Put (coordinate_2d q (unat (logical_offset q + of_nat i))) (src (source q + of_nat i))]"
  by (rule covers_put) (simp_all add: agrees_2d_def same_fragment_def)

lemma byte_launch:
  assumes "distinct_coordinates p" and "bytes q = bytes p"
    and grid: "unat grid \<le> 65535" "0 < unat grid"
    and "\<And>g. g \<in> set (threads_of grid kThreadsPerBlock) \<Longrightarrow> \<exists>t. kernel_body f src q g = Some t \<and>
           covers src p (byte_indices (unat (source_prefix (source q) (bytes q))) (unat (bytes q)) (256 * unat grid) (unat (thread_of g))) t"
  shows "correct_launch src p f grid q"
proof (rule launch_scatters [OF assms(1) assms(5)])
  have "unat (source_prefix (source q) (bytes q)) \<le> 256 * unat grid"
    using source_prefix_bounds(2) [of "source q" "bytes q"] grid(2) by linarith
  then show "(\<Union>g \<in> set (threads_of grid kThreadsPerBlock).
      byte_indices (unat (source_prefix (source q) (bytes q))) (unat (bytes q)) (256 * unat grid) (unat (thread_of g)))
        = {..<unat (bytes p)}"
    unfolding threads_union [OF grid(1)] using byte_indices_all grid(2) assms(2) by simp
qed

lemma smemcpy_3d_scatters:
  assumes "distinct_coordinates p" and "agrees_3d q p" and "unat grid \<le> 65535" "0 < unat grid" and "unat (bytes q) < 2 ^ 63"
  shows "correct_launch src p Smemcpy_3d grid q"
proof (rule byte_launch [OF assms(1) agrees_bytes(1) [OF assms(2)] assms(3,4)])
  fix g assume g: "g \<in> set (threads_of grid kThreadsPerBlock)"
  show "\<exists>t. kernel_body Smemcpy_3d src q g = Some t \<and>
      covers src p (byte_indices (unat (source_prefix (source q) (bytes q))) (unat (bytes q)) (256 * unat grid) (unat (thread_of g))) t"
    using byte_loop_covers [OF assms(3,4) g assms(5), of src p "\<lambda>i. [scatter_byte src q i]" "\<lambda>i. [scatter_byte src q i]"]
      covers_put_3d [OF assms(2)]
    by (simp add: smemcpy_3d_body_def scatter_byte_access Let_def)
qed

lemma smemcpy_2d_scatters:
  assumes "distinct_coordinates p" and "agrees_2d q p" and "unat grid \<le> 65535" "0 < unat grid" and "unat (bytes q) < 2 ^ 63"
  shows "correct_launch src p Smemcpy_2d grid q"
proof (rule byte_launch [OF assms(1) agrees_bytes(2) [OF assms(2)] assms(3,4)])
  fix g assume g: "g \<in> set (threads_of grid kThreadsPerBlock)"
  show "\<exists>t. kernel_body Smemcpy_2d src q g = Some t \<and>
      covers src p (byte_indices (unat (source_prefix (source q) (bytes q))) (unat (bytes q)) (256 * unat grid) (unat (thread_of g))) t"
    using byte_loop_covers [OF assms(3,4) g assms(5), of src p "\<lambda>i. [scatter_2d_byte src q i]" "\<lambda>i. [scatter_2d_byte src q i]"]
      covers_put_2d [OF assms(2)]
    by (simp add: smemcpy_2d_body_def scatter_2d_access Let_def)
qed

lemma smemcpy_atomic_2d_scatters:
  assumes "distinct_coordinates p" and "agrees_2d q p" and "unat grid \<le> 65535" "0 < unat grid" and "unat (bytes q) < 2 ^ 63"
    and "width q = 1" and "off < 4" and "gt \<in> {4, 8, 16}"
    and "aligned 4 (destination_row_stride q)" and "aligned 4 (destination q - ucast off)"
  shows "correct_launch src p (Smemcpy_atomic_2d off gt) grid q"
proof (rule byte_launch [OF assms(1) agrees_bytes(2) [OF assms(2)] assms(3,4)])
  fix g assume g: "g \<in> set (threads_of grid kThreadsPerBlock)"
  have row: "coordinate_2d q (unat (logical_offset q + i)) = destination q + (logical_offset q + i) * destination_row_stride q" for i
    using assms(6) by (simp add: coordinate_2d_def)
  have put: "covers src p {i} [scatter_narrow_store 1 q (of_nat i) (src (source q + of_nat i))]" if "i < unat (bytes q)" for i
    using covers_put_2d [OF assms(2) that] narrow_store_access [of q] assms(6) by simp
  have atomic: "covers src p {i} (scatter_atomic_2d_store off q (of_nat i) (src (source q + of_nat i)))" if "i < unat (bytes q)" for i
    unfolding scatter_atomic_2d_store_def Let_def row [symmetric]
  proof (rule atomic_byte_covers [OF assms(7)])
    show "planned src p i = (coordinate_2d q (unat (logical_offset q + of_nat i)), src (source q + of_nat i))"
      using assms(2) that by (simp add: planned_def agrees_2d_def same_fragment_def)
    show "aligned 4 (coordinate_2d q (unat (logical_offset q + of_nat i)) - ucast off)"
      unfolding row by (rule row_aligned [OF assms(9,10)])
  qed
  show "\<exists>t. kernel_body (Smemcpy_atomic_2d off gt) src q g = Some t \<and>
      covers src p (byte_indices (unat (source_prefix (source q) (bytes q))) (unat (bytes q)) (256 * unat grid) (unat (thread_of g))) t"
    using byte_loop_covers [OF assms(3,4) g assms(5), of src p
        "\<lambda>i. if i + 1 = bytes q then [scatter_narrow_store 1 q i (src (source q + i))]
             else in_turn gt g (scatter_atomic_2d_store off q i (src (source q + i)))"
        "\<lambda>i. if i + 1 = bytes q then [scatter_narrow_store 1 q i (src (source q + i))]
             else scatter_atomic_2d_store off q i (src (source q + i))"]
      put atomic
    by (simp add: smemcpy_atomic_narrow_2d_body_def in_turn_covers [OF assms(8)] Let_def)
qed

section \<open>Narrow rows\<close>

text \<open>The narrow kernels do not loop: each thread handles a fixed number of items.\<close>

definition narrow_indices :: "nat \<Rightarrow> nat \<Rightarrow> nat \<Rightarrow> nat \<Rightarrow> nat \<Rightarrow> nat set" where
  "narrow_indices pre n T N t = {i. i < n \<and> (i = t \<and> i < pre \<or> (\<exists>k < N. i = pre + t + k * T))}"

lemma narrow_indices_all:
  assumes "pre \<le> T" and "0 < T" and "n \<le> N * T"
  shows "(\<Union>t \<in> {..<T}. narrow_indices pre n T N t) = {..<n}"
proof -
  have "\<exists>t < T. i \<in> narrow_indices pre n T N t" if "i < n" for i
  proof (cases "i < pre")
    case True
    then show ?thesis using that assms by (auto simp: narrow_indices_def)
  next
    case False
    have "i = pre + (i - pre) mod T + (i - pre) div T * T"
      using False div_mult_mod_eq [of "i - pre" T] by linarith
    moreover have "(i - pre) div T < N" using that assms(3) by (simp add: less_mult_imp_div_less)
    ultimately have "\<exists>k < N. i = pre + (i - pre) mod T + k * T" by blast
    then show ?thesis using that assms(2) by (intro exI [of _ "(i - pre) mod T"]) (simp add: narrow_indices_def)
  qed
  moreover have "narrow_indices pre n T N t \<subseteq> {..<n}" for t by (auto simp: narrow_indices_def)
  ultimately show ?thesis by blast
qed

lemma narrow_items_cover:
  assumes grid: "unat grid \<le> 65535" "0 < unat grid" and g: "g \<in> set (threads_of grid kThreadsPerBlock)" and N: "N \<le> 4"
    and element: "\<And>i. i < unat (bytes q) \<Longrightarrow> covers src p {i} [elem (of_nat i)]"
    and turns: "\<And>I stores. covers src p I (turn stores) = covers src p I stores"
  defines "pre \<equiv> source_prefix (source q) (bytes q)"
  shows "covers src p (narrow_indices (unat pre) (unat (bytes q)) (256 * unat grid) N (unat (thread_of g)))
           ((if thread_of g < pre then [elem (thread_of g)] else []) @
            concat (map (\<lambda>item. let index = pre + thread_of g + of_nat item * step_of g
                                in turn (if index < bytes q then [elem index] else [])) [0..<N]))"
proof -
  let ?t = "unat (thread_of g)" and ?T = "256 * unat grid" and ?n = "unat (bytes q)"
  note range = threads_of_range [OF grid(1) g]
  have pre: "unat pre \<le> ?n" "unat pre < 128" unfolding pre_def by (rule source_prefix_bounds)+
  have idx: "pre + thread_of g + of_nat item * step_of g = of_nat (unat pre + ?t + item * ?T)" for item
    by (simp only: of_nat_add of_nat_mult of_nat_unat_u64 range(2))
  have bound: "unat (pre + thread_of g + of_nat item * step_of g) = unat pre + ?t + item * ?T" if "item < N" for item
  proof -
    have "item * ?T \<le> 4 * ?T" using that N by (intro mult_le_mono1) simp
    then have "unat pre + ?t + item * ?T < 18446744073709551616" using pre(2) range(1) grid(1) by linarith
    then show ?thesis unfolding idx by (simp only: unat_of_nat) (simp add: take_bit_nat_eq_self)
  qed
  have first: "covers src p (if ?t < unat pre then {?t} else {}) (if thread_of g < pre then [elem (thread_of g)] else [])"
    using element [of ?t] pre by (simp add: word_less_nat_alt)
  have "covers src p (\<Union>item \<in> set [0..<N]. if unat pre + ?t + item * ?T < ?n then {unat pre + ?t + item * ?T} else {})
      (concat (map (\<lambda>item. let index = pre + thread_of g + of_nat item * step_of g
                           in turn (if index < bytes q then [elem index] else [])) [0..<N]))"
  proof (rule covers_concat)
    fix item assume "item \<in> set [0..<N]"
    then show "covers src p (if unat pre + ?t + item * ?T < ?n then {unat pre + ?t + item * ?T} else {})
        (let index = pre + thread_of g + of_nat item * step_of g in turn (if index < bytes q then [elem index] else []))"
      using bound [of item] element [of "unat pre + ?t + item * ?T"] idx [of item]
      by (simp add: turns word_less_nat_alt Let_def)
  qed
  from covers_append [OF first this] show ?thesis
  proof (rule back_subst [of "\<lambda>I. covers src p I _"])
    show "(if ?t < unat pre then {?t} else {}) \<union>
        (\<Union>item \<in> set [0..<N]. if unat pre + ?t + item * ?T < ?n then {unat pre + ?t + item * ?T} else {})
        = narrow_indices (unat pre) ?n ?T N ?t"
      using pre(1) by (auto simp: narrow_indices_def split: if_splits)
  qed
qed

lemma narrow_launch:
  assumes "distinct_coordinates p" and "bytes q = bytes p"
    and grid: "unat grid \<le> 65535" "0 < unat grid" and room: "unat (bytes q) \<le> N * (256 * unat grid)"
    and "\<And>g. g \<in> set (threads_of grid kThreadsPerBlock) \<Longrightarrow> \<exists>t. kernel_body f src q g = Some t \<and>
           covers src p (narrow_indices (unat (source_prefix (source q) (bytes q))) (unat (bytes q)) (256 * unat grid) N (unat (thread_of g))) t"
  shows "correct_launch src p f grid q"
proof (rule launch_scatters [OF assms(1) assms(6)])
  have "unat (source_prefix (source q) (bytes q)) \<le> 256 * unat grid"
    using source_prefix_bounds(2) [of "source q" "bytes q"] grid(2) by linarith
  then show "(\<Union>g \<in> set (threads_of grid kThreadsPerBlock).
      narrow_indices (unat (source_prefix (source q) (bytes q))) (unat (bytes q)) (256 * unat grid) N (unat (thread_of g)))
        = {..<unat (bytes p)}"
    unfolding threads_union [OF grid(1)] using narrow_indices_all grid(2) assms(2) room by simp
qed

definition narrow_turn :: "nat \<Rightarrow> u64 \<Rightarrow> thread_id \<Rightarrow> access list \<Rightarrow> access list" where
  "narrow_turn n w g stores = (if n = 1 \<or> w = 3 then stores else in_turn (if w = 1 then 4 else 8) g stores)"

lemma narrow_turn_covers: "covers src p I (narrow_turn n w g stores) = covers src p I stores"
  by (simp add: narrow_turn_def in_turn_covers)

lemma smemcpy_narrow_2d_scatters:
  assumes "distinct_coordinates p" and "agrees_2d q p" and "unat grid \<le> 65535" "0 < unat grid"
    and "N \<le> 4" and "unat (bytes q) \<le> N * (256 * unat grid)"
  shows "correct_launch src p (Smemcpy_narrow_2d (width q) N) grid q"
proof (rule narrow_launch [OF assms(1) agrees_bytes(2) [OF assms(2)] assms(3,4,6)])
  fix g assume g: "g \<in> set (threads_of grid kThreadsPerBlock)"
  show "\<exists>t. kernel_body (Smemcpy_narrow_2d (width q) N) src q g = Some t \<and>
      covers src p (narrow_indices (unat (source_prefix (source q) (bytes q))) (unat (bytes q)) (256 * unat grid) N (unat (thread_of g))) t"
    unfolding kernel_body.simps smemcpy_narrow_2d_body_def Let_def narrow_turn_def [symmetric] narrow_store_access
    using narrow_items_cover [OF assms(3,4) g assms(5), of q src p _ "narrow_turn N (width q) g",
        OF covers_put_2d [OF assms(2)] narrow_turn_covers, unfolded Let_def]
    by blast
qed

lemma smemcpy_narrow_3d_scatters:
  assumes "distinct_coordinates p" and "agrees_3d q p" and "unat grid \<le> 65535" "0 < unat grid"
    and "N \<le> 4" and "unat (bytes q) \<le> N * (256 * unat grid)"
  shows "correct_launch src p (Smemcpy_narrow_3d (width q) N) grid q"
proof (rule narrow_launch [OF assms(1) agrees_bytes(1) [OF assms(2)] assms(3,4,6)])
  fix g assume g: "g \<in> set (threads_of grid kThreadsPerBlock)"
  show "\<exists>t. kernel_body (Smemcpy_narrow_3d (width q) N) src q g = Some t \<and>
      covers src p (narrow_indices (unat (source_prefix (source q) (bytes q))) (unat (bytes q)) (256 * unat grid) N (unat (thread_of g))) t"
    unfolding kernel_body.simps smemcpy_narrow_3d_body_def Let_def narrow_turn_def [symmetric] narrow_3d_store_access
    using narrow_items_cover [OF assms(3,4) g assms(5), of q src p _ "narrow_turn N (width q) g",
        OF covers_put_3d [OF assms(2)] narrow_turn_covers, unfolded Let_def]
    by blast
qed

section \<open>Atomic rows\<close>

lemma row_value_byte:
  assumes "unat w = 2 \<or> unat w = 3" and "x < unat w"
  shows "(ucast (drop_bit (8 * x) (row_value w src a)) :: u8) = src (a + of_nat x)"
proof (rule bit_eqI)
  fix n assume "possible_bit TYPE(u8) n"
  then have n: "n < 8" by simp
  have high: "\<not> bit (src y) i" if "8 \<le> i" for y i using that by (simp add: bit_word.rep_eq not_less)
  have upt: "[0..<2] = [0, 1 :: nat]" "[0..<3] = [0, 1, 2 :: nat]" by (simp_all add: upt_rec)
  have "unat w = 2 \<and> x = 0 \<or> unat w = 2 \<and> x = 1 \<or> unat w = 3 \<and> x = 0 \<or> unat w = 3 \<and> x = 1 \<or> unat w = 3 \<and> x = 2"
    using assms by linarith
  then show "bit (ucast (drop_bit (8 * x) (row_value w src a)) :: u8) n = bit (src (a + of_nat x)) n"
    by (elim disjE conjE) (use n in \<open>simp_all add: row_value_def upt bit_simps high\<close>)
qed

lemma row_value_bits:
  assumes "unat w = 2 \<or> unat w = 3" and "bit (row_value w src a) i"
  shows "i < 8 * unat w"
proof -
  have high: "i < 8" if "bit (src y) i" for y i using that bit_imp_le_length [of "src y" i] by simp
  have upt: "[0..<2] = [0, 1 :: nat]" "[0..<3] = [0, 1, 2 :: nat]" by (simp_all add: upt_rec)
  show ?thesis using assms by (auto simp: row_value_def upt bit_simps dest!: high)
qed

text \<open>A row is stored byte by byte or by one atomic update.\<close>

lemma atomic_row_covers:
  assumes w: "unat w = 2 \<or> unat w = 3" and off: "unat off + unat w \<le> 4"
    and row: "\<And>x. x < unat w \<Longrightarrow> planned src p (i + x) = (dest + of_nat x, src (a + of_nat x))"
    and al: "aligned 4 (dest - ucast off)"
  shows "covers src p {i..<i + unat w} (row_bytes w dest (row_value w src a))"
    and "covers src p {i..<i + unat w} (atomic_store_row w off dest begin (row_value w src a))"
proof -
  let ?v = "row_value w src a" and ?W = "unat w" and ?o = "unat off"
  have image: "planned src p ` {i..<i + ?W} = (\<lambda>x. (dest + of_nat x, src (a + of_nat x))) ` {..<?W}"
  proof -
    have "{i..<i + ?W} = (\<lambda>x. i + x) ` {..<?W}" by (simp add: lessThan_atLeast0 add.commute)
    then show ?thesis using row by (auto simp: image_image)
  qed
  show bytes: "covers src p {i..<i + ?W} (row_bytes w dest ?v)"
    unfolding covers_def image using row_value_byte [OF w, of _ src a]
    by (auto simp: row_bytes_def list_all_iff mult.commute access_ok_def)
  show "covers src p {i..<i + ?W} (atomic_store_row w off dest begin ?v)"
  proof (cases "off \<noteq> 0 \<and> dest < begin + ucast off")
    case True then show ?thesis using bytes by (simp add: atomic_store_row_def)
  next
    case False
    have "off < 4" using off w by (auto simp: word_less_nat_alt)
    then have shift: "unat (off * 8) = 8 * ?o" by (rule unat_below_4)
    have "unat (w * 8) = 8 * ?W" using w by (auto simp: unat_word_ariths)
    then have k: "push_bit (unat (w * 8)) 1 - 1 = (mask (8 * ?W) :: u32)"
      by (simp add: mask_eq_exp_minus_1 push_bit_of_1)
    have "set (masked_bytes (dest - ucast off) (push_bit (8 * ?o) (mask (8 * ?W))) (push_bit (8 * ?o) ?v))
        = (\<lambda>x. (dest + of_nat x, src (a + of_nat x))) ` {..<?W}"
      unfolding row_mask_bytes [OF off]
      by (intro image_cong) (simp_all add: row_value_byte [OF w])
    moreover have "mask_ok (push_bit (8 * ?o) (mask (8 * ?W))) (push_bit (8 * ?o) ?v)"
      using row_value_bits [OF w] by (intro row_mask_ok [OF off]) blast
    ultimately show ?thesis unfolding covers_def image atomic_store_row_def if_not_P [OF False] Let_def shift k
      using al by (simp add: access_ok_def)
  qed
qed

lemma rows_union:
  assumes "0 < (w :: nat)" and "0 < T"
  shows "(\<Union>t \<in> {..<T}. \<Union>k \<in> {k. t + k * T < n}. {(t + k * T) * w..<(t + k * T) * w + w}) = {..<n * w}"
proof -
  have "i < n * w \<longleftrightarrow> (\<exists>t < T. \<exists>k. t + k * T < n \<and> (t + k * T) * w \<le> i \<and> i < (t + k * T) * w + w)" for i
  proof
    assume i: "i < n * w"
    let ?r = "i div w"
    have "?r < n" using i by (simp add: less_mult_imp_div_less)
    moreover have "?r mod T + ?r div T * T = ?r" by (simp add: mod_div_mult_eq)
    moreover have "?r * w \<le> i" "i < ?r * w + w"
      using div_mult_mod_eq [of i w] mod_less_divisor [OF assms(1), of i] by linarith+
    ultimately show "\<exists>t < T. \<exists>k. t + k * T < n \<and> (t + k * T) * w \<le> i \<and> i < (t + k * T) * w + w"
      using assms(2) by (intro exI [of _ "?r mod T"] conjI exI [of _ "?r div T"]) simp_all
  next
    assume "\<exists>t < T. \<exists>k. t + k * T < n \<and> (t + k * T) * w \<le> i \<and> i < (t + k * T) * w + w"
    then obtain r where r: "r < n" "i < r * w + w" by blast
    have "r * w + w \<le> n * w" using r(1) by (metis Suc_leI mult_Suc mult_le_mono1 add.commute)
    then show "i < n * w" using r(2) by linarith
  qed
  moreover have "i \<in> (\<Union>t \<in> {..<T}. \<Union>k \<in> {k. t + k * T < n}. {(t + k * T) * w..<(t + k * T) * w + w}) \<longleftrightarrow>
      (\<exists>t < T. \<exists>k. t + k * T < n \<and> (t + k * T) * w \<le> i \<and> i < (t + k * T) * w + w)" for i
    by (simp only: UN_iff mem_Collect_eq atLeastLessThan_iff lessThan_iff) blast
  ultimately show ?thesis by (intro set_eqI) (simp only: lessThan_iff)
qed

lemma smemcpy_atomic_rows_scatters:
  assumes "distinct_coordinates p" and agrees: "agrees_2d q p" and grid: "unat grid \<le> 65535" "0 < unat grid"
    and n: "unat (bytes q) < 2 ^ 63" and wrap: "unat (logical_offset q) + unat (bytes q) < 2 ^ 64"
    and w: "unat (width q) = 2 \<or> unat (width q) = 3" and off: "unat off + unat (width q) \<le> 4" and gt: "gt \<in> {4, 8, 16}"
    and whole: "unat (width q) dvd unat (bytes q)" "unat (width q) dvd unat (logical_offset q)"
    and al: "aligned 4 (destination_row_stride q)" "aligned 4 (destination q - ucast off)"
  shows "correct_launch src p (Smemcpy_atomic_rows (width q) off gt) grid q"
proof (rule launch_scatters [OF assms(1)])
  let ?W = "unat (width q)" and ?O = "unat (logical_offset q)" and ?T = "256 * unat grid"
  let ?rows = "unat (bytes q div width q)"
  let ?dest = "\<lambda>r. destination q + (logical_offset q div width q + of_nat r) * destination_row_stride q"
  let ?val = "\<lambda>r. row_value (width q) src (source q + of_nat r * width q)"
  have W: "0 < ?W" using w by auto
  have rows: "?rows * ?W = unat (bytes p)"
    using whole(1) agrees_bytes(2) [OF agrees] by (simp add: unat_div)
  have planned: "planned src p (r * ?W + x) = (?dest r + of_nat x, src (source q + of_nat r * width q + of_nat x))"
    if r: "r < ?rows" and x: "x < ?W" for r x
  proof -
    have "r * ?W + ?W \<le> ?rows * ?W" using r by (metis Suc_leI mult_Suc mult_le_mono1 add.commute)
    then have i: "r * ?W + x < unat (bytes p)" using x rows by linarith
    have "unat (logical_offset q + of_nat (r * ?W + x)) = ?O + (r * ?W + x)"
    proof -
      have lt: "r * ?W + x < 2 ^ 64" using i unat_lt_2_64 [of "bytes p"] by simp
      then have "unat (of_nat (r * ?W + x) :: u64) = r * ?W + x" by (simp only: unat_of_nat) (simp add: take_bit_nat_eq_self)
      moreover have "?O + (r * ?W + x) < 2 ^ 64" using i wrap agrees_bytes(2) [OF agrees] by simp
      ultimately show ?thesis using unat_add_no_wrap [of "logical_offset q" "of_nat (r * ?W + x)"] by simp
    qed
    moreover obtain c where c: "?O = ?W * c" using whole(2) by blast
    moreover have "(?W * c + (r * ?W + x)) div ?W = c + r" "(?W * c + (r * ?W + x)) mod ?W = x"
    proof -
      have "?W * c + (r * ?W + x) = x + (c + r) * ?W" by (simp add: algebra_simps)
      then show "(?W * c + (r * ?W + x)) div ?W = c + r" "(?W * c + (r * ?W + x)) mod ?W = x" using x by simp_all
    qed
    moreover have "logical_offset q div width q = of_nat c" using c W by (simp add: word_div_nat)
    ultimately have "coordinate_2d q (unat (logical_offset q + of_nat (r * ?W + x))) = ?dest r + of_nat x"
      by (simp add: coordinate_2d_def)
    moreover have "coordinate_2d q (unat (logical_offset q + of_nat (r * ?W + x)))
        = destination_at p (logical_offset p + of_nat (r * ?W + x))" and "source q = source p"
      using agrees i unfolding agrees_2d_def same_fragment_def by blast+
    ultimately show ?thesis unfolding planned_def by (simp add: add.assoc)
  qed
  fix g assume g: "g \<in> set (threads_of grid kThreadsPerBlock)"
  note range = threads_of_range [OF grid(1) g]
  have "?rows \<le> unat (bytes q)" by (simp add: unat_div)
  then have no_wrap: "?rows + unat (step_of g) \<le> 2 ^ 64" and pos: "0 < step_of g"
    using n grid range(3) by (simp_all add: word_less_nat_alt)
  have element: "covers src p {r * ?W..<r * ?W + ?W}
      (if of_nat r + 1 = bytes q div width q then row_bytes (width q) (?dest r) (?val r)
       else in_turn gt g (atomic_store_row (width q) off (?dest r) (destination q) (?val r)))" if "r < ?rows" for r
    using atomic_row_covers [OF w off planned [OF that] row_aligned [OF al]] by (simp add: in_turn_covers [OF gt])
  show "\<exists>t. kernel_body (Smemcpy_atomic_rows (width q) off gt) src q g = Some t \<and>
      covers src p (\<Union>k \<in> {k. unat (thread_of g) + k * ?T < ?rows}.
        {(unat (thread_of g) + k * ?T) * ?W..<(unat (thread_of g) + k * ?T) * ?W + ?W}) t"
    unfolding kernel_body.simps smemcpy_atomic_rows_body_def Let_def range(3) [symmetric]
    by (rule grid_loop_covers [OF no_wrap pos]) (rule element)
next
  show "(\<Union>g \<in> set (threads_of grid kThreadsPerBlock). \<Union>k \<in> {k. unat (thread_of g) + k * (256 * unat grid) < unat (bytes q div width q)}.
      {(unat (thread_of g) + k * (256 * unat grid)) * unat (width q)
         ..<(unat (thread_of g) + k * (256 * unat grid)) * unat (width q) + unat (width q)}) = {..<unat (bytes p)}"
  proof -
    have "unat (bytes q div width q) * unat (width q) = unat (bytes p)"
      using whole(1) agrees_bytes(2) [OF agrees] by (simp add: unat_div)
    then show ?thesis
      using rows_union [of "unat (width q)" "256 * unat grid" "unat (bytes q div width q)"] w grid(2)
      unfolding threads_union [OF grid(1), of "\<lambda>t. \<Union>k \<in> {k. t + k * (256 * unat grid) < unat (bytes q div width q)}.
        {(t + k * (256 * unat grid)) * unat (width q)..<(t + k * (256 * unat grid)) * unat (width q) + unat (width q)}"]
      by auto
  qed
qed

end
