(* ===== verification/Smemcpy_Vector.thy ===== *)
theory Smemcpy_Vector
  imports Smemcpy_Cover
begin

text \<open>
  The vector kernel: when the alignment conditions of the dispatcher hold, no vector
  crosses the end of a row, every vector is naturally aligned on both sides, and the
  prefix, the vectors and the tail cover the fragment.
\<close>

section \<open>Alignment of the fragment\<close>

lemma vector_sizes:
  assumes "wb \<in> {2, 4, 8, 16 :: u64}"
  shows "unat wb dvd 2 ^ 64" and "unat wb dvd 128" and "unat wb \<in> {2, 4, 8, 16}"
    and "x AND (wb - 1) = 0 \<longleftrightarrow> aligned (unat wb) x"
    and "(x XOR y) AND (wb - 1) = 0 \<Longrightarrow> aligned (unat wb) (x - y)"
    and "unat (x AND NOT (wb - 1)) = unat x - unat x mod unat wb"
proof -
  obtain e where e: "e \<in> {1, 2, 3, 4 :: nat}" "wb = 2 ^ e" "unat wb = 2 ^ e"
    using assms that [of 1] that [of 2] that [of 3] that [of 4] by fastforce
  have m: "wb - 1 = mask e" unfolding e(2) by (simp add: mask_eq_exp_minus_1)
  have bits: "unat (take_bit e z) = unat z mod unat wb" for z :: u64
    unfolding e(3) by (simp only: unsigned_take_bit_eq take_bit_nat_def)
  show d: "unat wb dvd 2 ^ 64" and "unat wb dvd 128" and "unat wb \<in> {2, 4, 8, 16}"
    using e(1) unfolding e(3) by auto
  show "x AND (wb - 1) = 0 \<longleftrightarrow> aligned (unat wb) x"
    unfolding m take_bit_eq_mask [symmetric] using bits [of x] by (metis aligned_def unat_eq_0)
  show "aligned (unat wb) (x - y)" if "(x XOR y) AND (wb - 1) = 0"
  proof -
    have "take_bit e x XOR take_bit e y = 0"
      using that unfolding m take_bit_eq_mask [symmetric] by (simp add: take_bit_xor)
    then have "take_bit e x = take_bit e y" by (auto simp: bit_eq_iff bit_xor_iff)
    then show ?thesis unfolding aligned_diff_iff [OF d] using bits by metis
  qed
  have "(x AND NOT (mask e)) + take_bit e x = (x AND NOT (mask e)) OR take_bit e x"
    by (rule disjunctive_add_eq_or) (auto simp: bit_eq_iff bit_simps)
  also have "\<dots> = x" by (auto simp: bit_eq_iff bit_simps)
  finally have "x AND NOT (wb - 1) = x - take_bit e x" unfolding m by (simp add: eq_diff_eq)
  then show "unat (x AND NOT (wb - 1)) = unat x - unat x mod unat wb"
    using bits [of x] by (simp add: unat_sub_if_size mod_le_divisor)
qed

lemma prefix_aligned:
  assumes "n dvd 128" and "source_prefix a b < b"
  shows "aligned n (a + source_prefix a b)"
proof -
  let ?y = "- a AND 127 :: u64"
  have y: "source_prefix a b = ?y"
    using assms(2) by (auto simp: source_prefix_def kSourceTransactionAlignment_def Let_def split: if_splits)
  have "?y = take_bit 7 (- a)" by (simp add: take_bit_eq_mask mask_eq_exp_minus_1)
  then have "unat ?y = unat (- a) mod 2 ^ 7" by (simp only: unsigned_take_bit_eq take_bit_nat_def)
  then have "unat (a + ?y) mod 128 = (unat a + unat (- a)) mod 128"
    using unat_add_mod [of 128 a ?y] by (simp add: mod_add_right_eq)
  also have "\<dots> = 0" using unat_add_mod [of 128 a "- a"] by simp
  finally have "128 dvd unat (a + ?y)" by (simp add: mod_eq_0_iff_dvd)
  then show ?thesis unfolding y using assms(1) by (simp add: aligned_def mod_eq_0_iff_dvd dvd_trans)
qed

lemma fragment_aligned:
  assumes "wb \<in> {2, 4, 8, 16}" and "can_vectorize_pitched wb p (destination_at p (logical_offset p))"
  shows "aligned (unat wb) (source p - logical_offset p)"
    and "aligned (unat wb) (coordinate p (unat (logical_offset p) + i) - (logical_offset p + of_nat i))"
proof -
  note d = vector_sizes(1) [OF assms(1)] and iff = vector_sizes(4) [OF assms(1)]
  have al: "aligned (unat wb) (width p)" "aligned (unat wb) (destination p)" "aligned (unat wb) (destination_row_stride p)"
      "aligned (unat wb) (destination_slice_stride p)" "aligned (unat wb) (source p - destination_at p (logical_offset p))"
    using assms(2) vector_sizes(5) [OF assms(1)] by (simp_all add: can_vectorize_pitched_def Let_def iff)
  have diff: "aligned (unat wb) (x - y)" if "aligned (unat wb) x" "aligned (unat wb) y" for x y
    using that unfolding aligned_diff_iff [OF d] by (simp add: aligned_def)
  have coord: "aligned (unat wb) (coordinate p l - of_nat l)" for l
  proof -
    have "coordinate p l - of_nat l = destination p
        + of_nat (l div unat (width p) div unat (rows p)) * destination_slice_stride p
        + of_nat (l div unat (width p) mod unat (rows p)) * destination_row_stride p
        - (of_nat (l div unat (width p) div unat (rows p)) * rows p + of_nat (l div unat (width p) mod unat (rows p))) * width p"
      using logical_parts [of l p] by (simp add: coordinate_def)
    then show ?thesis using al by (simp only:) (intro diff aligned_add [OF d] aligned_mult [OF d])
  qed
  show "aligned (unat wb) (coordinate p (unat (logical_offset p) + i) - (logical_offset p + of_nat i))"
    using coord [of "unat (logical_offset p) + i"] by simp
  have eq: "source p - logical_offset p = (source p - destination_at p (logical_offset p))
      + (coordinate p (unat (logical_offset p)) - of_nat (unat (logical_offset p)))"
    by (simp add: destination_at_nat)
  show "aligned (unat wb) (source p - logical_offset p)"
    unfolding eq by (intro aligned_add [OF d] al(5) coord)
qed

lemma vector_in_row:
  assumes "(m :: nat) dvd l" and "m dvd w" and "0 < w" and "j < m"
  shows "(l + j) div w = l div w" and "(l + j) mod w = l mod w + j"
proof -
  have "m dvd l mod w" using assms(1,2) by (simp add: dvd_mod)
  then obtain a b where ab: "l mod w = m * a" "w = m * b" using assms(2) by blast
  have "m * a < m * b" using mod_less_divisor [OF assms(3), of l] unfolding ab(1) ab(2) [symmetric] .
  then have "a < b" by simp
  then have "m * a + m \<le> m * b" by (metis Suc_leI mult_Suc_right mult_le_mono2 add.commute)
  then have lt: "l mod w + j < w" using assms(4) ab by linarith
  have l: "l = l div w * w + l mod w" by simp
  show d: "(l + j) div w = l div w"
  proof (rule div_nat_eqI)
    show "w * (l div w) \<le> l + j" using l by (simp only: mult.commute [of w])
    show "l + j < w * Suc (l div w)" using l lt by (simp only: mult_Suc_right mult.commute [of w])
  qed
  show "(l + j) mod w = l mod w + j"
    using div_mult_mod_eq [of "l + j" w, unfolded d] l by linarith
qed

section \<open>Vectors and their union\<close>

lemma planned_range:
  assumes "\<And>j. j < k \<Longrightarrow> planned src p (i + j) = f j"
  shows "planned src p ` {i..<i + k} = f ` {0..<k}"
proof -
  have "planned src p ` {i..<i + k} = planned src p ` (\<lambda>j. i + j) ` {0..<k}" by (simp add: add.commute)
  also have "\<dots> = f ` {0..<k}" unfolding image_image using assms by (intro image_cong) simp_all
  finally show ?thesis .
qed

text \<open>The store of one vector, at an index that is a whole number of vectors after the prefix.\<close>

lemma vector_covers:
  assumes wb: "wb \<in> {2, 4, 8, 16}" and p: "\<not> invalid_params p"
    and vec: "can_vectorize_pitched wb p (destination_at p (logical_offset p))"
    and i: "i = unat (source_prefix (source p) (bytes p)) + c * unat wb" "i + unat wb \<le> unat (bytes p)"
  shows "covers src p {i..<i + unat wb}
           [Put_Word (destination_at p (logical_offset p + of_nat i)) (source p + of_nat i) (unat wb)]"
proof -
  let ?pre = "source_prefix (source p) (bytes p)" and ?wb = "unat wb" and ?L = "unat (logical_offset p) + i"
  note sz = vector_sizes [OF wb]
  have pos: "0 < ?wb" using sz(3) by auto
  have "unat ?pre < unat (bytes p)" using i pos by linarith
  then have pre: "aligned ?wb (source p + ?pre)" using prefix_aligned [OF sz(2)] by (simp add: word_less_nat_alt)
  have of_i: "of_nat i = ?pre + of_nat c * wb" unfolding i(1) by (simp only: of_nat_add of_nat_mult of_nat_unat_u64)
  have self: "aligned ?wb wb" by (simp add: aligned_def)
  have src_al: "aligned ?wb (source p + of_nat i)"
  proof -
    have eq: "source p + of_nat i = (source p + ?pre) + of_nat c * wb" unfolding of_i by simp
    show ?thesis unfolding eq by (intro aligned_add [OF sz(1)] aligned_mult [OF sz(1)] pre self)
  qed
  have diff: "aligned ?wb (x - y)" if "aligned ?wb x" "aligned ?wb y" for x y
    using that unfolding aligned_diff_iff [OF sz(1)] by (simp add: aligned_def)
  have log_al: "aligned ?wb (logical_offset p + of_nat i)"
  proof -
    have eq: "logical_offset p + of_nat i = (source p + of_nat i) - (source p - logical_offset p)" by simp
    show ?thesis unfolding eq by (rule diff [OF src_al fragment_aligned(1) [OF wb vec]])
  qed
  have idx: "unat (logical_offset p + of_nat (i + j)) = ?L + j" if "j < ?wb" for j
    using logical_index [OF p, of "i + j"] that i(2) by simp
  have idx0: "unat (logical_offset p + of_nat i) = ?L" using idx [of 0] pos by simp
  have L: "?wb dvd ?L" using log_al idx0 by (simp add: aligned_def mod_eq_0_iff_dvd)
  have W: "?wb dvd unat (width p)" "0 < unat (width p)"
    using vec valid_params(1) [OF p] by (simp_all add: can_vectorize_pitched_def sz(4) aligned_def mod_eq_0_iff_dvd Let_def)
  have coord: "coordinate p (?L + j) = coordinate p ?L + of_nat j" if "j < ?wb" for j
    using vector_in_row [OF L W that] by (simp add: coordinate_def)
  have dest: "destination_at p (logical_offset p + of_nat (i + j)) = destination_at p (logical_offset p + of_nat i) + of_nat j"
    if "j < ?wb" for j
    unfolding destination_at_nat idx [OF that] idx0 by (rule coord [OF that])
  have "aligned ?wb (coordinate p ?L)"
  proof -
    have "coordinate p ?L = (coordinate p ?L - (logical_offset p + of_nat i)) + (logical_offset p + of_nat i)" by simp
    then show ?thesis using aligned_add [OF sz(1) fragment_aligned(2) [OF wb vec, of i] log_al] by simp
  qed
  then have "access_ok (Put_Word (destination_at p (logical_offset p + of_nat i)) (source p + of_nat i) ?wb)"
    using src_al sz(3) by (simp add: access_ok_def destination_at_nat idx0)
  moreover have "planned src p ` {i..<i + ?wb}
      = set (access_writes src (Put_Word (destination_at p (logical_offset p + of_nat i)) (source p + of_nat i) ?wb))"
  proof -
    have "planned src p (i + j)
        = (destination_at p (logical_offset p + of_nat i) + of_nat j, src (source p + of_nat i + of_nat j))" if "j < ?wb" for j
      using dest [OF that] unfolding planned_def by (simp add: add.assoc)
    from planned_range [OF this, of ?wb] show ?thesis by simp
  qed
  ultimately show ?thesis by (simp add: covers_def)
qed

text \<open>The indices of a thread: a byte of the prefix, its vectors and a byte of the tail.\<close>

definition vector_indices :: "nat \<Rightarrow> nat \<Rightarrow> nat \<Rightarrow> nat \<Rightarrow> nat \<Rightarrow> nat \<Rightarrow> nat set" where
  "vector_indices pre count wb tail T t =
     ((if t < pre then {t} else {}) \<union>
      (\<Union>k \<in> {k. t + k * T < count}. {pre + (t + k * T) * wb..<pre + (t + k * T) * wb + wb})) \<union>
     (if t < tail then {pre + count * wb + t} else {})"

lemma vector_indices_all:
  assumes "pre \<le> T" and "tail \<le> T" and "0 < T" and "0 < wb"
  shows "(\<Union>t \<in> {..<T}. vector_indices pre count wb tail T t) = {..<pre + count * wb + tail}"
proof -
  have "(\<Union>t \<in> {..<T}. if t < pre then {t} else {}) = {..<pre}"
    using assms(1) by (auto split: if_splits)
  moreover have "(\<Union>t \<in> {..<T}. \<Union>k \<in> {k. t + k * T < count}. {pre + (t + k * T) * wb..<pre + (t + k * T) * wb + wb})
      = (\<lambda>i. pre + i) ` {..<count * wb}"
    unfolding rows_union [OF assms(4,3), symmetric] by (simp add: image_UN add.commute add.left_commute)
  moreover have "(\<Union>t \<in> {..<T}. if t < tail then {pre + count * wb + t} else {}) = (\<lambda>i. pre + count * wb + i) ` {..<tail}"
    using assms(2) by (auto split: if_splits)
  ultimately have "(\<Union>t \<in> {..<T}. vector_indices pre count wb tail T t)
      = {..<pre} \<union> (\<lambda>i. pre + i) ` {..<count * wb} \<union> (\<lambda>i. pre + count * wb + i) ` {..<tail}"
    unfolding vector_indices_def UN_Un_distrib by (simp only:)
  also have "\<dots> = {..<pre} \<union> {pre..<pre + count * wb} \<union> {pre + count * wb..<pre + count * wb + tail}"
    by (simp add: lessThan_atLeast0 add.commute)
  also have "\<dots> = {..<pre + count * wb + tail}" by auto
  finally show ?thesis .
qed

definition bulk_of :: "u64 \<Rightarrow> smemcpy_params \<Rightarrow> u64" where
  "bulk_of wb p = (bytes p - source_prefix (source p) (bytes p)) AND NOT (wb - 1)"

definition vector_count :: "u64 \<Rightarrow> smemcpy_params \<Rightarrow> nat" where
  "vector_count wb p = (unat (bytes p) - unat (source_prefix (source p) (bytes p))) div unat wb"

definition tail_of :: "u64 \<Rightarrow> smemcpy_params \<Rightarrow> nat" where
  "tail_of wb p = (unat (bytes p) - unat (source_prefix (source p) (bytes p))) mod unat wb"

lemma pitched_sizes:
  fixes wb :: u64 and p :: smemcpy_params
  assumes "wb \<in> {2, 4, 8, 16}"
  defines "pre \<equiv> source_prefix (source p) (bytes p)"
  shows "unat (bytes p) = unat pre + vector_count wb p * unat wb + tail_of wb p"
    and "unat (bulk_of wb p) = vector_count wb p * unat wb"
    and "unat (bytes p - pre - bulk_of wb p) = tail_of wb p"
    and "unat (pre + bulk_of wb p) = unat pre + vector_count wb p * unat wb"
    and "tail_of wb p < 16"
proof -
  note sz = vector_sizes [OF assms(1)]
  have pre: "unat pre \<le> unat (bytes p)" unfolding pre_def by (rule source_prefix_bounds)
  show n: "unat (bytes p) = unat pre + vector_count wb p * unat wb + tail_of wb p"
    using pre div_mult_mod_eq [of "unat (bytes p) - unat pre" "unat wb"]
    unfolding vector_count_def tail_of_def pre_def [symmetric] by linarith
  have rest: "unat (bytes p - pre) = unat (bytes p) - unat pre" using pre by (intro unat_sub) (simp add: word_le_nat_alt)
  show bulk: "unat (bulk_of wb p) = vector_count wb p * unat wb"
    unfolding bulk_of_def vector_count_def pre_def [symmetric] sz(6) rest by (rule minus_mod_eq_div_mult)
  have "unat (bytes p - pre - bulk_of wb p) = unat (bytes p - pre) - unat (bulk_of wb p)"
    using bulk rest n by (intro unat_sub) (simp add: word_le_nat_alt)
  then show "unat (bytes p - pre - bulk_of wb p) = tail_of wb p" using bulk rest n by simp
  show "unat (pre + bulk_of wb p) = unat pre + vector_count wb p * unat wb"
    using n bulk unat_lt_2_64 [of "bytes p"] by (subst unat_add_no_wrap) simp_all
  have "0 < unat wb" "unat wb \<le> 16" using sz(3) by auto
  then have "tail_of wb p < unat wb" by (simp add: tail_of_def)
  then show "tail_of wb p < 16" using \<open>unat wb \<le> 16\<close> by simp
qed

text \<open>The vectors of one thread.\<close>

lemma vector_loop_covers:
  assumes p: "\<not> invalid_params p" and wb: "wb \<in> {2, 4, 8, 16}"
    and vec: "can_vectorize_pitched wb p (destination_at p (logical_offset p))"
    and grid: "unat grid \<le> 65535" "0 < unat grid" and n: "unat (bytes p) < 2 ^ 63"
    and g: "g \<in> set (threads_of grid kThreadsPerBlock)"
  defines "pre \<equiv> source_prefix (source p) (bytes p)" and "t \<equiv> unat (thread_of g)" and "T \<equiv> 256 * unat grid"
  shows "\<exists>b. grid_loop (\<lambda>index. [Put_Word (destination_at p (logical_offset p + index)) (source p + index) (unat wb)])
             (pre + thread_of g * wb) (pre + bulk_of wb p) (step_of g * wb) = Some b \<and>
           covers src p (\<Union>k \<in> {k. t + k * T < vector_count wb p}. {unat pre + (t + k * T) * unat wb..<unat pre + (t + k * T) * unat wb + unat wb}) b"
proof -
  let ?count = "vector_count wb p"
  note range = threads_of_range [OF grid(1) g, folded t_def T_def] and sizes = pitched_sizes [OF wb, of p, folded pre_def]
  have pos: "0 < unat wb" "unat wb \<le> 16" using vector_sizes(3) [OF wb] by auto
  have "t * unat wb \<le> T * 16" "T * unat wb \<le> T * 16" using range(1) pos(2) by (intro mult_le_mono; simp)+
  moreover have "T \<le> 16776960" using grid(1) by (simp add: T_def)
  ultimately have lt: "t * unat wb \<le> 268431360" "T * unat wb \<le> 268431360" by linarith+
  have sw: "unat (step_of g * wb) = T * unat wb" using lt(2) range(3) by (simp add: unat_word_ariths(2))
  have "unat (thread_of g * wb) = t * unat wb" using lt(1) by (simp add: unat_word_ariths(2) t_def)
  then have index: "unat (pre + thread_of g * wb) = unat pre + t * unat wb" 
    using lt(1) source_prefix_bounds(2) [of "source p" "bytes p", folded pre_def] by (subst unat_add_no_wrap) simp_all
  have at: "unat (pre + thread_of g * wb) + k * unat (step_of g * wb) = unat pre + (t + k * T) * unat wb" for k
    unfolding index sw by (simp add: algebra_simps)
  have inside: "unat pre + (t + k * T) * unat wb < unat (pre + bulk_of wb p) \<longleftrightarrow> t + k * T < ?count" for k
    unfolding sizes(4) using pos(1) by simp
  have vectors: "covers src p {unat pre + (t + k * T) * unat wb..<unat pre + (t + k * T) * unat wb + unat wb}
      [Put_Word (destination_at p (logical_offset p + of_nat (unat pre + (t + k * T) * unat wb)))
         (source p + of_nat (unat pre + (t + k * T) * unat wb)) (unat wb)]" if "t + k * T < ?count" for k
  proof (rule vector_covers [OF wb p vec, folded pre_def, OF refl])
    have "Suc (t + k * T) * unat wb \<le> ?count * unat wb" using that by (intro mult_le_mono1) simp
    then show "unat pre + (t + k * T) * unat wb + unat wb \<le> unat (bytes p)" using sizes(1) by simp
  qed
  show ?thesis
  proof (rule grid_loop_covers [where index = "pre + thread_of g * wb" and step = "step_of g * wb" and bound = "pre + bulk_of wb p"
      and I = "\<lambda>i. {i..<i + unat wb}" and src = src and p = p, unfolded at inside])
    show "unat (pre + bulk_of wb p) + unat (step_of g * wb) \<le> 2 ^ 64"
      unfolding sizes(4) sw using n lt(2) sizes(1) by simp
    show "0 < step_of g * wb" using sw grid(2) pos(1) unfolding T_def by (simp add: word_less_nat_alt)
  qed (rule vectors)
qed

lemma smemcpy_pitched_scatters:
  assumes "distinct_coordinates p" and p: "\<not> invalid_params p" and wb: "wb \<in> {2, 4, 8, 16}"
    and vec: "can_vectorize_pitched wb p (destination_at p (logical_offset p))"
    and grid: "unat grid \<le> 65535" "0 < unat grid" and n: "unat (bytes p) < 2 ^ 63"
  shows "correct_launch src p (Smemcpy_pitched wb) grid p"
proof (rule launch_scatters [OF assms(1), where I = "\<lambda>g. vector_indices (unat (source_prefix (source p) (bytes p)))
    (vector_count wb p) (unat wb) (tail_of wb p) (256 * unat grid) (unat (thread_of g))"])
  let ?pre = "source_prefix (source p) (bytes p)" and ?T = "256 * unat grid"
  note sizes = pitched_sizes [OF wb, of p] and pre = source_prefix_bounds [of "source p" "bytes p"]
  have agrees: "agrees_3d p p" by (simp add: agrees_3d_def same_fragment_def)
  fix g assume g: "g \<in> set (threads_of grid kThreadsPerBlock)"
  let ?t = "unat (thread_of g)"
  obtain b where b: "grid_loop (\<lambda>index. [Put_Word (destination_at p (logical_offset p + index)) (source p + index) (unat wb)])
        (?pre + thread_of g * wb) (?pre + bulk_of wb p) (step_of g * wb) = Some b"
      "covers src p (\<Union>k \<in> {k. ?t + k * ?T < vector_count wb p}. {unat ?pre + (?t + k * ?T) * unat wb..<unat ?pre + (?t + k * ?T) * unat wb + unat wb}) b"
    using vector_loop_covers [OF p wb vec grid n g] by blast
  have start: "covers src p (if ?t < unat ?pre then {?t} else {}) (if thread_of g < ?pre then [scatter_byte src p (thread_of g)] else [])"
    using covers_put_3d [OF agrees, of ?t src] pre(1) by (simp add: word_less_nat_alt scatter_byte_access)
  have final: "covers src p (if ?t < tail_of wb p then {unat ?pre + vector_count wb p * unat wb + ?t} else {})
      (if thread_of g < bytes p - ?pre - bulk_of wb p then [scatter_byte src p (?pre + bulk_of wb p + thread_of g)] else [])"
  proof -
    have idx: "of_nat (unat ?pre + vector_count wb p * unat wb + ?t) = ?pre + bulk_of wb p + thread_of g"
      unfolding sizes(4) [symmetric] by simp
    have lt: "thread_of g < bytes p - ?pre - bulk_of wb p \<longleftrightarrow> ?t < tail_of wb p"
      unfolding word_less_nat_alt sizes(3) ..
    show ?thesis
      using covers_put_3d [OF agrees, of "unat ?pre + vector_count wb p * unat wb + ?t" src] sizes(1)
      unfolding idx lt scatter_byte_access by simp
  qed
  show "\<exists>t. kernel_body (Smemcpy_pitched wb) src p g = Some t \<and>
      covers src p (vector_indices (unat ?pre) (vector_count wb p) (unat wb) (tail_of wb p) ?T ?t) t"
    unfolding kernel_body.simps smemcpy_pitched_vector_body_def Let_def vector_indices_def
    using covers_append [OF covers_append [OF start b(2)] final] b(1) [unfolded destination_at_def Let_def]
    unfolding bulk_of_def by simp
next
  have "unat (source_prefix (source p) (bytes p)) \<le> 256 * unat grid" "tail_of wb p \<le> 256 * unat grid" "0 < unat wb"
    using source_prefix_bounds(2) [of "source p" "bytes p"] pitched_sizes(5) [OF wb, of p] grid(2) vector_sizes(3) [OF wb] by auto
  then show "(\<Union>g \<in> set (threads_of grid kThreadsPerBlock). vector_indices (unat (source_prefix (source p) (bytes p)))
      (vector_count wb p) (unat wb) (tail_of wb p) (256 * unat grid) (unat (thread_of g))) = {..<unat (bytes p)}"
    unfolding threads_union [OF grid(1), of "vector_indices (unat (source_prefix (source p) (bytes p)))
      (vector_count wb p) (unat wb) (tail_of wb p) (256 * unat grid)"]
    using vector_indices_all grid(2) pitched_sizes(1) [OF wb, of p] by simp
qed

end
