(* ===== verification/Smemcpy_Table.thy ===== *)
theory Smemcpy_Table
  imports Smemcpy_Kernels
begin

text \<open>
  The table of kernels: its names are distinct, and it has an entry for every
  specialisation the dispatcher can select.
\<close>

lemma kKernels_distinct: "distinct (map fst kKernels)"
  by code_simp

lemma kKernels_lookup: "(name, f) \<in> set kKernels \<Longrightarrow> map_of kKernels name = Some f"
  using kKernels_distinct by (rule map_of_is_SomeI)

lemma launched_kernel:
  assumes "\<not> use_cuda_memcpy d" and "blocks d \<noteq> 0"
    and "(the (lupine_smemcpy_kernel_name (Some d)), f) \<in> set kKernels"
  shows "runtime_kernel d = Some f"
  using assms kKernels_lookup [OF assms(3)] by (simp add: runtime_kernel_def lupine_smemcpy_kernel_name_def)

lemma scalar_entries: "(''lupine_smemcpy_3d'', Smemcpy_3d) \<in> set kKernels" "(''lupine_smemcpy_2d'', Smemcpy_2d) \<in> set kKernels"
  unfolding kKernels_def set_append by (rule UnI1, simp)+

lemma pitched_entry:
  "wb \<in> {2, 4, 8, 16} \<Longrightarrow> (''lupine_smemcpy_pitched_'' @ to_decimal wb, Smemcpy_pitched (of_nat wb)) \<in> set kKernels"
  unfolding kKernels_def set_append set_map
  by (rule UnI2, rule UnI1, rule image_eqI [where x = wb]) (simp_all del: to_decimal.simps)

lemma narrow_2d_entry:
  "(w, n) \<in> {(1, 1), (1, 4), (2, 1), (2, 4), (3, 1), (3, 4)} \<Longrightarrow>
     (''lupine_smemcpy_narrow_2d_'' @ to_decimal w @ ''_'' @ to_decimal n, Smemcpy_narrow_2d (of_nat w) n) \<in> set kKernels"
  unfolding kKernels_def set_append set_map
  by (rule UnI2, rule UnI2, rule UnI1, rule image_eqI [where x = "(w, n)"]) (simp_all del: to_decimal.simps)

lemma narrow_3d_entry:
  "(w, n) \<in> {(1, 1), (1, 4), (2, 1), (2, 4), (3, 1), (3, 4)} \<Longrightarrow>
     (''lupine_smemcpy_narrow_3d_'' @ to_decimal w @ ''_'' @ to_decimal n, Smemcpy_narrow_3d (of_nat w) n) \<in> set kKernels"
  unfolding kKernels_def set_append set_map
  by (rule UnI2, rule UnI2, rule UnI2, rule UnI1, rule image_eqI [where x = "(w, n)"]) (simp_all del: to_decimal.simps)

lemma atomic_2d_entry:
  "gt \<in> {4, 8, 16} \<Longrightarrow> off \<in> {0, 1, 2, 3} \<Longrightarrow>
     (''lupine_smemcpy_atomic_2d_'' @ to_decimal off @ ''_'' @ to_decimal gt, Smemcpy_atomic_2d (of_nat off) (of_nat gt)) \<in> set kKernels"
  unfolding kKernels_def set_append set_map set_product
  by (rule UnI2, rule UnI2, rule UnI2, rule UnI2, rule UnI1, rule image_eqI [where x = "(gt, off)"], simp del: to_decimal.simps,
      rule SigmaI) simp_all

lemma atomic_rows_entry:
  "gt \<in> {4, 8, 16} \<Longrightarrow> (w, off) \<in> {(2, 0), (2, 1), (2, 2), (3, 0), (3, 1)} \<Longrightarrow>
     (''lupine_smemcpy_atomic_rows_'' @ to_decimal w @ ''_'' @ to_decimal off @ ''_'' @ to_decimal gt,
      Smemcpy_atomic_rows (of_nat w) (of_nat off) (of_nat gt)) \<in> set kKernels"
  unfolding kKernels_def set_append set_map set_product
  by (rule UnI2, rule UnI2, rule UnI2, rule UnI2, rule UnI2, rule image_eqI [where x = "(gt, w, off)"], simp del: to_decimal.simps,
      rule SigmaI) simp_all

end
