(* ===== verification/Smemcpy_Launch.thy ===== *)
theory Smemcpy_Launch
  imports Smemcpy_Vector Smemcpy_Table
begin

text \<open>
  The dispatcher and the kernels together: each launch decision leads to a correct
  launch, so an enqueued scatter copy does the work of the reference.
\<close>

section \<open>Launch geometry\<close>

lemma blocks_for_bounds:
  "0 < unat (blocks_for n k)" "unat (blocks_for n k) \<le> 65535"
proof -
  have "1 \<le> blocks_for n k" "blocks_for n k \<le> 65535" by (auto simp: blocks_for_def kMaximumBlocks_def Let_def)
  then show "0 < unat (blocks_for n k)" "unat (blocks_for n k) \<le> 65535" by (simp_all add: word_le_nat_alt)
qed

lemma blocks_for_u32: "unat (ucast (blocks_for n k) :: u32) = unat (blocks_for n k)"
  using blocks_for_bounds [of n k] by (simp add: unsigned_ucast_eq unsigned_take_bit_eq take_bit_nat_eq_self)

text \<open>As long as the number of blocks is not capped, the threads reach every byte.\<close>

lemma rounded_up:
  fixes n b :: nat
  assumes "256 \<le> b" and "n \<le> 16776960"
  defines "full \<equiv> n div b + of_bool (n mod b \<noteq> 0)"
  shows "n \<le> full * b" and "full \<le> 65535"
proof -
  have pos: "0 < b" using assms(1) by simp
  have n: "n div b * b + n mod b = n" "n mod b < b" using pos by simp_all
  show "n \<le> full * b"
  proof (cases "n mod b = 0")
    case True
    then show ?thesis using n(1) unfolding full_def by simp
  next
    case False
    then have "full * b = n div b * b + b" unfolding full_def by simp
    then show ?thesis using n by linarith
  qed
  have le: "65535 * 256 \<le> 65535 * b" using assms(1) by (rule mult_le_mono2)
  show "full \<le> 65535"
  proof (rule ccontr)
    assume "\<not> full \<le> 65535"
    then have big: "65536 \<le> full" by simp
    show False
    proof (cases "n mod b = 0")
      case True
      then have "65536 * b \<le> n div b * b" using big unfolding full_def by (intro mult_le_mono1) simp
      then show False using n le assms(2) pos by linarith
    next
      case False
      then have "65535 * b \<le> n div b * b" using big unfolding full_def by (intro mult_le_mono1) simp
      then show False using n(1) le assms(2) False by linarith
    qed
  qed
qed

lemma blocks_for_reach:
  assumes "k = 1 \<or> k = 4" and "unat n \<le> 16776960"
  shows "unat n \<le> unat k * (256 * unat (blocks_for n k))"
proof -
  define bb where "bb = (ucast kThreadsPerBlock * k :: u64)"
  define full where "full = n div bb + bool_word (n mod bb \<noteq> 0)"
  have bb: "unat bb = 256 * unat k" "256 \<le> unat bb" using assms(1) by (auto simp: bb_def kThreadsPerBlock_def)
  note up = rounded_up [OF bb(2) assms(2)]
  have "n mod bb \<noteq> 0 \<longleftrightarrow> unat n mod unat bb \<noteq> 0" by (metis unat_eq_0 unat_mod)
  then have "unat (bool_word (n mod bb \<noteq> 0)) = of_bool (unat n mod unat bb \<noteq> 0)" by (simp add: bool_word_def)
  then have full: "unat full = unat n div unat bb + of_bool (unat n mod unat bb \<noteq> 0)"
    using up(2) unfolding full_def by (subst unat_add_no_wrap) (simp_all add: unat_div)
  have "unat (blocks_for n k) = min (max (unat full) 1) 65535"
    unfolding blocks_for_def Let_def bb_def [symmetric] full_def [symmetric] kMaximumBlocks_def
    by (simp add: min_def max_def word_le_nat_alt)
  then have "unat full \<le> unat (blocks_for n k)" using up(2) full by simp
  then have "unat full * unat bb \<le> unat (blocks_for n k) * unat bb" by (rule mult_le_mono1)
  then have "unat n \<le> unat (blocks_for n k) * unat bb" using up(1) unfolding full [symmetric] by (rule order_trans [rotated])
  then show ?thesis unfolding bb(1) by (simp only: mult.commute mult.left_commute)
qed

section \<open>Rebased parameters\<close>

lemma last_logical:
  assumes "\<not> invalid_params p" and "bytes p \<noteq> 0"
  shows "unat (logical_offset p + bytes p - 1) = unat (logical_offset p) + unat (bytes p) - 1" and "0 < unat (bytes p)"
proof -
  show pos: "0 < unat (bytes p)" using assms(2) by (simp add: unat_gt_0)
  have eq: "logical_offset p + bytes p - 1 = logical_offset p + of_nat (unat (bytes p) - 1)"
    using pos by (simp add: of_nat_diff)
  show "unat (logical_offset p + bytes p - 1) = unat (logical_offset p) + unat (bytes p) - 1"
    unfolding eq using logical_index [OF assms(1), of "unat (bytes p) - 1"] pos by simp
qed

abbreviation first_slice_of :: "smemcpy_params \<Rightarrow> u64" where
  "first_slice_of p \<equiv> logical_offset p div width p div rows p"

abbreviation last_slice_of :: "smemcpy_params \<Rightarrow> u64" where
  "last_slice_of p \<equiv> (logical_offset p + bytes p - 1) div width p div rows p"

definition rebase_row :: "smemcpy_params \<Rightarrow> smemcpy_params" where
  "rebase_row p = (let first_row_index = logical_offset p div width p in
     p\<lparr>destination := destination p + first_slice_of p * destination_slice_stride p
         + (first_row_index - first_slice_of p * rows p) * destination_row_stride p,
       logical_offset := logical_offset p - first_row_index * width p\<rparr>)"

definition rebase_slice :: "smemcpy_params \<Rightarrow> smemcpy_params" where
  "rebase_slice p = (if first_slice_of p \<noteq> 0
     then p\<lparr>destination := destination p + first_slice_of p * destination_slice_stride p,
            logical_offset := logical_offset p - first_slice_of p * (width p * rows p)\<rparr>
     else p)"

lemma rebase_row_agrees:
  assumes p: "\<not> invalid_params p" and "bytes p \<noteq> 0" and "first_slice_of p = last_slice_of p"
  shows "agrees_2d (rebase_row p) p" and "unat (logical_offset (rebase_row p)) = unat (logical_offset p) mod unat (width p)"
proof -
  let ?O = "unat (logical_offset p)" and ?n = "unat (bytes p)" and ?W = "unat (width p)" and ?R = "unat (rows p)"
  note v = valid_params [OF p] and last = last_logical [OF p assms(2)]
  have slices: "?O div ?W div ?R = (?O + ?n - 1) div ?W div ?R"
    using assms(3) last(1) by (metis unat_div)
  have fs: "first_slice_of p = of_nat (?O div ?W div ?R)" by (simp only: unat_div [symmetric] of_nat_unat_u64)
  have fr: "logical_offset p div width p - first_slice_of p * rows p = of_nat (?O div ?W mod ?R)"
    using word_minus_div [of "logical_offset p div width p" "rows p"] by (simp add: unat_div)
  have fx: "logical_offset p - logical_offset p div width p * width p = of_nat (?O mod ?W)"
    by (rule word_minus_div)
  have q: "rebase_row p = p\<lparr>destination := destination p + of_nat (?O div ?W div ?R) * destination_slice_stride p
      + of_nat (?O div ?W mod ?R) * destination_row_stride p, logical_offset := of_nat (?O mod ?W)\<rparr>"
    unfolding rebase_row_def Let_def fr fx unfolding fs ..
  have off: "unat (of_nat (?O mod ?W) :: u64) = ?O mod ?W" by (metis word_mod_nat unat_mod)
  then show "unat (logical_offset (rebase_row p)) = ?O mod ?W" unfolding q by simp
  have "coordinate_2d (rebase_row p) (unat (logical_offset (rebase_row p) + of_nat i)) = destination_at p (logical_offset p + of_nat i)"
    if i: "i < ?n" for i
  proof -
    have lt: "?O mod ?W + i < 2 ^ 64" using v(4) i mod_less_eq_dividend [of ?O ?W] by linarith
    have "unat (of_nat i :: u64) = i" using i unat_lt_2_64 [of "bytes p"] by (simp add: unat_of_nat take_bit_nat_eq_self)
    then have idx: "unat (of_nat (?O mod ?W) + of_nat i :: u64) = ?O mod ?W + i"
      using off lt unat_add_no_wrap [of "of_nat (?O mod ?W)" "of_nat i"] by simp
    have "(?O + i) div (?W * ?R) = ?O div (?W * ?R)"
      using div_between [of ?O "?O + i" "?O + ?n - 1" "?W * ?R"] slices i by (simp add: div_mult2_eq)
    then have same: "(?O + i) div ?W div ?R = ?O div ?W div ?R" by (simp add: div_mult2_eq)
    have "unat (logical_offset (rebase_row p) + of_nat i) = ?O mod ?W + (?O + i - ?O)" unfolding q by (simp add: idx)
    then show ?thesis
      using coordinate_rebase_2d [OF v(1,2) _ same, of "of_nat (?O mod ?W)"] logical_index [OF p i]
      unfolding destination_at_nat q by simp
  qed
  then show "agrees_2d (rebase_row p) p" by (simp add: agrees_2d_def same_fragment_def rebase_row_def Let_def)
qed

lemma rebase_slice_agrees:
  assumes p: "\<not> invalid_params p"
  shows "agrees_3d (rebase_slice p) p"
    and "unat (logical_offset (rebase_slice p)) + unat (bytes p) < 2 ^ 64"
    and "unat (width p) dvd unat (logical_offset p) \<Longrightarrow> unat (width p) dvd unat (logical_offset (rebase_slice p))"
proof -
  let ?O = "unat (logical_offset p)" and ?W = "unat (width p)" and ?R = "unat (rows p)"
  let ?s = "?O div ?W div ?R"
  note v = valid_params [OF p]
  have fs: "first_slice_of p = of_nat ?s" by (simp only: unat_div [symmetric] of_nat_unat_u64)
  have le: "?s * (?W * ?R) \<le> ?O" by (simp add: div_mult2_eq [symmetric])
  have "first_slice_of p * (width p * rows p) = of_nat (?s * (?W * ?R))" unfolding fs by simp
  then have off: "logical_offset p - first_slice_of p * (width p * rows p) = of_nat (?O - ?s * (?W * ?R))"
    using le by (simp add: of_nat_diff)
  have q: "rebase_slice p = p\<lparr>destination := destination p + of_nat ?s * destination_slice_stride p,
      logical_offset := of_nat (?O - ?s * (?W * ?R))\<rparr>"
    unfolding rebase_slice_def off unfolding fs by (cases "of_nat ?s = (0 :: u64)") (use off fs in \<open>auto simp: of_nat_diff\<close>)
  have u: "unat (of_nat (?O - ?s * (?W * ?R)) :: u64) = ?O - ?s * (?W * ?R)"
    using unat_lt_2_64 [of "logical_offset p"] by (simp add: unat_of_nat take_bit_nat_eq_self)
  show "unat (logical_offset (rebase_slice p)) + unat (bytes p) < 2 ^ 64" unfolding q using u v(4) by simp
  show "?W dvd unat (logical_offset (rebase_slice p))" if "?W dvd ?O"
    unfolding q using that u by (simp add: dvd_diff_nat)
  have "destination_at (rebase_slice p) (logical_offset (rebase_slice p) + of_nat i) = destination_at p (logical_offset p + of_nat i)"
    if i: "i < unat (bytes p)" for i
  proof -
    have "unat (of_nat i :: u64) = i" using i unat_lt_2_64 [of "bytes p"] by (simp add: unat_of_nat take_bit_nat_eq_self)
    then have "unat (of_nat (?O - ?s * (?W * ?R)) + of_nat i :: u64) = ?O + i - ?s * (?W * ?R)"
      using u le v(4) i unat_add_no_wrap [of "of_nat (?O - ?s * (?W * ?R))" "of_nat i"] by simp
    then show ?thesis
      using coordinate_rebase [OF v(1,2), of ?s "?O + i"] le logical_index [OF p i] unfolding destination_at_nat q by simp
  qed
  then show "agrees_3d (rebase_slice p) p" by (simp add: agrees_3d_def same_fragment_def rebase_slice_def)
qed

section \<open>Atomic launches\<close>

lemma pred_div_4: "(u :: nat) mod 4 \<noteq> 0 \<Longrightarrow> (u - 1) div 4 = u div 4"
proof (rule div_nat_eqI)
  assume u: "u mod 4 \<noteq> 0"
  have d: "u div 4 * 4 + u mod 4 = u" "u mod 4 < 4" by simp_all
  show "4 * (u div 4) \<le> u - 1" using u d by linarith
  show "u - 1 < 4 * Suc (u div 4)" using d by simp
qed

lemma power_stride_aligned:
  fixes stride :: u64
  assumes "64 \<le> stride" and "stride AND (stride - 1) = 0"
  shows "aligned 4 stride"
unfolding aligned_def
proof (rule ccontr)
  assume low: "unat stride mod 4 \<noteq> 0"
  have big: "64 \<le> unat stride" using assms(1) by (simp add: word_le_nat_alt)
  have drop: "unat (drop_bit 2 x) = unat x div 4" for x :: u64
    by (simp add: drop_bit_eq_div unat_div)
  have "unat (stride - 1) = unat stride - 1" using big by (subst unat_sub) (simp_all add: word_le_nat_alt)
  then have "unat (drop_bit 2 (stride - 1)) = unat (drop_bit 2 stride)" using pred_div_4 [OF low] by (simp only: drop)
  then have "drop_bit 2 (stride - 1) = drop_bit 2 stride" by (simp only: word_unat_eq_iff)
  moreover have "drop_bit 2 stride AND drop_bit 2 (stride - 1) = 0"
    unfolding drop_bit_and [symmetric] assms(2) by (rule drop_bit_of_0)
  ultimately have "drop_bit 2 stride = 0" by (simp only: and.idem)
  then have "unat stride div 4 = 0" using drop [of stride] by simp
  then show False using big by simp
qed

lemma atomic_group_threads_facts:
  assumes "atomic_group_threads target w stride \<noteq> 0"
  shows "atomic_group_threads target w stride \<in> {4, 8, 16}" and "aligned 4 stride"
proof -
  have ok: "64 \<le> stride" "stride \<le> 512" "stride AND (stride - 1) = 0"
    using assms by (auto simp: atomic_group_threads_def not_less split: if_splits)
  show "aligned 4 stride" by (rule power_stride_aligned [OF ok(1,3)])
  show "atomic_group_threads target w stride \<in> {4, 8, 16}"
    using assms by (cases target) (auto simp: atomic_group_threads_def split: if_splits)
qed

lemma atomic_threads_facts:
  assumes "atomic_threads_for p device fd fs ls \<noteq> 0"
  shows "atomic_threads_for p device fd fs ls \<in> {4, 8, 16}" and "aligned 4 (destination_row_stride p)"
    and "rows_fit_atomic_word p fd" and "fs \<noteq> ls \<Longrightarrow> destination_slice_stride p = destination_row_stride p * rows p"
  using assms atomic_group_threads_facts [of "atomic_target_for device" "width p" "destination_row_stride p"]
  by (auto simp: atomic_threads_for_def Let_def split: if_splits)

text \<open>The byte offset of the first row in its word is that of every row.\<close>

lemma low_bits: "unat (a AND 3 :: u64) = unat a mod 4" "unat (ucast (a AND 3 :: u64) :: u32) = unat a mod 4"
proof -
  have m: "(3 :: u64) = mask 2" by (simp add: mask_eq_exp_minus_1)
  have "unat (take_bit 2 a) = unat a mod 2 ^ 2" by (simp only: unsigned_take_bit_eq take_bit_nat_def)
  then show l: "unat (a AND 3) = unat a mod 4" unfolding m take_bit_eq_mask [symmetric] by simp
  have "unat (ucast (a AND 3) :: u32) = unat (a AND 3) mod 2 ^ 32"
    by (simp add: unsigned_ucast_eq unsigned_take_bit_eq take_bit_nat_def)
  then show "unat (ucast (a AND 3) :: u32) = unat a mod 4" using l by simp
qed

lemma unat_widen: "unat (ucast y :: u64) = unat y" for y :: u32
proof -
  have "unat y < 2 ^ 64" by (rule order_less_le_trans [OF unsigned_less]) simp
  then show ?thesis by (simp add: unsigned_ucast_eq take_bit_nat_eq_self)
qed

lemma atomic_offset_aligned:
  assumes "agrees_2d q p" and "0 < unat (bytes p)" and "unat (width q) dvd unat (logical_offset q)"
    and "aligned 4 (destination_row_stride q)"
  defines "fd \<equiv> destination_at p (logical_offset p)"
  shows "aligned 4 (destination q - ucast (ucast (fd AND 3) :: u32))"
proof -
  have four: "4 dvd (2 :: nat) ^ 64" by simp
  have "coordinate_2d q (unat (logical_offset q + of_nat 0)) = destination_at p (logical_offset p + of_nat 0)"
    using assms(1,2) unfolding agrees_2d_def by blast
  then have "fd = coordinate_2d q (unat (logical_offset q))" by (simp add: fd_def)
  then have fd: "fd = destination q + of_nat (unat (logical_offset q) div unat (width q)) * destination_row_stride q"
    using assms(3) by (simp add: coordinate_2d_def)
  have "aligned 4 (fd - destination q)" unfolding fd using aligned_mult [OF four assms(4)] by simp
  moreover have "aligned 4 (fd - ucast (ucast (fd AND 3) :: u32))"
  proof -
    have "unat (ucast (ucast (fd AND 3) :: u32) :: u64) = unat (ucast (fd AND 3) :: u32)" by (rule unat_widen)
    then have "unat (ucast (ucast (fd AND 3) :: u32) :: u64) mod 4 = unat fd mod 4" using low_bits(2) [of fd] by simp
    then show ?thesis unfolding aligned_diff_iff [OF four] by (rule sym)
  qed
  ultimately show ?thesis unfolding aligned_diff_iff [OF four] by simp
qed

lemma width_cases:
  fixes w :: u64
  assumes "0 < unat w" and "w \<le> 3"
  shows "w = 1 \<or> w = 2 \<or> w = 3"
proof -
  have "unat w = 1 \<or> unat w = 2 \<or> unat w = 3" using assms by (auto simp: word_le_nat_alt)
  then have "of_nat (unat w) = (1 :: u64) \<or> of_nat (unat w) = (2 :: u64) \<or> of_nat (unat w) = (3 :: u64)" by fastforce
  then show ?thesis by (simp only: of_nat_unat_u64)
qed

section \<open>Launch decisions\<close>

text \<open>A descriptor that runs a kernel, and runs it correctly for the given parameters.\<close>

definition correct_descriptor :: "smemcpy_params \<Rightarrow> launch_descriptor \<Rightarrow> bool" where
  "correct_descriptor p d =
     (\<not> use_cuda_memcpy d \<and> blocks d \<noteq> 0 \<and> threads d = kThreadsPerBlock \<and>
      (\<exists>f. runtime_kernel d = Some f \<and> (\<forall>src. correct_launch src p f (blocks d) (params d))))"

lemma correct_descriptorI:
  assumes "\<not> use_cuda_memcpy d" and "blocks d = ucast (blocks_for n k)" and "threads d = kThreadsPerBlock"
    and "(the (lupine_smemcpy_kernel_name (Some d)), f) \<in> set kKernels"
    and "\<And>src. \<lbrakk>unat (blocks d) \<le> 65535; 0 < unat (blocks d)\<rbrakk> \<Longrightarrow> correct_launch src p f (blocks d) (params d)"
  shows "correct_descriptor p d"
proof -
  have grid: "unat (blocks d) \<le> 65535" "0 < unat (blocks d)"
    unfolding assms(2) blocks_for_u32 using blocks_for_bounds [of n k] by auto
  then have "blocks d \<noteq> 0" by auto
  then show ?thesis using assms grid launched_kernel [OF assms(1) _ assms(4)] by (auto simp: correct_descriptor_def)
qed

lemma pitched_correct:
  assumes "distinct_coordinates p" and "\<not> invalid_params p" and "unat (bytes p) < 2 ^ 63"
    and "select_pitched_vector_launch (initial_launch p) (destination_at p (logical_offset p)) = (True, d)"
  shows "correct_descriptor p d"
proof -
  obtain wb where wb: "wb \<in> {2, 4, 8, 16}" "can_vectorize_pitched wb p (destination_at p (logical_offset p))"
      "d = set_pitched_vector_launch wb (initial_launch p)"
    using assms(4) by (auto simp: select_pitched_vector_launch_def initial_launch_def split: if_splits)
  show ?thesis
  proof (rule correct_descriptorI [where f = "Smemcpy_pitched wb"])
    show "blocks d = ucast (blocks_for (bytes p) wb)" by (simp add: wb(3) set_pitched_vector_launch_def initial_launch_def)
    show "\<not> use_cuda_memcpy d" "threads d = kThreadsPerBlock" by (simp_all add: wb(3) set_pitched_vector_launch_def initial_launch_def)
    have "blocks d \<noteq> 0"
      using blocks_for_bounds [of "bytes p" wb] blocks_for_u32 [of "bytes p" wb] \<open>blocks d = _\<close> by auto
    then have "lupine_smemcpy_kernel_name (Some d) = Some (''lupine_smemcpy_pitched_'' @ to_decimal (unat (ucast wb :: u32)))"
      by (simp add: lupine_smemcpy_kernel_name_def wb(3) set_pitched_vector_launch_def initial_launch_def)
    moreover have "unat (ucast wb :: u32) = unat wb" "unat wb \<in> {2, 4, 8, 16}" using wb(1) by auto
    ultimately show "(the (lupine_smemcpy_kernel_name (Some d)), Smemcpy_pitched wb) \<in> set kKernels"
      using pitched_entry [of "unat wb"] by simp
    show "correct_launch src p (Smemcpy_pitched wb) (blocks d) (params d)"
      if "unat (blocks d) \<le> 65535" "0 < unat (blocks d)" for src
      using smemcpy_pitched_scatters [OF assms(1,2) wb(1,2) that assms(3)]
      by (simp add: wb(3) set_pitched_vector_launch_def initial_launch_def)
  qed
qed

lemma blocks_nonzero: "(ucast (blocks_for n k) :: u32) \<noteq> 0"
  using blocks_for_bounds(1) [of n k] blocks_for_u32 [of n k] by (metis unat_0 less_irrefl)

lemma scalar_correct:
  assumes "distinct_coordinates p" and "unat (bytes p) < 2 ^ 63" and "\<not> width p \<le> 3"
    and "if is_3d then agrees_3d q p else agrees_2d q p"
  shows "correct_descriptor p (kernel_for_slice p 0 lh fd is_3d ((initial_launch p)\<lparr>params := q\<rparr>))" (is "correct_descriptor p ?d")
proof (rule correct_descriptorI [where f = "if is_3d then Smemcpy_3d else Smemcpy_2d"])
  have bytes: "bytes q = bytes p" using assms(4) agrees_bytes by (auto split: if_splits)
  show b: "blocks ?d = ucast (blocks_for (bytes p) 1)" and "\<not> use_cuda_memcpy ?d" and "threads ?d = kThreadsPerBlock"
    using assms(3) by (simp_all add: kernel_for_slice_def initial_launch_def)
  show "(the (lupine_smemcpy_kernel_name (Some ?d)), if is_3d then Smemcpy_3d else Smemcpy_2d) \<in> set kKernels"
    using assms(3) blocks_nonzero [of "bytes p" 1] scalar_entries
    by (simp add: lupine_smemcpy_kernel_name_def kernel_for_slice_def initial_launch_def)
  show "correct_launch src p (if is_3d then Smemcpy_3d else Smemcpy_2d) (blocks ?d) (params ?d)"
    if "unat (blocks ?d) \<le> 65535" "0 < unat (blocks ?d)" for src
    using that assms bytes smemcpy_3d_scatters [OF assms(1) _ that] smemcpy_2d_scatters [OF assms(1) _ that]
    by (simp add: kernel_for_slice_def initial_launch_def)
qed

lemma narrow_correct:
  assumes "distinct_coordinates p" and "unat (bytes p) \<le> 16776960" and "0 < unat (width p)" and "width p \<le> 3"
    and "if is_3d then agrees_3d q p else agrees_2d q p" and "width q = width p"
  shows "correct_descriptor p (kernel_for_slice p 0 lh fd is_3d ((initial_launch p)\<lparr>params := q\<rparr>))" (is "correct_descriptor p ?d")
proof -
  define n where "n = (if lh then kNarrowItemsPerThread else 1)"
  have n: "n = 1 \<or> n = 4" by (simp add: n_def kNarrowItemsPerThread_def)
  have items: "unat (ucast n :: u32) = unat n" "unat n \<le> 4" using n by auto
  have w: "width p = 1 \<or> width p = 2 \<or> width p = 3" by (rule width_cases [OF assms(3,4)])
  have bytes: "bytes q = bytes p" using assms(5) agrees_bytes by (auto split: if_splits)
  have d: "?d = set_narrow_launch is_3d (width p) n ((initial_launch p)\<lparr>params := q\<rparr>)"
    using assms(4) by (simp add: kernel_for_slice_def n_def)
  let ?f = "if is_3d then Smemcpy_narrow_3d (width p) (unat n) else Smemcpy_narrow_2d (width p) (unat n)"
  show ?thesis
  proof (rule correct_descriptorI [where f = ?f])
    show "blocks ?d = ucast (blocks_for (bytes p) n)" and "\<not> use_cuda_memcpy ?d" and "threads ?d = kThreadsPerBlock"
      unfolding d by (simp_all add: set_narrow_launch_def initial_launch_def bytes)
    have "(unat (width p), unat n) \<in> {(1, 1), (1, 4), (2, 1), (2, 4), (3, 1), (3, 4)}"
      "unat (ucast (width p) :: u32) = unat (width p)" using n w by auto
    then show "(the (lupine_smemcpy_kernel_name (Some ?d)), ?f) \<in> set kKernels"
      unfolding d using blocks_nonzero [of "bytes p" n] items(1)
        narrow_2d_entry [of "unat (width p)" "unat n"] narrow_3d_entry [of "unat (width p)" "unat n"]
      by (simp add: lupine_smemcpy_kernel_name_def set_narrow_launch_def initial_launch_def bytes)
    show "correct_launch src p ?f (blocks ?d) (params ?d)" if "unat (blocks ?d) \<le> 65535" "0 < unat (blocks ?d)" for src
    proof -
      have "blocks ?d = ucast (blocks_for (bytes p) n)" "params ?d = q"
        unfolding d by (simp_all add: set_narrow_launch_def initial_launch_def bytes)
      then have "unat (bytes q) \<le> unat n * (256 * unat (blocks ?d))"
        using blocks_for_reach [OF n assms(2)] by (simp add: blocks_for_u32 bytes)
      then show ?thesis
        using smemcpy_narrow_3d_scatters [OF assms(1) _ that items(2), of q src]
          smemcpy_narrow_2d_scatters [OF assms(1) _ that items(2), of q src] assms(5,6) \<open>params ?d = q\<close> by (auto split: if_splits)
    qed
  qed
qed

lemma atomic_correct:
  assumes "distinct_coordinates p" and p: "\<not> invalid_params p" and "unat (bytes p) < 2 ^ 63" and "bytes p \<noteq> 0"
    and "gt \<in> {4, 8, 16}" and "width p \<le> 3" and agrees: "agrees_2d q p" and shape: "width q = width p" "destination_row_stride q = destination_row_stride p"
    and wrap: "unat (logical_offset q) + unat (bytes p) < 2 ^ 64"
    and whole: "unat (width p) dvd unat (logical_offset p) \<Longrightarrow> unat (width p) dvd unat (logical_offset q)"
    and stride: "aligned 4 (destination_row_stride p)"
  defines "fd \<equiv> destination_at p (logical_offset p)"
  assumes fit: "rows_fit_atomic_word p fd"
  shows "correct_descriptor p (kernel_for_slice p gt lh fd is_3d ((initial_launch p)\<lparr>params := q\<rparr>))" (is "correct_descriptor p ?d")
proof -
  let ?off = "ucast (fd AND 3) :: u32"
  have w: "width p = 1 \<or> width p = 2 \<or> width p = 3" by (rule width_cases [OF valid_params(1) [OF p] assms(6)])
  have bytes: "bytes q = bytes p" by (rule agrees_bytes(2) [OF agrees])
  have n: "0 < unat (bytes p)" using assms(4) by (simp add: unat_gt_0)
  have rows: "logical_offset p mod width p = 0" "bytes p mod width p = 0" "(fd AND 3) + width p \<le> 4"
    using fit by (simp_all add: rows_fit_atomic_word_def Let_def)
  have whole_n: "unat (width q) dvd unat (bytes q)" and whole_o: "unat (width q) dvd unat (logical_offset q)"
    using rows(1,2) whole shape(1) bytes by (metis unat_mod unat_0 mod_eq_0_iff_dvd)+
  have al: "aligned 4 (destination_row_stride q)" "aligned 4 (destination q - ucast ?off)"
    using stride shape(2) atomic_offset_aligned [OF agrees n whole_o] by (simp_all add: fd_def)
  have off: "unat ?off = unat fd mod 4" "?off < 4" by (simp_all add: low_bits word_less_nat_alt)
  have off_w: "unat ?off + unat (width p) \<le> 4"
  proof -
    have "unat ((fd AND 3) + width p) = unat fd mod 4 + unat (width p)"
      using w by (subst unat_add_no_wrap) (auto simp: low_bits)
    then show ?thesis using rows(3) off(1) by (simp add: word_le_nat_alt)
  qed
  have d: "?d = set_atomic_launch (width p) ?off gt ((initial_launch p)\<lparr>params := q\<rparr>)"
    using assms(5,6) by (auto simp: kernel_for_slice_def)
  have fields: "blocks ?d = ucast (blocks_for (bytes p) (width p))" "params ?d = q" "\<not> use_cuda_memcpy ?d" "threads ?d = kThreadsPerBlock"
    unfolding d by (simp_all add: set_atomic_launch_def initial_launch_def bytes)
  have name: "the (lupine_smemcpy_kernel_name (Some ?d)) =
      (if width p = 1 then ''lupine_smemcpy_atomic_2d_'' @ to_decimal (unat ?off) @ ''_'' @ to_decimal (unat gt)
       else ''lupine_smemcpy_atomic_rows_'' @ to_decimal (unat (ucast (width p) :: u32)) @ ''_'' @ to_decimal (unat ?off) @ ''_'' @ to_decimal (unat gt))"
    unfolding d using blocks_nonzero [of "bytes p" "width p"]
    by (simp add: lupine_smemcpy_kernel_name_def set_atomic_launch_def initial_launch_def bytes)
  have gt: "unat gt \<in> {4, 8, 16}" using assms(5) by auto
  let ?f = "if width p = 1 then Smemcpy_atomic_2d ?off gt else Smemcpy_atomic_rows (width p) ?off gt"
  have self: "of_nat (unat ?off) = ?off" "of_nat (unat gt) = gt" "of_nat (unat (width p)) = width p"
    by simp_all
  show ?thesis
  proof (rule correct_descriptorI [where f = ?f])
    show "\<not> use_cuda_memcpy ?d" "blocks ?d = ucast (blocks_for (bytes p) (width p))" "threads ?d = kThreadsPerBlock"
      using fields by simp_all
    show "(the (lupine_smemcpy_kernel_name (Some ?d)), ?f) \<in> set kKernels"
    proof (cases "width p = 1")
      case True
      have "unat ?off \<in> {0, 1, 2, 3}" using off(1) by auto
      from atomic_2d_entry [OF gt this] show ?thesis unfolding name self by (simp only: True simp_thms if_True)
    next
      case False
      then have "(unat (width p), unat ?off) \<in> {(2, 0), (2, 1), (2, 2), (3, 0), (3, 1)}" "unat (ucast (width p) :: u32) = unat (width p)"
        using w off_w by auto
      then show ?thesis using atomic_rows_entry [OF gt, of "unat (width p)" "unat ?off"] unfolding name self by (simp only: False simp_thms if_False)
    qed
    show "correct_launch src p ?f (blocks ?d) (params ?d)" if "unat (blocks ?d) \<le> 65535" "0 < unat (blocks ?d)" for src
    proof (cases "width p = 1")
      case True
      have "correct_launch src p (Smemcpy_atomic_2d ?off gt) (blocks ?d) q"
        by (rule smemcpy_atomic_2d_scatters [OF assms(1) agrees that]) (use assms(3,5) True shape bytes off(2) al in simp_all)
      then show ?thesis using True fields(2) by simp
    next
      case False
      then have "unat (width q) = 2 \<or> unat (width q) = 3" using w shape(1) by auto
      then have "correct_launch src p (Smemcpy_atomic_rows (width q) ?off gt) (blocks ?d) q"
        by (intro smemcpy_atomic_rows_scatters [OF assms(1) agrees that])
           (use assms(3,5) wrap shape bytes off_w whole_n whole_o al in simp_all)
      then show ?thesis using False fields(2) shape(1) by simp
    qed
  qed
qed

lemma prepare_kernel_rebased:
  "prepare_kernel p device fd =
     (let lh = latency_hiding_narrow p device; gt = atomic_threads_for p device fd (first_slice_of p) (last_slice_of p)
      in if gt = 0 \<and> \<not> lh \<and> fst (select_pitched_vector_launch (initial_launch p) fd)
         then snd (select_pitched_vector_launch (initial_launch p) fd)
         else if first_slice_of p = last_slice_of p
         then kernel_for_slice p gt lh fd False ((initial_launch p)\<lparr>params := rebase_row p\<rparr>)
         else kernel_for_slice p gt lh fd True ((initial_launch p)\<lparr>params := rebase_slice p\<rparr>))"
  unfolding prepare_kernel_def Let_def split_beta rebase_row_def rebase_slice_def ..

lemma agrees_regular:
  assumes "agrees_3d q p" and "destination_slice_stride q = destination_row_stride q * rows q"
  shows "agrees_2d q p"
  using assms by (simp add: agrees_3d_def agrees_2d_def destination_at_nat coordinate_regular)

lemma rebase_shape:
  "width (rebase_row p) = width p" "destination_row_stride (rebase_row p) = destination_row_stride p"
  "width (rebase_slice p) = width p" "destination_row_stride (rebase_slice p) = destination_row_stride p"
  "rows (rebase_slice p) = rows p" "destination_slice_stride (rebase_slice p) = destination_slice_stride p"
  by (simp_all add: rebase_row_def rebase_slice_def Let_def)

lemma slice_kernel_correct:
  assumes dist: "distinct_coordinates p" and p: "\<not> invalid_params p" and n: "unat (bytes p) < 2 ^ 63" "bytes p \<noteq> 0"
    and narrow: "width p \<le> 3 \<Longrightarrow> unat (bytes p) \<le> 16776960"
    and agrees: "if is_3d then agrees_3d q p else agrees_2d q p" and agrees_2d: "gt \<noteq> 0 \<Longrightarrow> agrees_2d q p"
    and shape: "width q = width p" "destination_row_stride q = destination_row_stride p"
    and wrap: "unat (logical_offset q) + unat (bytes p) < 2 ^ 64"
    and whole: "unat (width p) dvd unat (logical_offset p) \<Longrightarrow> unat (width p) dvd unat (logical_offset q)"
  defines "fd \<equiv> destination_at p (logical_offset p)"
  assumes gt: "gt = atomic_threads_for p device fd fs ls"
  shows "correct_descriptor p (kernel_for_slice p gt lh fd is_3d ((initial_launch p)\<lparr>params := q\<rparr>))"
proof (cases "gt = 0")
  case True
  then show ?thesis
    using scalar_correct [OF dist n(1) _ agrees] narrow_correct [OF dist narrow valid_params(1) [OF p] _ agrees shape(1)]
    by (cases "width p \<le> 3") simp_all
next
  case False
  note at = atomic_threads_facts [OF False [unfolded gt], folded gt]
  have "width p \<le> 3" using at(3) by (simp add: rows_fit_atomic_word_def Let_def)
  then show ?thesis
    using atomic_correct [OF dist p n at(1) _ agrees_2d [OF False] shape wrap whole at(2)] at(3) by (simp add: fd_def)
qed

lemma prepare_kernel_correct:
  assumes dist: "distinct_coordinates p" and p: "\<not> invalid_params p" and n: "unat (bytes p) < 2 ^ 63" "bytes p \<noteq> 0"
    and narrow: "width p \<le> 3 \<Longrightarrow> unat (bytes p) \<le> 16776960"
  shows "correct_descriptor p (prepare_kernel p device (destination_at p (logical_offset p)))"
proof -
  let ?fd = "destination_at p (logical_offset p)"
  let ?gt = "atomic_threads_for p device ?fd (first_slice_of p) (last_slice_of p)"
  note v = valid_params [OF p]
  have vector: "correct_descriptor p (snd (select_pitched_vector_launch (initial_launch p) ?fd))"
    if "fst (select_pitched_vector_launch (initial_launch p) ?fd)"
    using pitched_correct [OF dist p n(1)] that by (metis prod.collapse)
  have row: "correct_descriptor p (kernel_for_slice p ?gt lh ?fd False ((initial_launch p)\<lparr>params := rebase_row p\<rparr>))"
    if same: "first_slice_of p = last_slice_of p" for lh
  proof -
    note r = rebase_row_agrees [OF p n(2) same]
    have "unat (logical_offset (rebase_row p)) \<le> unat (logical_offset p)" unfolding r(2) by simp
    then have "unat (logical_offset (rebase_row p)) + unat (bytes p) < 2 ^ 64" using v(4) by linarith
    moreover have "unat (width p) dvd unat (logical_offset (rebase_row p))" if "unat (width p) dvd unat (logical_offset p)"
      unfolding r(2) using that by simp
    ultimately show ?thesis
      using r(1) by (intro slice_kernel_correct [OF dist p n narrow]) (simp_all add: rebase_shape)
  qed
  have slice: "correct_descriptor p (kernel_for_slice p ?gt lh ?fd True ((initial_launch p)\<lparr>params := rebase_slice p\<rparr>))"
    if differ: "first_slice_of p \<noteq> last_slice_of p" for lh
  proof -
    note r = rebase_slice_agrees [OF p]
    have "agrees_2d (rebase_slice p) p" if "?gt \<noteq> 0"
      using agrees_regular [OF r(1)] atomic_threads_facts(4) [OF that differ] by (simp add: rebase_shape)
    then show ?thesis
      using r by (intro slice_kernel_correct [OF dist p n narrow]) (simp_all add: rebase_shape)
  qed
  show ?thesis unfolding prepare_kernel_rebased Let_def using vector row slice by (simp split: if_splits)
qed

section \<open>The enqueued work\<close>

lemma native_copy_scatters:
  assumes "\<not> invalid_params p" and "contiguous_destination p (width p * rows p)"
  shows "copy_bytes src (destination_at p (logical_offset p)) (source p) (unat (bytes p)) m = scatter src p m"
proof -
  have "destination_at p (logical_offset p) + of_nat i = destination_at p (logical_offset p + of_nat i)"
    if "i \<in> set [0..<unat (bytes p)]" for i
    using that coordinate_contiguous [OF assms(1) _ assms(2), of i] logical_index [OF assms(1), of i]
    by (simp add: destination_at_nat)
  then show ?thesis unfolding copy_bytes_def scatter_def by (intro fold_cong) simp_all
qed

text \<open>A finished descriptor does the work, natively or with a kernel that exists.\<close>

definition does_work :: "smemcpy_params \<Rightarrow> stream_work \<Rightarrow> bool" where
  "does_work p work =
     ((\<forall>src m m'. work_result src work m m' \<longleftrightarrow> m' = scatter src p m) \<and>
      (case work of Kernel_Launch f grid block q \<Rightarrow>
         \<forall>src. \<exists>ts. kernel_threads src (the f) grid block q = Some ts \<and> (\<forall>t \<in> set ts. list_all access_aligned t)
       | _ \<Rightarrow> True))"

definition enqueue :: "smemcpy_launch \<Rightarrow> stream_work" where
  "enqueue launch =
     (if plain_copy launch
      then Native_Copy (destination (prepared_params launch)) (source (prepared_params launch)) (bytes (prepared_params launch))
      else if launch_blocks launch = 0 then Nothing_To_Do
      else Kernel_Launch (kernel_entry launch) (launch_blocks launch) (launch_threads launch) (prepared_params launch))"

lemma lupine_smemcpy_async_enqueue:
  "lupine_smemcpy_async runtime ps =
     (case lupine_smemcpy_prepare_launch runtime ps True of Inl e \<Rightarrow> Inl e | Inr launch \<Rightarrow> Inr (enqueue launch))"
  by (simp add: lupine_smemcpy_async_def enqueue_def split: sum.split)

lemma finish_correct:
  assumes "correct_descriptor p d"
  shows "\<exists>launch. finish_launch d = Inr launch \<and> does_work p (enqueue launch)"
proof -
  obtain f where f: "runtime_kernel d = Some f" "\<And>src. correct_launch src p f (blocks d) (params d)"
      "\<not> use_cuda_memcpy d" "blocks d \<noteq> 0" "threads d = kThreadsPerBlock"
    using assms by (auto simp: correct_descriptor_def)
  then show ?thesis
    by (simp add: finish_launch_def enqueue_def does_work_def correct_launch_def Let_def)
qed

lemma prepare_descriptor_finish:
  assumes "distinct_coordinates p" and "\<not> invalid_params p" and "unat (bytes p) < 2 ^ 63"
    and "width p \<le> 3 \<Longrightarrow> unat (bytes p) \<le> 16776960"
  shows "\<exists>d launch. lupine_smemcpy_prepare_descriptor (Some p) device True = Inr d \<and>
           finish_launch d = Inr launch \<and> does_work p (enqueue launch)"
proof -
  consider "bytes p = 0" | "bytes p \<noteq> 0" "contiguous_destination p (width p * rows p)"
    | "bytes p \<noteq> 0" "\<not> contiguous_destination p (width p * rows p)" by blast
  then show ?thesis
  proof cases
    case 1
    then show ?thesis using assms(2)
      by (simp add: lupine_smemcpy_prepare_descriptor_def finish_launch_def initial_launch_def enqueue_def does_work_def
          work_result_def scatter_def)
  next
    case 2
    then show ?thesis using assms(2) native_copy_scatters [OF assms(2) 2(2)]
      by (simp add: lupine_smemcpy_prepare_descriptor_def finish_launch_def initial_launch_def enqueue_def does_work_def
          work_result_def Let_def)
  next
    case 3
    then show ?thesis
      using assms(2) finish_correct [OF prepare_kernel_correct [OF assms(1-3) 3(1) assms(4)]]
      by (simp add: lupine_smemcpy_prepare_descriptor_def Let_def)
  qed
qed

lemma prepare_launch_works:
  assumes "distinct_coordinates p" and "\<not> invalid_params p" and "unat (bytes p) < 2 ^ 63"
    and "width p \<le> 3 \<Longrightarrow> unat (bytes p) \<le> 16776960"
    and "fst (get_device runtime) = CUDA_SUCCESS" and "\<And>device. fst (get_properties runtime device) = CUDA_SUCCESS"
  shows "\<exists>launch. lupine_smemcpy_prepare_launch runtime (Some p) True = Inr launch \<and> does_work p (enqueue launch)"
proof -
  note finish = prepare_descriptor_finish [OF assms(1-3)]
  obtain device where dev: "get_device runtime = (CUDA_SUCCESS, device)" using assms(5) by (metis prod.collapse)
  obtain mj mn name where answer: "get_properties runtime device = (CUDA_SUCCESS, mj, mn, name)"
    using assms(6) [of device] by (metis prod.collapse)
  obtain d launch where d: "lupine_smemcpy_prepare_descriptor (Some p) None True = Inr d" "finish_launch d = Inr launch"
      "does_work p (enqueue launch)" using finish [OF assms(4), of None] by blast
  obtain d' launch' where d': "lupine_smemcpy_prepare_descriptor (Some p)
        (Some \<lparr>major = mj, minor = mn, is_l4 = (mj = 8 \<and> mn = 9 \<and> name = ''NVIDIA L4'')\<rparr>) True = Inr d'"
      "finish_launch d' = Inr launch'" "does_work p (enqueue launch')" using finish [OF assms(4)] by blast
  show ?thesis using d d' by (simp add: lupine_smemcpy_prepare_launch_def dev answer)
qed

end
