(* ===== verification/Smemcpy_Theorems.thy ===== *)
theory Smemcpy_Theorems
  imports Smemcpy_Launch
begin

text \<open>
  The properties of the scatter copy: its effect, the alignment of its accesses, and
  the size beyond which the kernels for narrow rows leave bytes out.
\<close>

section \<open>Properties\<close>

lemma narrow_async:
  assumes "lupine_smemcpy_prepare_descriptor (Some p) None True = Inr d0" and "bytes p \<noteq> 0" and "width p \<le> 3"
    and "\<not> use_cuda_memcpy d0" and "get_device runtime = (CUDA_SUCCESS, device)"
    and "get_properties runtime device = (CUDA_SUCCESS, mj, mn, name)"
    and "lupine_smemcpy_prepare_descriptor (Some p)
           (Some \<lparr>major = mj, minor = mn, is_l4 = (mj = 8 \<and> mn = 9 \<and> name = ''NVIDIA L4'')\<rparr>) True = Inr d"
    and "\<not> use_cuda_memcpy d" and "blocks d \<noteq> 0" and "(the (lupine_smemcpy_kernel_name (Some d)), f) \<in> set kKernels"
  shows "lupine_smemcpy_async runtime (Some p) = Inr (Kernel_Launch (Some f) (blocks d) (threads d) (params d))"
  using assms launched_kernel [OF assms(8,9,10)]
  by (simp add: lupine_smemcpy_async_def lupine_smemcpy_prepare_launch_def finish_launch_def)

text \<open>Parameters and device of the examples: two rows of two bytes with a pitch of 64.\<close>

definition demo_fragment :: smemcpy_params where
  "demo_fragment = \<lparr>destination = 4096, source = 8192, logical_offset = 0, bytes = 4, width = 2, rows = 2,
                    destination_row_stride = 64, destination_slice_stride = 128\<rparr>"

definition demo_runtime :: runtime_answers where
  "demo_runtime = \<lparr>get_device = (0, 0), get_properties = (\<lambda>device. (0, 7, 0, ''NVIDIA V100''))\<rparr>"

lemma demo_fragment_ok:
  "\<not> invalid_params demo_fragment" "distinct_coordinates demo_fragment" "unat (bytes demo_fragment) = 4"
  "fst (get_device demo_runtime) = CUDA_SUCCESS" "fst (get_properties demo_runtime device) = CUDA_SUCCESS"
  by (code_simp, code_simp, code_simp, code_simp, simp add: demo_runtime_def CUDA_SUCCESS_def)

text \<open>
  C4: a scatter copy with valid parameters, whose bytes go to different addresses, is
  enqueued without an error, and whatever implementation is selected for the device
  (a native copy, vectors, scalar, narrow or atomic kernels), every interleaving of
  its threads that has ended leaves exactly the memory in which byte after byte was
  stored at its coordinate, and there is such an interleaving. Fragments with rows
  of at most three bytes must not exceed what the largest grid reaches.
\<close>

theorem scatter_copy_correct:
  assumes "\<not> invalid_params p" and "distinct_coordinates p" and "unat (bytes p) < 2 ^ 63"
    and "width p \<le> 3 \<Longrightarrow> unat (bytes p) \<le> 16776960"
    and "fst (get_device runtime) = CUDA_SUCCESS" and "\<And>device. fst (get_properties runtime device) = CUDA_SUCCESS"
  shows "\<exists>work. lupine_smemcpy_async runtime (Some p) = Inr work \<and>
           (\<forall>src m m'. work_result src work m m' \<longleftrightarrow> m' = scatter src p m)"
  using prepare_launch_works [OF assms(2,1,3-6)] by (auto simp: lupine_smemcpy_async_enqueue does_work_def)

theorem scatter_copy_witness:
  "\<exists>work. lupine_smemcpy_async demo_runtime (Some demo_fragment) = Inr work \<and>
     (\<forall>src m m'. work_result src work m m' \<longleftrightarrow> m' = scatter src demo_fragment m)"
  by (rule scatter_copy_correct) (simp_all add: demo_fragment_ok)

text \<open>
  C9: under the same conditions every thread of a launched kernel returns, and all
  its vector and word accesses are naturally aligned, in the destination and in the
  source, so the device never faults on them.
\<close>

theorem scatter_accesses_aligned:
  assumes "\<not> invalid_params p" and "distinct_coordinates p" and "unat (bytes p) < 2 ^ 63"
    and "width p \<le> 3 \<Longrightarrow> unat (bytes p) \<le> 16776960"
    and "fst (get_device runtime) = CUDA_SUCCESS" and "\<And>device. fst (get_properties runtime device) = CUDA_SUCCESS"
    and "lupine_smemcpy_async runtime (Some p) = Inr (Kernel_Launch f grid block q)"
  shows "\<exists>ts. kernel_threads src (the f) grid block q = Some ts \<and> (\<forall>t \<in> set ts. list_all access_aligned t)"
  using prepare_launch_works [OF assms(2,1,3-6)] assms(7) by (auto simp: lupine_smemcpy_async_enqueue does_work_def)

theorem scatter_accesses_witness:
  "\<exists>ts. kernel_threads (\<lambda>_. 7) (Smemcpy_atomic_rows 2 0 16) 1 256 demo_fragment = Some ts \<and> (\<forall>t \<in> set ts. list_all access_aligned t)"
proof -
  define d where "d = \<lparr>params = demo_fragment, use_cuda_memcpy = False, kernel = KERNEL_ATOMIC_ROWS, blocks = 1, threads = 256,
      word_bytes = 0, launch_width = 2, items = 0, byte_offset = 0, group_threads = 16\<rparr>"
  have name: "the (lupine_smemcpy_kernel_name (Some d))
      = ''lupine_smemcpy_atomic_rows_'' @ to_decimal 2 @ ''_'' @ to_decimal 0 @ ''_'' @ to_decimal 16"
    by (simp add: d_def lupine_smemcpy_kernel_name_def)
  have "lupine_smemcpy_async demo_runtime (Some demo_fragment) = Inr (Kernel_Launch (Some (Smemcpy_atomic_rows 2 0 16)) (blocks d) (threads d) (params d))"
  proof (rule narrow_async)
    show "lupine_smemcpy_prepare_descriptor (Some demo_fragment) None True =
        Inr (prepare_kernel demo_fragment None (destination_at demo_fragment (logical_offset demo_fragment)))" by code_simp
    show "lupine_smemcpy_prepare_descriptor (Some demo_fragment)
        (Some \<lparr>major = 7, minor = 0, is_l4 = ((7 :: int) = 8 \<and> (0 :: int) = 9 \<and> ''NVIDIA V100'' = ''NVIDIA L4'')\<rparr>) True = Inr d"
      unfolding d_def by code_simp
    show "(the (lupine_smemcpy_kernel_name (Some d)), Smemcpy_atomic_rows 2 0 16) \<in> set kKernels"
      using atomic_rows_entry [of 16 2 0] unfolding name by simp
    show "bytes demo_fragment \<noteq> 0" "width demo_fragment \<le> 3" by code_simp+
    show "\<not> use_cuda_memcpy (prepare_kernel demo_fragment None (destination_at demo_fragment (logical_offset demo_fragment)))" by code_simp
  qed (simp_all add: demo_runtime_def CUDA_SUCCESS_def d_def)
  then have "lupine_smemcpy_async demo_runtime (Some demo_fragment) = Inr (Kernel_Launch (Some (Smemcpy_atomic_rows 2 0 16)) 1 256 demo_fragment)"
    by (simp add: d_def)
  from scatter_accesses_aligned [OF demo_fragment_ok(1,2) _ _ demo_fragment_ok(4,5) this, of "\<lambda>_. 7"] show ?thesis
    by (simp add: demo_fragment_ok)
qed

text \<open>Sixteen mebibytes in rows of one byte, on a device without the atomic kernels.\<close>

definition big_fragment :: smemcpy_params where
  "big_fragment = \<lparr>destination = 0x100000000, source = 0x10000000000, logical_offset = 0, bytes = 0x1000000, width = 1,
                   rows = 0x1000000, destination_row_stride = 2, destination_slice_stride = 0x2000000\<rparr>"

definition big_runtime :: runtime_answers where
  "big_runtime = \<lparr>get_device = (0, 0), get_properties = (\<lambda>device. (0, 8, 6, ''NVIDIA A10''))\<rparr>"

lemma only_result: "(\<And>y. P y \<Longrightarrow> f y = c) \<Longrightarrow> P x \<Longrightarrow> {f y | y. P y} = {c}"
  by blast

lemma big_fragment_stores:
  assumes "g \<in> set (threads_of 65535 kThreadsPerBlock)"
  shows "\<exists>t. kernel_body (Smemcpy_narrow_2d 1 1) src big_fragment g = Some t \<and>
           list_all (\<lambda>c. access_masked c \<and> 0x100000000 + 0x1FFFE00 \<notin> fst ` set (access_writes src c)) t"
proof -
  have t: "unat (thread_of g) < 16776960" using threads_of_range(1) [OF _ assms] by simp
  have pre: "source_prefix (source big_fragment) (bytes big_fragment) = 0" by code_simp
  have "2 * thread_of g \<noteq> 33553920"
  proof
    assume "2 * thread_of g = 33553920"
    then have "unat (2 * thread_of g) = unat (33553920 :: u64)" by (rule arg_cong)
    moreover have "unat (2 * thread_of g) = 2 * unat (thread_of g)" using t by (simp add: unat_word_ariths(2))
    ultimately show False using t by simp
  qed
  then show ?thesis
    unfolding kernel_body.simps smemcpy_narrow_2d_body_def pre Let_def
    by (simp add: scatter_narrow_store_def big_fragment_def Let_def)
qed

lemma big_fragment_work:
  "lupine_smemcpy_async big_runtime (Some big_fragment)
     = Inr (Kernel_Launch (Some (Smemcpy_narrow_2d 1 1)) 65535 256 big_fragment)"
proof -
  define d where "d = \<lparr>params = big_fragment, use_cuda_memcpy = False, kernel = KERNEL_NARROW_2D, blocks = 65535, threads = 256,
      word_bytes = 0, launch_width = 1, items = 1, byte_offset = 0, group_threads = 0\<rparr>"
  have name: "the (lupine_smemcpy_kernel_name (Some d)) = ''lupine_smemcpy_narrow_2d_'' @ to_decimal 1 @ ''_'' @ to_decimal 1"
    by (simp add: d_def lupine_smemcpy_kernel_name_def)
  have "lupine_smemcpy_async big_runtime (Some big_fragment)
      = Inr (Kernel_Launch (Some (Smemcpy_narrow_2d 1 1)) (blocks d) (threads d) (params d))"
  proof (rule narrow_async)
    show "lupine_smemcpy_prepare_descriptor (Some big_fragment) None True = Inr d" unfolding d_def by code_simp
    show "lupine_smemcpy_prepare_descriptor (Some big_fragment)
        (Some \<lparr>major = 8, minor = 6, is_l4 = ((8 :: int) = 8 \<and> (6 :: int) = 9 \<and> ''NVIDIA A10'' = ''NVIDIA L4'')\<rparr>) True = Inr d"
      unfolding d_def by code_simp
    show "(the (lupine_smemcpy_kernel_name (Some d)), Smemcpy_narrow_2d 1 1) \<in> set kKernels"
      using narrow_2d_entry [of 1 1] unfolding name by simp
    show "bytes big_fragment \<noteq> 0" "width big_fragment \<le> 3" by code_simp+
  qed (simp_all add: big_runtime_def CUDA_SUCCESS_def d_def)
  then show ?thesis by (simp add: d_def)
qed

lemma big_fragment_missed: "destination_at big_fragment 16776960 = 0x100000000 + 0x1FFFE00"
  by code_simp

lemma kernel_work_result:
  assumes "kernel_threads src f grid block q = Some ts"
  shows "work_result src (Kernel_Launch (Some f) grid block q) m m' \<longleftrightarrow>
           (\<exists>ts'. reachable (\<lambda>state. state = (ts, m)) (gpu_step src) (ts', m') \<and> (\<forall>t \<in> set ts'. t = []))"
  using assms by (simp add: work_result_def)

text \<open>
  C32: beyond the reach of the largest grid the kernels for narrow rows leave bytes
  out: of sixteen mebibytes in rows of one byte, the byte at offset 16776960 is not
  stored by any run of the enqueued work, although no error is reported.
\<close>

theorem narrow_copy_incomplete:
  "\<exists>work. lupine_smemcpy_async big_runtime (Some big_fragment) = Inr work \<and>
     {m' (destination_at big_fragment 16776960) | m'. work_result src work m m'} = {m (destination_at big_fragment 16776960)}"
proof -
  define a :: deviceptr where "a = 0x100000000 + 0x1FFFE00"
  define f where "f = Smemcpy_narrow_2d 1 1"
  let ?work = "Kernel_Launch (Some f) 65535 kThreadsPerBlock big_fragment"
  let ?P = "list_all (\<lambda>c. access_masked c \<and> a \<notin> fst ` set (access_writes src c))"
  obtain ts where ts: "kernel_threads src f 65535 kThreadsPerBlock big_fragment = Some ts" "\<forall>t \<in> set ts. ?P t"
    using those_map_all [where f = "kernel_body f src big_fragment" and P = ?P, OF big_fragment_stores [folded f_def a_def]]
    unfolding kernel_threads_def by blast
  note result = kernel_work_result [OF ts(1)]
  have "m' a = m a" if ended: "work_result src ?work m m'" for m'
  proof -
    obtain ts' where "reachable (\<lambda>state. state = (ts, m)) (gpu_step src) (ts', m')" using ended unfolding result by blast
    from gpu_frame [OF this ts(2)] show ?thesis by (simp only: snd_conv)
  qed
  moreover obtain m' where "work_result src ?work m m'"
    using gpu_run_ends [of "(ts, m)" src] unfolding result by blast
  ultimately have "{m' a | m'. work_result src ?work m m'} = {m a}"
    by (intro only_result [where f = "\<lambda>m'. m' a"])
  then show ?thesis
    using big_fragment_work unfolding big_fragment_missed f_def a_def kThreadsPerBlock_def by (intro exI conjI)
qed

end
