(* ===== verification/Fatbin.thy ===== *)
theory Fatbin
  imports Bytes
begin

text \<open>
  The CUDA fat binary container (\<^verbatim>\<open>lupine_fatbin.h\<close>): the filter that keeps the members
  some device of the destination server may use (\<^verbatim>\<open>fatbin_filter.h\<close>), the test that
  spares a load no device can serve (\<^verbatim>\<open>cuda_client.cpp\<close>), and the extent of a Clang
  offload bundle (\<^verbatim>\<open>hip_fatbin.h\<close>). Every walk is compared with the container read as a
  list of members.
\<close>

section \<open>Layout\<close>

type_synonym u16 = "16 word"

definition decode_u16 :: "u8 list \<Rightarrow> u16" where
  "decode_u16 bs = of_nat (le_decode bs)"

definition encode_u16 :: "u16 \<Rightarrow> u8 list" where
  "encode_u16 w = le_encode 2 (unat w)"

record lupine_fatbin_header =
  h_magic :: u32
  h_version :: u16
  h_header_size :: u16
  h_files_size :: u64

record lupine_fatbin_entry =
  e_kind :: u16
  e_version :: u16
  e_header_size :: u32
  e_payload_size :: u64
  e_padded_payload_size :: u32
  e_reserved :: u32
  e_code_minor :: u16
  e_code_major :: u16
  e_arch :: u32

definition LUPINE_FATBIN_MAGIC :: u32 where "LUPINE_FATBIN_MAGIC = 0xba55ed50"
definition LUPINE_FATBIN_VERSION :: u16 where "LUPINE_FATBIN_VERSION = 1"
definition LUPINE_FATBIN_ENTRY_VERSION :: u16 where "LUPINE_FATBIN_ENTRY_VERSION = 0x0101"
definition LUPINE_FATBIN_ENTRY_PTX :: u16 where "LUPINE_FATBIN_ENTRY_PTX = 1"
definition LUPINE_FATBIN_ENTRY_CUBIN :: u16 where "LUPINE_FATBIN_ENTRY_CUBIN = 2"

text \<open>The raw copies of the structures out of and into a buffer of bytes.\<close>

definition bytes_at :: "u8 list \<Rightarrow> u64 \<Rightarrow> nat \<Rightarrow> u8 list" where
  "bytes_at img at n = take n (drop (unat at) img)"

definition load_header :: "u8 list \<Rightarrow> lupine_fatbin_header" where
  "load_header bs = \<lparr> h_magic = decode_u32 (take 4 bs), h_version = decode_u16 (take 2 (drop 4 bs)),
     h_header_size = decode_u16 (take 2 (drop 6 bs)), h_files_size = decode_u64 (take 8 (drop 8 bs)) \<rparr>"

definition store_header :: "lupine_fatbin_header \<Rightarrow> u8 list" where
  "store_header h = encode_u32 (h_magic h) @ encode_u16 (h_version h) @ encode_u16 (h_header_size h) @
     encode_u64 (h_files_size h)"

definition load_entry :: "u8 list \<Rightarrow> lupine_fatbin_entry" where
  "load_entry bs = \<lparr> e_kind = decode_u16 (take 2 bs), e_version = decode_u16 (take 2 (drop 2 bs)),
     e_header_size = decode_u32 (take 4 (drop 4 bs)), e_payload_size = decode_u64 (take 8 (drop 8 bs)),
     e_padded_payload_size = decode_u32 (take 4 (drop 16 bs)), e_reserved = decode_u32 (take 4 (drop 20 bs)),
     e_code_minor = decode_u16 (take 2 (drop 24 bs)), e_code_major = decode_u16 (take 2 (drop 26 bs)),
     e_arch = decode_u32 (take 4 (drop 28 bs)) \<rparr>"

section \<open>The filter\<close>

text \<open>The lambda that decides whether a device may use a member.\<close>

definition entry_serves :: "lupine_fatbin_entry \<Rightarrow> u32 \<Rightarrow> bool" where
  "entry_serves entry device =
     (if e_kind entry = LUPINE_FATBIN_ENTRY_PTX then e_arch entry \<le> device
      else e_arch entry div 10 = device div 10 \<and> e_arch entry \<le> device)"

text \<open>The header size of an entry, promoted to \<^verbatim>\<open>size_t\<close>.\<close>

definition header_bytes :: "lupine_fatbin_entry \<Rightarrow> u64" where
  "header_bytes entry = ucast (e_header_size entry)"

text \<open>
  One entry of the walk, at \<^term>\<open>left\<close> bytes before the end of the image: the guards that make
  the function give up.
\<close>

definition entry_fits :: "lupine_fatbin_entry \<Rightarrow> u64 \<Rightarrow> bool" where
  "entry_fits entry left \<longleftrightarrow>
     \<not> (e_version entry \<noteq> LUPINE_FATBIN_ENTRY_VERSION \<or> e_header_size entry < 32 \<or>
        header_bytes entry > left \<or>
        e_payload_size entry > left - header_bytes entry \<or> e_arch entry = 0)"

definition entry_length :: "lupine_fatbin_entry \<Rightarrow> u64" where
  "entry_length entry = header_bytes entry + e_payload_size entry"

definition known_kind :: "lupine_fatbin_entry \<Rightarrow> bool" where
  "known_kind entry \<longleftrightarrow>
     \<not> (e_kind entry \<noteq> LUPINE_FATBIN_ENTRY_CUBIN \<and> e_kind entry \<noteq> LUPINE_FATBIN_ENTRY_PTX)"

lemma unat_header_bytes: "unat (header_bytes entry) = unat (e_header_size entry)"
proof -
  have "unat (e_header_size entry) < 2 ^ 64" using unsigned_less [of "e_header_size entry", where ?'a = nat] by simp
  then show ?thesis by (simp add: header_bytes_def unsigned_ucast_eq take_bit_nat_eq_self)
qed

lemma entry_advance:
  fixes at image_size :: u64
  assumes "at < image_size" and "\<not> image_size - at < 32" and "entry_fits entry (image_size - at)"
  shows "unat (entry_length entry) = unat (header_bytes entry) + unat (e_payload_size entry)"
    and "unat (at + entry_length entry) = unat at + unat (entry_length entry)"
    and "32 \<le> unat (entry_length entry)" and "unat at + unat (entry_length entry) \<le> unat image_size"
proof -
  let ?h = "header_bytes entry"
  have d: "unat (image_size - at) = unat image_size - unat at" using assms(1) by (simp add: unat_sub)
  have h: "32 \<le> unat ?h" using assms(3)
    by (auto simp: entry_fits_def unat_header_bytes word_less_nat_alt not_less)
  have hl: "unat ?h \<le> unat image_size - unat at" and p: "e_payload_size entry \<le> (image_size - at) - ?h" "?h \<le> image_size - at"
    using assms(3) d by (auto simp: entry_fits_def word_le_nat_alt not_less)
  have s: "unat (e_payload_size entry) \<le> unat image_size - unat at - unat ?h"
    using p d by (simp add: word_le_nat_alt unat_sub)
  have "unat at < unat image_size" using assms(1) by (simp add: word_less_nat_alt)
  then have b: "unat at + (unat ?h + unat (e_payload_size entry)) \<le> unat image_size" using hl s by linarith
  show l: "unat (entry_length entry) = unat ?h + unat (e_payload_size entry)"
    unfolding entry_length_def by (rule unat_add_no_wrap) (use b unat_lt_2_64 [of image_size] in simp)
  show "unat (at + entry_length entry) = unat at + unat (entry_length entry)"
    by (rule unat_add_no_wrap) (use b l unat_lt_2_64 [of image_size] in simp)
  show "32 \<le> unat (entry_length entry)" "unat at + unat (entry_length entry) \<le> unat image_size" using h b l by linarith+
qed

lemma entry_decreases:
  assumes "at < image_size" and "\<not> image_size - at < 32" and "entry_fits entry (image_size - at)"
  shows "unat image_size - unat (at + entry_length entry) < unat image_size - unat at"
  using entry_advance [OF assms] assms(1) by (simp add: word_less_nat_alt)

function filter_scan :: "u8 list \<Rightarrow> u64 \<Rightarrow> u32 list \<Rightarrow> u64 \<Rightarrow> (u64 \<times> u64) list \<Rightarrow> u64 \<Rightarrow> ((u64 \<times> u64) list \<times> u64) option"
where
  "filter_scan img image_size devices at kept selected_size =
     (if at < image_size then
        if image_size - at < 32 then None
        else let entry = load_entry (bytes_at img at 32) in
          if \<not> (entry_fits entry (image_size - at) \<and> known_kind entry) then None
          else let len = entry_length entry; keep = list_ex (entry_serves entry) devices in
            filter_scan img image_size devices (at + len)
              (if keep then kept @ [(at, len)] else kept) (if keep then selected_size + len else selected_size)
      else Some (kept, selected_size))"
  by pat_completeness auto
termination
  by (relation "measure (\<lambda>(img, image_size, devices, at, kept, sel). unat image_size - unat at)")
    (auto intro: entry_decreases)

declare filter_scan.simps [simp del]

text \<open>\<^verbatim>\<open>memcpy\<close> into the result vector at a position, and the loop that copies the kept spans.\<close>

definition copy_into :: "nat \<Rightarrow> u8 list \<Rightarrow> u8 list \<Rightarrow> u8 list" where
  "copy_into at src dst = take at dst @ src @ drop (at + length src) dst"

primrec copy_spans :: "u8 list \<Rightarrow> (u64 \<times> u64) list \<Rightarrow> u64 \<Rightarrow> u8 list \<Rightarrow> u8 list" where
  "copy_spans img [] at selected = selected"
| "copy_spans img (span # spans) at selected =
     copy_spans img spans (at + snd span)
       (copy_into (unat at) (bytes_at img (fst span) (unat (snd span))) selected)"

text \<open>The image is its \<^term>\<open>length\<close> readable bytes; \<^term>\<open>None\<close> is \<^verbatim>\<open>nullptr\<close>, the empty list the empty vector.\<close>

definition lupine_filter_fatbin :: "u8 list option \<Rightarrow> u32 list \<Rightarrow> u8 list" where
  "lupine_filter_fatbin img devices = (case img of None \<Rightarrow> [] | Some img \<Rightarrow>
     let image_size = of_nat (length img) :: u64 in
     if image_size < 16 \<or> devices = [] \<or> 0 \<in> set devices then []
     else let header = load_header (take 16 img) in
       if h_magic header \<noteq> LUPINE_FATBIN_MAGIC \<or> h_version header \<noteq> LUPINE_FATBIN_VERSION \<or>
          h_header_size header \<noteq> 16 \<or> h_files_size header \<noteq> image_size - 16 then []
       else case filter_scan img image_size devices 16 [] 16 of None \<Rightarrow> []
         | Some (kept, selected_size) \<Rightarrow>
             if kept = [] \<or> selected_size = image_size then []
             else copy_spans img kept 16
               (copy_into 0 (store_header (header\<lparr>h_files_size := selected_size - 16\<rparr>))
                  (replicate (unat selected_size) 0)))"

text \<open>
  The image a library load sends: the capabilities of the server are known or not, and the caller
  may ask for the image as it is. The size and the bytes go on the wire.
\<close>

record lupine_library_wire_image =
  original :: "u8 list"
  wire_size :: u64
  filtered :: "u8 list"

definition lupine_prepare_library_image :: "u32 list option \<Rightarrow> u8 list \<Rightarrow> bool \<Rightarrow> lupine_library_wire_image" where
  "lupine_prepare_library_image capabilities img do_filter =
     (let wire = \<lparr> original = img, wire_size = of_nat (length img), filtered = [] \<rparr> in
      case (if do_filter then capabilities else None) of None \<Rightarrow> wire
      | Some devices \<Rightarrow>
          let wire = wire\<lparr>filtered := lupine_filter_fatbin (Some img) devices\<rparr> in
          if filtered wire \<noteq> [] then wire\<lparr>wire_size := of_nat (length (filtered wire))\<rparr> else wire)"

definition lupine_write_library_image :: "u32 \<Rightarrow> lupine_library_wire_image \<Rightarrow> u8 list" where
  "lupine_write_library_image kind wire =
     (let bytes = (if filtered wire = [] then original wire else filtered wire) in
      encode_u32 kind @ encode_u64 (wire_size wire) @ take (unat (wire_size wire)) bytes)"

section \<open>The test before a load\<close>

function serve_scan :: "u8 list \<Rightarrow> u64 \<Rightarrow> u32 \<Rightarrow> u64 \<Rightarrow> bool" where
  "serve_scan img image_size device_cc offset =
     (if offset < image_size then
        let left = image_size - offset in
        if left < 32 then True
        else let entry = load_entry (bytes_at img offset 32) in
          if \<not> entry_fits entry left then True
          else if e_kind entry = LUPINE_FATBIN_ENTRY_CUBIN then
            if e_arch entry div 10 = device_cc div 10 \<and> e_arch entry \<le> device_cc then True
            else serve_scan img image_size device_cc (offset + entry_length entry)
          else if e_kind entry = LUPINE_FATBIN_ENTRY_PTX then
            if e_arch entry \<le> device_cc then True
            else serve_scan img image_size device_cc (offset + entry_length entry)
          else True
      else False)"
  by pat_completeness auto
termination
  by (relation "measure (\<lambda>(img, image_size, cc, at). unat image_size - unat at)")
    (auto intro: entry_decreases)

declare serve_scan.simps [simp del]

definition lupine_fatbin_may_serve_device :: "u8 list \<Rightarrow> u32 \<Rightarrow> bool" where
  "lupine_fatbin_may_serve_device img device_cc =
     (let image_size = of_nat (length img) :: u64; header = load_header (take 16 img) in
      if image_size < 16 \<or> h_magic header \<noteq> LUPINE_FATBIN_MAGIC \<or> h_version header \<noteq> LUPINE_FATBIN_VERSION \<or>
         h_header_size header < 16 \<or> ucast (h_header_size header) + h_files_size header \<noteq> image_size \<or>
         h_files_size header = 0
      then True
      else serve_scan img image_size device_cc (ucast (h_header_size header)))"

section \<open>Offload bundles\<close>

text \<open>
  The bundle is read from memory at unknown extent, so memory is a function of the offset
  from the start of the image; a null image is \<^term>\<open>None\<close>.
\<close>

definition lupine_hip_max_image_size :: u64 where
  "lupine_hip_max_image_size = 256 * 1024 * 1024"

definition bundle_magic :: "u8 list" where
  "bundle_magic = map (\<lambda>c. of_char c) ''__CLANG_OFFLOAD_BUNDLE__''"

definition mem_bytes :: "(u64 \<Rightarrow> u8) \<Rightarrow> u64 \<Rightarrow> nat \<Rightarrow> u8 list" where
  "mem_bytes mem at n = map (\<lambda>i. mem (at + of_nat i)) [0..<n]"

primrec bundle_table :: "(u64 \<Rightarrow> u8) \<Rightarrow> u64 \<Rightarrow> nat \<Rightarrow> u64 \<Rightarrow> u64 \<Rightarrow> u64 \<Rightarrow> (u64 \<times> u64 \<times> u64) option" where
  "bundle_table mem available 0 cursor extent first_payload = Some (cursor, extent, first_payload)"
| "bundle_table mem available (Suc n) cursor extent first_payload =
     (if cursor > available \<or> available - cursor < 24 \<or> cursor + 24 > first_payload then None
      else let offset = decode_u64 (mem_bytes mem cursor 8);
               bytes = decode_u64 (mem_bytes mem (cursor + 8) 8);
               id_size = decode_u64 (mem_bytes mem (cursor + 16) 8) in
        if offset > lupine_hip_max_image_size \<or> bytes > lupine_hip_max_image_size - offset \<or> id_size > 4096 then None
        else let cursor = cursor + 24 in
          if id_size > available - cursor then None
          else bundle_table mem available n (cursor + id_size) (max extent (offset + bytes)) (min first_payload offset))"

definition lupine_hip_bundle_size :: "(u64 \<Rightarrow> u8) option \<Rightarrow> u64 \<Rightarrow> u64" where
  "lupine_hip_bundle_size img available = (case img of None \<Rightarrow> 0 | Some mem \<Rightarrow>
     if available < 32 \<or> mem_bytes mem 0 24 \<noteq> bundle_magic then 0
     else let entries = decode_u64 (mem_bytes mem 24 8) in
       if entries = 0 \<or> entries > 64 then 0
       else case bundle_table mem available (unat entries) 32 32 lupine_hip_max_image_size of None \<Rightarrow> 0
         | Some (cursor, extent, first_payload) \<Rightarrow>
             if cursor > first_payload \<or> extent > available then 0 else extent)"

section \<open>The container as a list of members\<close>

text \<open>
  A member is its bytes: an entry header of the stated length followed by the payload.
  The image of a list of members is the outer header followed by the members.
\<close>

definition member_ok :: "u8 list \<Rightarrow> bool" where
  "member_ok m \<longleftrightarrow> (let entry = load_entry (take 32 m) in
     e_version entry = LUPINE_FATBIN_ENTRY_VERSION \<and> 32 \<le> unat (e_header_size entry) \<and>
     unat (e_header_size entry) + unat (e_payload_size entry) = length m \<and> e_arch entry \<noteq> 0 \<and>
     (e_kind entry = LUPINE_FATBIN_ENTRY_CUBIN \<or> e_kind entry = LUPINE_FATBIN_ENTRY_PTX))"

definition member_serves :: "u32 list \<Rightarrow> u8 list \<Rightarrow> bool" where
  "member_serves devices m = list_ex (entry_serves (load_entry (take 32 m))) devices"

definition fatbin_header_of :: "u8 list list \<Rightarrow> lupine_fatbin_header" where
  "fatbin_header_of ms = \<lparr> h_magic = LUPINE_FATBIN_MAGIC, h_version = LUPINE_FATBIN_VERSION, h_header_size = 16,
     h_files_size = of_nat (length (concat ms)) \<rparr>"

definition fatbin_image :: "u8 list list \<Rightarrow> u8 list" where
  "fatbin_image ms = store_header (fatbin_header_of ms) @ concat ms"

text \<open>The spans the walk keeps, from position \<^term>\<open>at\<close> on.\<close>

primrec member_spans :: "u32 list \<Rightarrow> nat \<Rightarrow> u8 list list \<Rightarrow> (u64 \<times> u64) list" where
  "member_spans devices at [] = []"
| "member_spans devices at (m # ms) =
     (if member_serves devices m then [(of_nat at, of_nat (length m))] else []) @ member_spans devices (at + length m) ms"

subsection \<open>Headers\<close>

lemma le_encode_decode: "le_encode (length bs) (le_decode bs) = bs"
proof (induction bs)
  case (Cons b bs)
  have "unat b < 256" using unsigned_less [of b, where ?'a = nat] by simp
  then show ?case using Cons by simp
qed simp

lemma le_decode_bound: "le_decode bs < 256 ^ length bs"
proof (induction bs)
  case (Cons b bs)
  have "unat b < 256" using unsigned_less [of b, where ?'a = nat] by simp
  then show ?case using Cons by simp
qed simp

lemma encode_decode:
  "length bs = 2 \<Longrightarrow> encode_u16 (decode_u16 bs) = bs" "length bs = 4 \<Longrightarrow> encode_u32 (decode_u32 bs) = bs"
  "length bs = 8 \<Longrightarrow> encode_u64 (decode_u64 bs) = bs"
  using le_decode_bound [of bs] le_encode_decode [of bs]
  by (simp_all add: encode_u16_def decode_u16_def encode_u32_def decode_u32_def encode_u64_def decode_u64_def
      unsigned_of_nat take_bit_nat_eq_self)

lemma decode_encode_u16 [simp]: "decode_u16 (encode_u16 w) = w"
proof -
  have "unat w < 256 ^ 2" using unsigned_less [of w, where ?'a = nat] by simp
  then show ?thesis by (simp add: decode_u16_def encode_u16_def le_decode_encode)
qed

lemma encode_u16_length [simp]: "length (encode_u16 w) = 2"
  by (simp add: encode_u16_def)

lemma store_header_length [simp]: "length (store_header h) = 16"
  by (simp add: store_header_def)

lemma load_store_header: "load_header (store_header h) = h"
  by (simp add: load_header_def store_header_def)

lemma store_load_header:
  assumes "length bs = 16"
  shows "store_header (load_header bs) = bs"
proof -
  have "take (4 + (2 + (2 + 8))) bs = take 4 bs @ take 2 (drop 4 bs) @ take 2 (drop 6 bs) @ take 8 (drop 8 bs)"
    by (simp only: take_add drop_drop) simp
  then have "take 4 bs @ take 2 (drop 4 bs) @ take 2 (drop 6 bs) @ take 8 (drop 8 bs) = bs" using assms by simp
  then show ?thesis using assms by (simp add: store_header_def load_header_def encode_decode)
qed

subsection \<open>One step of a walk\<close>

lemma unat_of_nat_64: "n < 2 ^ 64 \<Longrightarrow> unat (of_nat n :: u64) = n"
  by (simp add: unsigned_of_nat take_bit_nat_eq_self)

lemma member_ok_length: "member_ok m \<Longrightarrow> 32 \<le> length m"
  by (auto simp: member_ok_def Let_def)

lemma member_entry:
  assumes img: "img = pre @ m @ rest" "length img < 2 ^ 64" and m: "member_ok m"
  defines "at \<equiv> of_nat (length pre) :: u64" and "image_size \<equiv> of_nat (length img) :: u64"
  defines "entry \<equiv> load_entry (bytes_at img at 32)"
  shows "at < image_size" "\<not> image_size - at < 32" "entry = load_entry (take 32 m)"
    "entry_fits entry (image_size - at)" "known_kind entry" "entry_length entry = of_nat (length m)"
proof -
  have u: "unat at = length pre" "unat image_size = length img"
    using img(1) unat_of_nat_64 [OF img(2)] by (auto simp: at_def image_size_def intro!: unat_of_nat_64 le_less_trans [OF _ img(2)])
  have l: "32 \<le> length m" by (rule member_ok_length [OF m])
  show a: "at < image_size" using u img(1) l by (auto simp: word_less_nat_alt)
  then have d: "unat (image_size - at) = length m + length rest" using u img by (simp add: unat_sub)
  then show s: "\<not> image_size - at < 32" using l by (simp add: word_less_nat_alt)
  show e: "entry = load_entry (take 32 m)" using u img l by (simp add: entry_def bytes_at_def)
  have ok: "e_version entry = LUPINE_FATBIN_ENTRY_VERSION" "32 \<le> unat (e_header_size entry)"
    "unat (e_header_size entry) + unat (e_payload_size entry) = length m" "e_arch entry \<noteq> 0"
    "e_kind entry = LUPINE_FATBIN_ENTRY_CUBIN \<or> e_kind entry = LUPINE_FATBIN_ENTRY_PTX"
    using m by (auto simp: member_ok_def Let_def e)
  have h: "header_bytes entry \<le> image_size - at" using ok d by (simp add: word_le_nat_alt unat_header_bytes)
  have p: "e_payload_size entry \<le> image_size - at - header_bytes entry"
    using ok d h by (simp add: word_le_nat_alt unat_sub [OF h] unat_header_bytes)
  show f: "entry_fits entry (image_size - at)"
    using ok h p by (auto simp: entry_fits_def word_less_nat_alt word_le_nat_alt)
  show "known_kind entry" using ok by (auto simp: known_kind_def)
  have "unat (entry_length entry) = length m"
    using entry_advance(1) [OF a s f] ok by (simp add: unat_header_bytes)
  then show "entry_length entry = of_nat (length m)" by (metis of_nat_unat ucast_id)
qed

lemma entry_member:
  assumes "unat image_size = length img" "at < image_size" "\<not> image_size - at < 32"
  defines "entry \<equiv> load_entry (bytes_at img at 32)"
  assumes fits: "entry_fits entry (image_size - at)" "known_kind entry"
  shows "\<exists>m. member_ok m \<and> drop (unat at) img = m @ drop (unat (at + entry_length entry)) img"
proof -
  note adv = entry_advance [OF assms(2,3) fits(1)]
  define m where "m = take (unat (entry_length entry)) (drop (unat at) img)"
  have l: "length m = unat (entry_length entry)" using adv assms(1) by (simp add: m_def)
  have "take 32 m = bytes_at img at 32" using adv by (simp add: m_def bytes_at_def min_def)
  then have "member_ok m" using fits adv l
    by (auto simp: member_ok_def Let_def entry_def [symmetric] entry_fits_def known_kind_def unat_header_bytes
        word_less_nat_alt not_less)
  moreover have "drop (unat at) img = m @ drop (unat (at + entry_length entry)) img"
    unfolding adv(2) m_def by (metis add.commute append_take_drop_id drop_drop)
  ultimately show ?thesis by blast
qed

subsection \<open>The scan\<close>

lemma filter_scan_members:
  assumes "img = pre @ concat ms" "length img < 2 ^ 64" "\<forall>m \<in> set ms. member_ok m"
  shows "filter_scan img (of_nat (length img)) devices (of_nat (length pre)) kept sel =
    Some (kept @ member_spans devices (length pre) ms,
          sel + of_nat (length (concat (filter (member_serves devices) ms))))"
  using assms
proof (induction ms arbitrary: pre kept sel)
  case Nil
  then show ?case by (simp add: filter_scan.simps)
next
  case (Cons m ms)
  have img: "img = pre @ m @ concat ms" using Cons.prems by simp
  have mok: "member_ok m" using Cons.prems by simp
  note entry = member_entry [OF img Cons.prems(2) mok]
  note step = entry(1-3) entry(4-6) [unfolded entry(3)]
  have "filter_scan img (of_nat (length img)) devices (of_nat (length (pre @ m))) kept' sel' =
    Some (kept' @ member_spans devices (length (pre @ m)) ms,
          sel' + of_nat (length (concat (filter (member_serves devices) ms))))" for kept' sel'
    using Cons.prems img by (intro Cons.IH) auto
  then show ?case
    by (subst filter_scan.simps) (simp add: step Let_def member_serves_def [symmetric] algebra_simps)
qed

lemma filter_scan_sound:
  assumes "filter_scan img image_size devices at kept sel = Some r" "unat image_size = length img"
    "at \<le> image_size"
  shows "\<exists>ms. (\<forall>m \<in> set ms. member_ok m) \<and> drop (unat at) img = concat ms"
  using assms
proof (induction img image_size devices at kept sel rule: filter_scan.induct)
  case (1 img image_size devices at kept sel)
  define entry where "entry = load_entry (bytes_at img at 32)"
  show ?case
  proof (cases "at < image_size")
    case False
    then have "drop (unat at) img = concat []" using 1 by (simp add: word_less_nat_alt)
    then show ?thesis by (metis empty_iff list.set(1))
  next
    case True
    have g: "\<not> image_size - at < 32" "entry_fits entry (image_size - at)" "known_kind entry"
      using 1(2) True by (auto simp: filter_scan.simps [of img image_size devices at] entry_def Let_def split: if_splits)
    have "at + entry_length entry \<le> image_size"
      using entry_advance [OF True g(1,2)] by (simp add: word_le_nat_alt)
    moreover have "filter_scan img image_size devices (at + entry_length entry)
        (if list_ex (entry_serves entry) devices then kept @ [(at, entry_length entry)] else kept)
        (if list_ex (entry_serves entry) devices then sel + entry_length entry else sel) = Some r"
      using 1(2) True g by (subst (asm) filter_scan.simps) (simp add: entry_def Let_def split: if_splits)
    ultimately obtain ms where ms: "\<forall>m \<in> set ms. member_ok m"
        "drop (unat (at + entry_length entry)) img = concat ms"
      using 1(1) [OF True g(1) entry_def _ refl refl] g 1(3) by blast
    obtain m where m: "member_ok m" "drop (unat at) img = m @ drop (unat (at + entry_length entry)) img"
      using entry_member [OF 1(3) True g(1)] g unfolding entry_def by blast
    have "drop (unat at) img = concat (m # ms)" using m ms by simp
    then show ?thesis using ms m by (metis set_ConsD)
  qed
qed

lemma copy_spans_members:
  assumes "img = pre @ concat ms" "length img < 2 ^ 64"
    "length junk = length (concat (filter (member_serves devices) ms))"
    "length out + length junk < 2 ^ 64"
  shows "copy_spans img (member_spans devices (length pre) ms) (of_nat (length out)) (out @ junk) =
    out @ concat (filter (member_serves devices) ms)"
  using assms
proof (induction ms arbitrary: pre out junk)
  case (Cons m ms)
  have img: "img = (pre @ m) @ concat ms" using Cons.prems by simp
  show ?case
  proof (cases "member_serves devices m")
    case True
    have b: "length pre < 2 ^ 64" "length m < 2 ^ 64" "length out < 2 ^ 64" using Cons.prems by simp_all
    have "bytes_at img (of_nat (length pre)) (length m) = m"
      using Cons.prems(1) b by (simp add: bytes_at_def unat_of_nat_64)
    then have "copy_into (unat (of_nat (length out) :: u64)) (bytes_at img (of_nat (length pre)) (unat (of_nat (length m) :: u64)))
        (out @ junk) = (out @ m) @ drop (length m) junk"
      using b by (simp add: copy_into_def unat_of_nat_64)
    moreover have "copy_spans img (member_spans devices (length (pre @ m)) ms) (of_nat (length (out @ m)))
        ((out @ m) @ drop (length m) junk) = (out @ m) @ concat (filter (member_serves devices) ms)"
      using Cons.prems img True by (intro Cons.IH) auto
    ultimately show ?thesis using True by (simp add: add.commute)
  next
    case False
    then show ?thesis using Cons.IH [OF img Cons.prems(2), of junk out] Cons.prems by simp
  qed
qed simp

lemma member_spans_Nil: "member_spans devices at ms = [] \<longleftrightarrow> filter (member_serves devices) ms = []"
  by (induction ms arbitrary: at) auto

lemma filter_whole:
  assumes "\<forall>m \<in> set ms. member_ok m"
  shows "length (concat (filter P ms)) = length (concat ms) \<longleftrightarrow> filter P ms = ms"
proof -
  have le: "length (concat (filter P ns)) \<le> length (concat ns)" for ns :: "u8 list list"
    by (induction ns) auto
  show ?thesis using assms
  proof (induction ms)
    case (Cons m ms)
    have "\<not> length (concat (filter P ms)) = length (concat (m # ms))"
      using le [of ms] member_ok_length [of m] Cons.prems by simp
    moreover have "filter P ms \<noteq> m # ms" using length_filter_le [of P ms] by (metis Suc_n_not_le_n length_Cons)
    ultimately show ?case using Cons by auto
  qed simp
qed

section \<open>The filter, the walk of the client and the container\<close>

lemma filter_fatbin_of_members:
  assumes "length (fatbin_image ms) < 2 ^ 64" "\<forall>m \<in> set ms. member_ok m" "devices \<noteq> []" "0 \<notin> set devices"
  defines "used \<equiv> filter (member_serves devices) ms"
  shows "lupine_filter_fatbin (Some (fatbin_image ms)) devices = (if used = [] \<or> used = ms then [] else fatbin_image used)"
proof -
  let ?img = "fatbin_image ms" and ?n = "length (concat ms)" and ?k = "length (concat used)"
  have n: "length ?img = 16 + ?n" by (simp add: fatbin_image_def)
  have k: "?k \<le> ?n" unfolding used_def by (induction ms) auto
  have sz: "of_nat (length ?img) = (16 + of_nat ?n :: u64)" by (simp add: n)
  have u: "unat (16 + of_nat ?n :: u64) = 16 + ?n" using assms(1) unat_of_nat_64 [of "16 + ?n"] n by simp
  have uk: "unat (16 + of_nat ?k :: u64) = 16 + ?k" using assms(1) k unat_of_nat_64 [of "16 + ?k"] n by simp
  have scan: "filter_scan ?img (16 + of_nat ?n) devices 16 [] 16 =
      Some (member_spans devices 16 ms, 16 + of_nat ?k)"
    using filter_scan_members [of ?img "store_header (fatbin_header_of ms)" ms devices "[]" 16] assms sz
    by (simp add: fatbin_image_def used_def)
  have same: "(16 + of_nat ?k :: u64) = 16 + of_nat ?n \<longleftrightarrow> used = ms"
    using filter_whole [OF assms(2)] u uk unfolding used_def by (metis add_left_cancel)
  have copy: "copy_spans ?img (member_spans devices 16 ms) 16
      (copy_into 0 (store_header ((fatbin_header_of ms)\<lparr>h_files_size := of_nat ?k\<rparr>)) (replicate (16 + ?k) 0)) =
      fatbin_image used"
    using copy_spans_members [of ?img "store_header (fatbin_header_of ms)" ms "replicate ?k 0" devices
        "store_header ((fatbin_header_of ms)\<lparr>h_files_size := of_nat ?k\<rparr>)"] assms k n
    by (simp add: fatbin_image_def used_def fatbin_header_of_def copy_into_def replicate_add)
  show ?thesis
    using assms(3,4) u uk scan same copy n
    by (simp add: lupine_filter_fatbin_def Let_def sz word_less_nat_alt fatbin_image_def [of ms] load_store_header
        fatbin_header_of_def member_spans_Nil used_def)
qed

lemma filter_shrinks:
  assumes "length img < 2 ^ 64" "\<forall>m \<in> set ms. member_ok m" "img = fatbin_image ms" "devices \<noteq> []" "0 \<notin> set devices"
  shows "length (lupine_filter_fatbin (Some img) devices) \<le> length img"
proof -
  have "length (concat (filter P ms)) \<le> length (concat ms)" for P by (induction ms) auto
  then show ?thesis using filter_fatbin_of_members [of ms devices] assms by (auto simp: fatbin_image_def)
qed

text \<open>What a library load puts on the wire is a whole container, of all members or of the used ones.\<close>

lemma library_image_sent:
  assumes "length (fatbin_image ms) < 2 ^ 64" "\<forall>m \<in> set ms. member_ok m" "devices \<noteq> []" "0 \<notin> set devices"
  shows "\<exists>sent. (sent = ms \<or> sent = filter (member_serves devices) ms) \<and>
    lupine_write_library_image kind (lupine_prepare_library_image (Some devices) (fatbin_image ms) True) =
      encode_u32 kind @ encode_u64 (of_nat (length (fatbin_image sent))) @ fatbin_image sent"
proof -
  let ?f = "lupine_filter_fatbin (Some (fatbin_image ms)) devices"
  have "length ?f < 2 ^ 64" using filter_shrinks [OF assms(1,2) refl assms(3,4)] assms(1) by linarith
  then have u: "unat (of_nat (length ?f) :: u64) = length ?f" by (rule unat_of_nat_64)
  have v: "unat (of_nat (length (fatbin_image ms)) :: u64) = length (fatbin_image ms)"
    using assms(1) by (rule unat_of_nat_64)
  define sent where "sent = (if ?f = [] then ms else filter (member_serves devices) ms)"
  have "fatbin_image sent = (if ?f = [] then fatbin_image ms else ?f)"
    using filter_fatbin_of_members [OF assms] by (auto simp: sent_def)
  then have "lupine_write_library_image kind (lupine_prepare_library_image (Some devices) (fatbin_image ms) True) =
      encode_u32 kind @ encode_u64 (of_nat (length (fatbin_image sent))) @ fatbin_image sent"
    using u v by (simp add: lupine_write_library_image_def lupine_prepare_library_image_def Let_def)
  then show ?thesis by (auto simp: sent_def)
qed




text \<open>
  The sum of the two header fields wraps, so a header that claims more than the image can pass
  the test of the total; the walk then has nothing to visit and the load is refused.
\<close>

lemma wrapped_header_is_refused:
  "\<not> lupine_fatbin_may_serve_device
     (store_header \<lparr>h_magic = LUPINE_FATBIN_MAGIC, h_version = LUPINE_FATBIN_VERSION, h_header_size = 32,
        h_files_size = - 16\<rparr>) cc"
  by (simp add: lupine_fatbin_may_serve_device_def load_store_header serve_scan.simps [of _ "16"])

subsection \<open>Offload bundles\<close>

text \<open>The rows of the table of a bundle: offset, size and length of the target name.\<close>

primrec bundle_rows :: "(u64 \<Rightarrow> u8) \<Rightarrow> nat \<Rightarrow> u64 \<Rightarrow> (u64 \<times> u64) list" where
  "bundle_rows mem 0 cursor = []"
| "bundle_rows mem (Suc n) cursor =
     (decode_u64 (mem_bytes mem cursor 8), decode_u64 (mem_bytes mem (cursor + 8) 8)) #
     bundle_rows mem n (cursor + 24 + decode_u64 (mem_bytes mem (cursor + 16) 8))"

lemma payload_end:
  assumes "offset \<le> lupine_hip_max_image_size" "bytes \<le> lupine_hip_max_image_size - offset"
  shows "unat (offset + bytes) = unat offset + unat bytes"
  using assms unat_sub [OF assms(1)]
  by (intro unat_add_no_wrap) (simp add: word_le_nat_alt lupine_hip_max_image_size_def)

lemma bundle_table_covers:
  assumes "bundle_table mem available n cursor extent first_payload = Some (cursor', extent', first_payload')"
  shows "extent \<le> extent'" "first_payload' \<le> first_payload"
    "(offset, bytes) \<in> set (bundle_rows mem n cursor) \<Longrightarrow>
       first_payload' \<le> offset \<and> unat offset + unat bytes \<le> unat extent'"
  using assms
proof (induction n arbitrary: cursor extent first_payload)
  case (Suc n)
  { case 1 then show ?case using Suc(1) by (fastforce simp: Let_def split: if_splits) }
  { case 2 then show ?case using Suc(2) by (fastforce simp: Let_def split: if_splits) }
  { case 3
    let ?o = "decode_u64 (mem_bytes mem cursor 8)" and ?b = "decode_u64 (mem_bytes mem (cursor + 8) 8)"
    have row: "?o \<le> lupine_hip_max_image_size" "?b \<le> lupine_hip_max_image_size - ?o"
      and rest: "bundle_table mem available n (cursor + 24 + decode_u64 (mem_bytes mem (cursor + 16) 8))
        (max extent (?o + ?b)) (min first_payload ?o) = Some (cursor', extent', first_payload')"
      using 3(2) by (auto simp: Let_def add.assoc split: if_splits)
    have "?o + ?b \<le> extent'" "first_payload' \<le> ?o" using Suc(1) [OF rest] Suc(2) [OF rest] by simp_all
    then show ?case using 3(1) Suc(3) [OF _ rest] payload_end [OF row] by (auto simp: word_le_nat_alt) }
qed simp_all

text \<open>
  A bundle whose size is known lies in the readable bytes, and so does every code object of its table.
\<close>

lemma bundle_size_covers:
  assumes "lupine_hip_bundle_size (Some mem) available = r" "r \<noteq> 0"
    and "(offset, bytes) \<in> set (bundle_rows mem (unat (decode_u64 (mem_bytes mem 24 8))) 32)"
  shows "r \<le> available" "unat offset + unat bytes \<le> unat r"
proof -
  let ?n = "unat (decode_u64 (mem_bytes mem 24 8))"
  obtain c f where t: "bundle_table mem available ?n 32 32 lupine_hip_max_image_size = Some (c, r, f)" and le: "r \<le> available"
    using assms(1,2) by (auto simp: lupine_hip_bundle_size_def Let_def split: if_splits option.splits)
  show "r \<le> available" by (rule le)
  show "unat offset + unat bytes \<le> unat r" using bundle_table_covers(3) [OF t assms(3)] by blast
qed

text \<open>
  C12: The filter returns bytes exactly when the image is a container of well-formed members, every
  capability of the server is known, and the members some device may use are neither none nor all;
  the bytes are then the container of exactly those members in their order. In every other case it
  returns nothing and the image is forwarded unchanged.
\<close>

theorem fatbin_filter_exact:
  assumes "length img < 2 ^ 64"
  shows "lupine_filter_fatbin (Some img) devices = out \<and> out \<noteq> [] \<longleftrightarrow>
    devices \<noteq> [] \<and> 0 \<notin> set devices \<and>
    (\<exists>ms. (\<forall>m \<in> set ms. member_ok m) \<and> img = fatbin_image ms \<and>
       filter (member_serves devices) ms \<notin> {[], ms} \<and> out = fatbin_image (filter (member_serves devices) ms))"
    (is "?L \<longleftrightarrow> ?R")
proof
  assume L: ?L
  have sz: "unat (of_nat (length img) :: u64) = length img" using assms by (rule unat_of_nat_64)
  define header where "header = load_header (take 16 img)"
  have g: "16 \<le> length img" "devices \<noteq> []" "0 \<notin> set devices" "h_magic header = LUPINE_FATBIN_MAGIC"
    "h_version header = LUPINE_FATBIN_VERSION" "h_header_size header = 16"
    "h_files_size header = of_nat (length img) - 16"
    and "filter_scan img (of_nat (length img)) devices 16 [] 16 \<noteq> None"
    using L sz by (auto simp: lupine_filter_fatbin_def Let_def header_def word_less_nat_alt split: if_splits option.splits)
  then obtain ms where ms: "\<forall>m \<in> set ms. member_ok m" "drop 16 img = concat ms"
    using filter_scan_sound [of img "of_nat (length img)" devices 16 "[]" 16] sz
    by (auto simp: word_le_nat_alt)
  have "of_nat (length img) - 16 = (of_nat (length (concat ms)) :: u64)"
    using g(1) by (simp add: ms(2) [symmetric] of_nat_diff)
  then have "header = fatbin_header_of ms" using g by (simp add: fatbin_header_of_def)
  then have "take 16 img = store_header (fatbin_header_of ms)"
    using store_load_header [of "take 16 img"] g(1) by (simp add: header_def)
  then have img: "img = fatbin_image ms" unfolding fatbin_image_def using ms(2) by (metis append_take_drop_id)
  show ?R using filter_fatbin_of_members [of ms devices] assms L g(2,3) ms(1) img by (auto split: if_splits)
next
  assume ?R
  then obtain ms where ms: "devices \<noteq> []" "0 \<notin> set devices" "\<forall>m \<in> set ms. member_ok m" "img = fatbin_image ms"
    "filter (member_serves devices) ms \<notin> {[], ms}" "out = fatbin_image (filter (member_serves devices) ms)" by blast
  have "out \<noteq> []" unfolding ms(6) fatbin_image_def using store_header_length by (metis append_is_Nil_conv list.size(3) zero_neq_numeral)
  then show ?L using filter_fatbin_of_members [of ms devices] assms ms by simp
qed

text \<open>Two members for capabilities 7.5 and 8.0, of which a device of capability 8.6 may use the second.\<close>

definition sample_member :: "u8 \<Rightarrow> u8 list" where
  "sample_member arch = [2, 0, 1, 1, 32, 0, 0, 0, 1] @ replicate 19 0 @ [arch, 0, 0, 0, 7]"

theorem fatbin_filter_witness:
  "length (fatbin_image [sample_member 75, sample_member 80]) < 2 ^ 64 \<and>
   lupine_filter_fatbin (Some (fatbin_image [sample_member 75, sample_member 80])) [86] = fatbin_image [sample_member 80]"
proof -
  have f: "filter (member_serves [86]) [sample_member 75, sample_member 80] = [sample_member 80]" by code_simp
  have ok: "\<forall>m \<in> set [sample_member 75, sample_member 80]. member_ok m" by code_simp
  have l: "length (fatbin_image [sample_member 75, sample_member 80]) < 2 ^ 64"
    by (simp add: fatbin_image_def sample_member_def)
  have "lupine_filter_fatbin (Some (fatbin_image [sample_member 75, sample_member 80])) [86] = fatbin_image [sample_member 80] \<and>
    fatbin_image [sample_member 80] \<noteq> []"
    unfolding fatbin_filter_exact [OF l] using ok f by (auto intro!: exI [of _ "[sample_member 75, sample_member 80]"])
  then show ?thesis using l by simp
qed



end
