(* ===== verification/Ipc.thy ===== *)
theory Ipc
  imports Bytes
begin

text \<open>
  Shareable handles (\<^verbatim>\<open>ipc.cpp\<close> and the handlers of \<^verbatim>\<open>cuda_server.cpp\<close> and \<^verbatim>\<open>cuda_client.cpp\<close> that use
  it): the proxy file a client hands to the application, the messages between a connection child
  and the parent of the server, and the parent that parks the real descriptors. The kernel is a
  parameter that picks the number of each new descriptor; files are identified by a number, and
  passing a descriptor gives the receiver a descriptor of the same file.
\<close>

section \<open>Tokens, messages and files\<close>

type_synonym ofile = nat
type_synonym fdtable = "int \<rightharpoonup> ofile"
type_synonym kernel = "fdtable \<Rightarrow> int option"
type_synonym token = "u8 list"

definition LUPINE_IPC_FD_KIND_VMM_ALLOCATION :: u32 where "LUPINE_IPC_FD_KIND_VMM_ALLOCATION = 1"
definition LUPINE_IPC_FD_KIND_MEMORY_POOL :: u32 where "LUPINE_IPC_FD_KIND_MEMORY_POOL = 2"
definition LUPINE_IPC_FD_MAGIC :: u64 where "LUPINE_IPC_FD_MAGIC = 0x4446454e4950554c"
definition LUPINE_IPC_FD_VERSION :: u32 where "LUPINE_IPC_FD_VERSION = 1"
definition LUPINE_IPC_BROKER_REGISTER :: u32 where "LUPINE_IPC_BROKER_REGISTER = 1"
definition LUPINE_IPC_BROKER_GET :: u32 where "LUPINE_IPC_BROKER_GET = 2"

definition zero_token :: token where
  "zero_token = replicate 16 0"

record lupine_ipc_fd_payload =
  p_magic :: u64
  p_version :: u32
  p_kind :: u32
  p_token :: token

definition store_payload :: "lupine_ipc_fd_payload \<Rightarrow> u8 list" where
  "store_payload p = encode_u64 (p_magic p) @ encode_u32 (p_version p) @ encode_u32 (p_kind p) @ p_token p"

definition load_payload :: "u8 list \<Rightarrow> lupine_ipc_fd_payload" where
  "load_payload bs = \<lparr> p_magic = decode_u64 (take 8 bs), p_version = decode_u32 (take 4 (drop 8 bs)),
     p_kind = decode_u32 (take 4 (drop 12 bs)), p_token = take 16 (drop 16 bs) \<rparr>"

record lupine_ipc_broker_msg =
  m_cmd :: u32
  m_kind :: u32
  m_status :: int
  m_reserved :: u32
  m_token :: token

definition zero_msg :: lupine_ipc_broker_msg where
  "zero_msg = \<lparr> m_cmd = 0, m_kind = 0, m_status = 0, m_reserved = 0, m_token = zero_token \<rparr>"

definition store_msg :: "lupine_ipc_broker_msg \<Rightarrow> u8 list" where
  "store_msg m = encode_u32 (m_cmd m) @ encode_u32 (m_kind m) @ encode_int32 (m_status m) @
     encode_u32 (m_reserved m) @ m_token m"

definition load_msg :: "u8 list \<Rightarrow> lupine_ipc_broker_msg" where
  "load_msg bs = \<lparr> m_cmd = decode_u32 (take 4 bs), m_kind = decode_u32 (take 4 (drop 4 bs)),
     m_status = decode_int32 (take 4 (drop 8 bs)), m_reserved = decode_u32 (take 4 (drop 12 bs)),
     m_token = take 16 (drop 16 bs) \<rparr>"

definition lupine_ipc_key :: "u32 \<Rightarrow> token \<Rightarrow> u8 list" where
  "lupine_ipc_key kind token = encode_u32 kind @ token"

section \<open>Random tokens\<close>

text \<open>
  The answers of \<^verbatim>\<open>getrandom\<close> and \<^verbatim>\<open>read\<close> are a list of results: some bytes (none is a return
  value of zero), an interruption, a missing system call, or another error. A list that ends
  early is a call that has not returned.
\<close>

datatype sysread = Got "u8 list" | Eintr | Enosys | Efail

datatype drawn = Complete "u8 list" | Fallback | Failed

fun getrandom_loop :: "nat \<Rightarrow> u8 list \<Rightarrow> sysread list \<Rightarrow> drawn option" where
  "getrandom_loop n acc answers =
     (if length acc < n then
        case answers of [] \<Rightarrow> None
        | Got (b # bs) # rest \<Rightarrow> getrandom_loop n (acc @ take (n - length acc) (b # bs)) rest
        | Eintr # rest \<Rightarrow> getrandom_loop n acc rest
        | a # rest \<Rightarrow> Some (if acc \<noteq> [] \<or> a = Efail then Failed else Fallback)
      else Some (Complete acc))"

fun urandom_loop :: "nat \<Rightarrow> u8 list \<Rightarrow> sysread list \<Rightarrow> u8 list option option" where
  "urandom_loop n acc answers =
     (if length acc < n then
        case answers of [] \<Rightarrow> None
        | Got (b # bs) # rest \<Rightarrow> urandom_loop n (acc @ take (n - length acc) (b # bs)) rest
        | Eintr # rest \<Rightarrow> urandom_loop n acc rest
        | a # rest \<Rightarrow> Some None
      else Some (Some acc))"

definition lupine_random_bytes :: "nat \<Rightarrow> sysread list \<Rightarrow> bool \<Rightarrow> sysread list \<Rightarrow> bool \<Rightarrow> u8 list option option" where
  "lupine_random_bytes n answers opened reads closed =
     (case getrandom_loop n [] answers of None \<Rightarrow> None
      | Some Failed \<Rightarrow> Some None
      | Some (Complete bytes) \<Rightarrow> Some (Some bytes)
      | Some Fallback \<Rightarrow>
          if \<not> opened then Some None
          else case urandom_loop n [] reads of None \<Rightarrow> None
            | Some None \<Rightarrow> Some None
            | Some (Some bytes) \<Rightarrow> Some (if closed then Some bytes else None))"

definition lupine_ipc_make_token :: "sysread list \<Rightarrow> bool \<Rightarrow> sysread list \<Rightarrow> bool \<Rightarrow> token option option" where
  "lupine_ipc_make_token answers opened reads closed = lupine_random_bytes 16 answers opened reads closed"

section \<open>Proxy files\<close>

text \<open>
  The content of the temporary file, when it could be made and written; and what is read back
  from a file with the given content.
\<close>

definition lupine_ipc_create_proxy_fd :: "bool \<Rightarrow> bool \<Rightarrow> u32 \<Rightarrow> token \<Rightarrow> u8 list option" where
  "lupine_ipc_create_proxy_fd made written kind token =
     (if \<not> made then None
      else let payload = \<lparr> p_magic = LUPINE_IPC_FD_MAGIC, p_version = LUPINE_IPC_FD_VERSION, p_kind = kind, p_token = token \<rparr> in
        if \<not> written then None else Some (store_payload payload))"

definition lupine_ipc_read_proxy_fd :: "u8 list option \<Rightarrow> (u32 \<times> token) option" where
  "lupine_ipc_read_proxy_fd content = (case content of None \<Rightarrow> None | Some bytes \<Rightarrow>
     let payload = load_payload (take 32 bytes) in
     if length (take 32 bytes) \<noteq> 32 \<or> p_magic payload \<noteq> LUPINE_IPC_FD_MAGIC \<or> p_version payload \<noteq> LUPINE_IPC_FD_VERSION
     then None else Some (p_kind payload, p_token payload))"

section \<open>Messages on the broker socket\<close>

type_synonym datagram = "u8 list \<times> ofile option"

text \<open>Sending fails when the peer is gone or the attached descriptor is not open.\<close>

definition lupine_send_broker_msg :: "bool \<Rightarrow> lupine_ipc_broker_msg \<Rightarrow> int \<Rightarrow> fdtable \<Rightarrow> int \<times> datagram option" where
  "lupine_send_broker_msg up msg fd table =
     (if up \<and> (fd \<ge> 0 \<longrightarrow> table fd \<noteq> None)
      then (0, Some (store_msg msg, if fd \<ge> 0 then table fd else None))
      else (-1, None))"

text \<open>
  The kernel gives an attached file the next free descriptor, and drops it when the table is full.
  A datagram longer than the buffer is cut; a shorter one leaves a zero message.
\<close>

definition lupine_recv_broker_msg :: "kernel \<Rightarrow> datagram option \<Rightarrow> fdtable \<Rightarrow> lupine_ipc_broker_msg \<times> int \<times> fdtable" where
  "lupine_recv_broker_msg k d table = (case d of None \<Rightarrow> (zero_msg, -1, table)
     | Some (bytes, att) \<Rightarrow>
         let (fd, table) = (case (att, k table) of (Some f, Some fd) \<Rightarrow> (fd, table(fd \<mapsto> f)) | _ \<Rightarrow> (-1, table)) in
         if length (take 32 bytes) \<noteq> 32 then (zero_msg, -1, table)
         else (load_msg bytes, fd, table))"

text \<open>The hand-off of one descriptor, used for the bulk connections of a session.\<close>

definition lupine_ipc_send_fd :: "bool \<Rightarrow> int \<Rightarrow> fdtable \<Rightarrow> int \<times> datagram option" where
  "lupine_ipc_send_fd up fd table = lupine_send_broker_msg up zero_msg fd table"

definition lupine_ipc_recv_fd :: "kernel \<Rightarrow> datagram option \<Rightarrow> fdtable \<Rightarrow> int \<times> fdtable" where
  "lupine_ipc_recv_fd k d table = (let (msg, fd, table) = lupine_recv_broker_msg k d table in (fd, table))"

section \<open>The parent\<close>

record broker_parent =
  parked :: "u8 list \<rightharpoonup> int"
  ptable :: fdtable

definition close_fd :: "int \<Rightarrow> fdtable \<Rightarrow> fdtable" where
  "close_fd fd table = table(fd := None)"

definition park_fd :: "u8 list \<Rightarrow> int \<Rightarrow> 'a broker_parent_scheme \<Rightarrow> 'a broker_parent_scheme" where
  "park_fd key received_fd p =
     (let p = (case parked p key of None \<Rightarrow> p | Some existing \<Rightarrow> p\<lparr>ptable := close_fd existing (ptable p)\<rparr>)
      in p\<lparr>parked := (parked p)(key \<mapsto> received_fd)\<rparr>)"

definition lupine_ipc_broker_parent_handle ::
  "kernel \<Rightarrow> bool \<Rightarrow> datagram option \<Rightarrow> 'a broker_parent_scheme \<Rightarrow> int \<times> datagram option \<times> 'a broker_parent_scheme" where
  "lupine_ipc_broker_parent_handle k up request p =
     (let (msg, received_fd, table) = lupine_recv_broker_msg k request (ptable p);
          p = p\<lparr>ptable := table\<rparr>;
          reply = zero_msg\<lparr>m_kind := m_kind msg, m_token := m_token msg\<rparr>;
          key = lupine_ipc_key (m_kind msg) (m_token msg) in
      if m_cmd msg = LUPINE_IPC_BROKER_REGISTER then
        if received_fd < 0 then
          let (r, d) = lupine_send_broker_msg up (reply\<lparr>m_status := -1\<rparr>) (-1) (ptable p) in (r, d, p)
        else
          let p = park_fd key received_fd p;
              (r, d) = lupine_send_broker_msg up (reply\<lparr>m_status := 0\<rparr>) (-1) (ptable p) in (r, d, p)
      else if m_cmd msg = LUPINE_IPC_BROKER_GET then
        case parked p key of
          None \<Rightarrow> let (r, d) = lupine_send_broker_msg up (reply\<lparr>m_status := -1\<rparr>) (-1) (ptable p) in (r, d, p)
        | Some found \<Rightarrow> let (r, d) = lupine_send_broker_msg up (reply\<lparr>m_status := 0\<rparr>) found (ptable p) in (r, d, p)
      else (-1, None, if received_fd \<ge> 0 then p\<lparr>ptable := close_fd received_fd (ptable p)\<rparr> else p))"

section \<open>The connection children\<close>

text \<open>
  The server: the parent and the descriptor tables of the children. One exchange of a child is
  atomic with respect to its siblings: its own lanes hold the mutex, and the parent serves one
  request at a time. \<^term>\<open>link\<close> says what can go wrong on the way.
\<close>

record servers =
  broker :: broker_parent
  ctables :: "nat \<Rightarrow> fdtable"

record link =
  broker_fd :: int
  can_send :: bool
  can_serve :: bool
  can_reply :: bool

definition lupine_ipc_broker_exchange ::
  "kernel \<Rightarrow> link \<Rightarrow> nat \<Rightarrow> lupine_ipc_broker_msg \<Rightarrow> int \<Rightarrow> servers \<Rightarrow> lupine_ipc_broker_msg \<times> int \<times> servers" where
  "lupine_ipc_broker_exchange k link c msg fd s =
     (let (sent, request) = lupine_send_broker_msg (can_send link) msg fd (ctables s c) in
      if broker_fd link < 0 \<or> sent < 0 then (zero_msg\<lparr>m_status := -1\<rparr>, -1, s)
      else
        let (reply, s) =
              (if can_serve link then
                 let (r, d, p) = lupine_ipc_broker_parent_handle k (can_reply link) request (broker s)
                 in (d, s\<lparr>broker := p\<rparr>)
               else (None, s));
            (msg, fd, table) = lupine_recv_broker_msg k reply (ctables s c)
        in (msg, fd, s\<lparr>ctables := (ctables s)(c := table)\<rparr>))"

definition close_child :: "nat \<Rightarrow> int \<Rightarrow> servers \<Rightarrow> servers" where
  "close_child c fd s = s\<lparr>ctables := (ctables s)(c := close_fd fd (ctables s c))\<rparr>"

definition lupine_ipc_broker_register_fd :: "kernel \<Rightarrow> link \<Rightarrow> nat \<Rightarrow> u32 \<Rightarrow> token \<Rightarrow> int \<Rightarrow> servers \<Rightarrow> int \<times> servers" where
  "lupine_ipc_broker_register_fd k link c kind token fd s =
     (if fd < 0 then (-1, s)
      else
        let msg = zero_msg\<lparr>m_cmd := LUPINE_IPC_BROKER_REGISTER, m_kind := kind, m_token := token\<rparr>;
            (reply, reply_fd, s) = lupine_ipc_broker_exchange k link c msg fd s;
            s = (if reply_fd \<ge> 0 then close_child c reply_fd s else s)
        in (if m_status reply = 0 then 0 else -1, s))"

definition lupine_ipc_broker_get_fd :: "kernel \<Rightarrow> link \<Rightarrow> nat \<Rightarrow> u32 \<Rightarrow> token \<Rightarrow> servers \<Rightarrow> int \<times> servers" where
  "lupine_ipc_broker_get_fd k link c kind token s =
     (let msg = zero_msg\<lparr>m_cmd := LUPINE_IPC_BROKER_GET, m_kind := kind, m_token := token\<rparr>;
          (reply, fd, s) = lupine_ipc_broker_exchange k link c msg (-1) s in
      if m_status reply \<noteq> 0 then (-1, if fd \<ge> 0 then close_child c fd s else s)
      else (fd, s))"

section \<open>The handlers and the client\<close>

definition CUDA_ERROR_NOT_SUPPORTED :: int where "CUDA_ERROR_NOT_SUPPORTED = 801"
definition CUDA_ERROR_UNKNOWN :: int where "CUDA_ERROR_UNKNOWN = 999"
definition CU_MEM_HANDLE_TYPE_POSIX_FILE_DESCRIPTOR :: u32 where "CU_MEM_HANDLE_TYPE_POSIX_FILE_DESCRIPTOR = 1"

text \<open>
  \<^term>\<open>exported\<close> is the answer of the driver to the export: a result and the file behind the
  descriptor it made; \<^term>\<open>imported\<close> is its answer to an import, as a function of the file.
\<close>

definition handle_export ::
  "kernel \<Rightarrow> link \<Rightarrow> nat \<Rightarrow> u32 \<Rightarrow> u32 \<Rightarrow> token option \<Rightarrow> (int \<times> int \<times> ofile) \<Rightarrow> servers \<Rightarrow> (token \<times> int) \<times> servers" where
  "handle_export k link c kind handleType made exported s =
     (case (if handleType = CU_MEM_HANDLE_TYPE_POSIX_FILE_DESCRIPTOR then made else None) of
        None \<Rightarrow> ((zero_token, CUDA_ERROR_NOT_SUPPORTED), s)
      | Some token \<Rightarrow>
          let (result, shareable_fd, file) = exported in
          if result = CUDA_SUCCESS then
            let s = s\<lparr>ctables := (ctables s)(c := (ctables s c)(shareable_fd \<mapsto> file))\<rparr>;
                (r, s) = lupine_ipc_broker_register_fd k link c kind token shareable_fd s;
                result = (if r < 0 then CUDA_ERROR_UNKNOWN else result)
            in ((token, result), close_child c shareable_fd s)
          else ((token, result), s))"

definition handle_import ::
  "kernel \<Rightarrow> link \<Rightarrow> nat \<Rightarrow> u32 \<Rightarrow> u32 \<Rightarrow> token \<Rightarrow> (ofile option \<Rightarrow> int \<times> handle) \<Rightarrow> servers \<Rightarrow> (handle \<times> int) \<times> servers" where
  "handle_import k link c kind handleType token imported s =
     (if handleType = CU_MEM_HANDLE_TYPE_POSIX_FILE_DESCRIPTOR then
        let (import_fd, s) = lupine_ipc_broker_get_fd k link c kind token s in
        if import_fd \<ge> 0 then
          let (result, h) = imported (ctables s c import_fd) in ((h, result), close_child c import_fd s)
        else ((0, CUDA_ERROR_INVALID_VALUE), s)
      else ((0, CUDA_ERROR_INVALID_VALUE), s))"

text \<open>
  The client around the two calls. \<^term>\<open>local_call\<close> is the answer of the local driver when the route is
  local; the answer of the server is missing when the RPC failed. An export gives the content of
  the proxy file, if the caller asked for the handle; an import reads the content of the file it is given.
\<close>

definition client_export ::
  "(int \<times> u8 list option) option \<Rightarrow> bool \<Rightarrow> bool \<Rightarrow> bool \<Rightarrow> u32 \<Rightarrow> (token \<times> int) option \<Rightarrow> int \<times> u8 list option" where
  "client_export local_call wanted made written kind answer =
     (case local_call of Some result \<Rightarrow> result
      | None \<Rightarrow> case answer of None \<Rightarrow> (CUDA_ERROR_DEVICE_UNAVAILABLE, None)
      | Some (token, return_value) \<Rightarrow>
          if return_value = CUDA_SUCCESS \<and> wanted then
            case lupine_ipc_create_proxy_fd made written kind token of
              None \<Rightarrow> (CUDA_ERROR_UNKNOWN, None)
            | Some content \<Rightarrow> (return_value, Some content)
          else (return_value, None))"

definition client_import ::
  "(handle option \<times> int) option \<Rightarrow> u32 \<Rightarrow> u8 list option \<Rightarrow> (token \<Rightarrow> servers \<Rightarrow> (handle \<times> int) option \<times> servers) \<Rightarrow>
   servers \<Rightarrow> (handle option \<times> int) \<times> servers" where
  "client_import local_call kind content call s =
     (case local_call of Some result \<Rightarrow> (result, s)
      | None \<Rightarrow> case lupine_ipc_read_proxy_fd content of
          None \<Rightarrow> ((None, CUDA_ERROR_INVALID_VALUE), s)
        | Some (k, token) \<Rightarrow>
            if k \<noteq> kind then ((None, CUDA_ERROR_INVALID_VALUE), s)
            else case call token s of
              (None, s) \<Rightarrow> ((None, CUDA_ERROR_DEVICE_UNAVAILABLE), s)
            | (Some (h, result), s) \<Rightarrow> ((Some h, result), s))"

text \<open>A memory pool that was imported is recorded under its route.\<close>

definition noted_pool :: "bool \<Rightarrow> (handle option \<times> int) \<times> servers \<Rightarrow> handle option" where
  "noted_pool wanted answer = (if snd (fst answer) = CUDA_SUCCESS \<and> wanted then fst (fst answer) else None)"

text \<open>The four handlers and the four client calls, for allocations and for memory pools.\<close>

definition handle_cuMemExportToShareableHandle where
  "handle_cuMemExportToShareableHandle k link c = handle_export k link c LUPINE_IPC_FD_KIND_VMM_ALLOCATION"

definition handle_cuMemImportFromShareableHandle where
  "handle_cuMemImportFromShareableHandle k link c = handle_import k link c LUPINE_IPC_FD_KIND_VMM_ALLOCATION"

definition handle_cuMemPoolExportToShareableHandle where
  "handle_cuMemPoolExportToShareableHandle k link c = handle_export k link c LUPINE_IPC_FD_KIND_MEMORY_POOL"

definition handle_cuMemPoolImportFromShareableHandle where
  "handle_cuMemPoolImportFromShareableHandle k link c = handle_import k link c LUPINE_IPC_FD_KIND_MEMORY_POOL"

definition cuMemExportToShareableHandle where
  "cuMemExportToShareableHandle local_call wanted made written =
     client_export local_call wanted made written LUPINE_IPC_FD_KIND_VMM_ALLOCATION"

definition cuMemImportFromShareableHandle where
  "cuMemImportFromShareableHandle local_call = client_import local_call LUPINE_IPC_FD_KIND_VMM_ALLOCATION"

definition cuMemPoolExportToShareableHandle where
  "cuMemPoolExportToShareableHandle local_call wanted made written =
     client_export local_call wanted made written LUPINE_IPC_FD_KIND_MEMORY_POOL"

definition cuMemPoolImportFromShareableHandle where
  "cuMemPoolImportFromShareableHandle local_call wanted content call s =
     (let answer = client_import local_call LUPINE_IPC_FD_KIND_MEMORY_POOL content call s
      in (answer, noted_pool wanted answer))"

text \<open>Requests of the clients, each one whole handler of a child.\<close>

datatype ipc_request =
    Export link nat u32 u32 "token option" "int \<times> int \<times> ofile"
  | Import link nat u32 u32 token "ofile option \<Rightarrow> int \<times> handle"

primrec serve_ipc :: "kernel \<Rightarrow> ipc_request \<Rightarrow> servers \<Rightarrow> servers" where
  "serve_ipc k (Export link c kind handleType made exported) s = snd (handle_export k link c kind handleType made exported s)"
| "serve_ipc k (Import link c kind handleType token imported) s = snd (handle_import k link c kind handleType token imported s)"

declare getrandom_loop.simps [simp del] urandom_loop.simps [simp del]

section \<open>Round trips\<close>

lemma load_store_msg:
  "length (m_token m) = 16 \<Longrightarrow> int32_range (m_status m) \<Longrightarrow> load_msg (store_msg m) = m"
  by (simp add: load_msg_def store_msg_def decode_encode_int32)

lemma store_msg_length: "length (m_token m) = 16 \<Longrightarrow> length (store_msg m) = 32"
  by (simp add: store_msg_def)

lemma small_status [simp]: "int32_range 0" "int32_range (- 1)"
  by (simp_all add: int32_range_def)

lemma zero_token_length [simp]: "length zero_token = 16"
  by (simp add: zero_token_def)

lemma proxy_roundtrip:
  assumes "lupine_ipc_create_proxy_fd made written kind token = Some content" "length token = 16"
  shows "lupine_ipc_read_proxy_fd (Some (content @ rest)) = Some (kind, token)"
  using assms
  by (auto simp: lupine_ipc_create_proxy_fd_def lupine_ipc_read_proxy_fd_def load_payload_def store_payload_def Let_def
      split: if_splits)

lemma ipc_key_inj:
  "lupine_ipc_key kind token = lupine_ipc_key kind' token' \<longleftrightarrow> kind = kind' \<and> token = token'"
  unfolding lupine_ipc_key_def by (metis append_eq_append_conv decode_encode_u32 encode_lengths(2))

lemma getrandom_complete:
  "getrandom_loop n acc answers = Some (Complete bytes) \<Longrightarrow> length acc \<le> n \<Longrightarrow> length bytes = n"
proof (induction answers arbitrary: acc)
  case Nil
  then show ?case by (subst (asm) getrandom_loop.simps) (simp split: if_splits)
next
  case (Cons a answers)
  from Cons.prems show ?case
    by (subst (asm) getrandom_loop.simps) (auto split: if_splits list.splits sysread.splits dest!: Cons.IH)
qed

lemma urandom_complete:
  "urandom_loop n acc answers = Some (Some bytes) \<Longrightarrow> length acc \<le> n \<Longrightarrow> length bytes = n"
proof (induction answers arbitrary: acc)
  case Nil
  then show ?case by (subst (asm) urandom_loop.simps) (simp split: if_splits)
next
  case (Cons a answers)
  from Cons.prems show ?case
    by (subst (asm) urandom_loop.simps) (auto split: if_splits list.splits sysread.splits dest!: Cons.IH)
qed

text \<open>A token that was drawn has all its bytes from the kernel.\<close>

lemma random_bytes_complete:
  "lupine_random_bytes n answers opened reads closed = Some (Some bytes) \<Longrightarrow> length bytes = n"
  by (auto simp: lupine_random_bytes_def
      split: option.splits drawn.splits if_splits dest: getrandom_complete urandom_complete)

lemma make_token_complete:
  "lupine_ipc_make_token answers opened reads closed = Some (Some token) \<Longrightarrow> length token = 16"
  unfolding lupine_ipc_make_token_def by (rule random_bytes_complete)

lemma handed_fd:
  assumes "lupine_ipc_send_fd up fd table = (0, d)" "fd \<ge> 0" "k table' = Some fd'"
  shows "\<exists>f. table fd = Some f \<and> lupine_ipc_recv_fd k d table' = (fd', table'(fd' \<mapsto> f))"
  using assms
  by (auto simp: lupine_ipc_send_fd_def lupine_ipc_recv_fd_def lupine_send_broker_msg_def lupine_recv_broker_msg_def
      store_msg_length zero_msg_def split: if_splits)

section \<open>The parent keeps a registry\<close>

text \<open>
  The kernel picks a number that is not open. Every parked descriptor is open and parked once.
  The registry maps a kind and a token to the file behind the parked descriptor.
\<close>

definition kernel_ok :: "kernel \<Rightarrow> bool" where
  "kernel_ok k \<longleftrightarrow> (\<forall>table fd. k table = Some fd \<longrightarrow> fd \<ge> 0 \<and> table fd = None)"

definition broker_ok :: "'a broker_parent_scheme \<Rightarrow> bool" where
  "broker_ok p \<longleftrightarrow>
     (\<forall>key fd. parked p key = Some fd \<longrightarrow> fd \<ge> 0 \<and> ptable p fd \<noteq> None) \<and>
     (\<forall>key key' fd. parked p key = Some fd \<longrightarrow> parked p key' = Some fd \<longrightarrow> key = key')"

definition registry :: "'a broker_parent_scheme \<Rightarrow> u8 list \<rightharpoonup> ofile" where
  "registry p key = (case parked p key of None \<Rightarrow> None | Some fd \<Rightarrow> ptable p fd)"

lemma recv_msg:
  assumes "length (m_token m) = 16" "int32_range (m_status m)"
  shows "lupine_recv_broker_msg k (Some (store_msg m, att)) table =
    (case (att, k table) of (Some f, Some fd) \<Rightarrow> (m, fd, table(fd \<mapsto> f)) | _ \<Rightarrow> (m, -1, table))"
  using assms
  by (auto simp: lupine_recv_broker_msg_def store_msg_length load_store_msg Let_def split: option.splits)

lemma park_registry:
  assumes "kernel_ok k" "broker_ok p" "k (ptable p) = Some fd"
  shows "broker_ok (park_fd key fd (p\<lparr>ptable := (ptable p)(fd \<mapsto> f)\<rparr>))" (is "broker_ok ?r")
    and "registry (park_fd key fd (p\<lparr>ptable := (ptable p)(fd \<mapsto> f)\<rparr>)) = (registry p)(key \<mapsto> f)"
proof -
  have new: "fd \<ge> 0" "ptable p fd = None" using assms(1,3) by (auto simp: kernel_ok_def)
  have fresh: "parked p x \<noteq> Some fd" for x using assms(2) new(2) unfolding broker_ok_def by metis
  have other: "x \<noteq> key \<Longrightarrow> parked p x = Some e \<Longrightarrow> parked p key \<noteq> Some e" for x e
    using assms(2) by (auto simp: broker_ok_def)
  have park: "parked ?r = (parked p)(key \<mapsto> fd)"
    by (auto simp: park_fd_def Let_def split: option.splits)
  have tab: "ptable ?r = (case parked p key of None \<Rightarrow> (ptable p)(fd \<mapsto> f) | Some e \<Rightarrow> (ptable p)(fd \<mapsto> f, e := None))"
    by (auto simp: park_fd_def Let_def close_fd_def split: option.splits)
  show "broker_ok ?r"
    using assms(2) new fresh other unfolding broker_ok_def park tab by (auto split: option.splits if_splits) 
  show "registry ?r = (registry p)(key \<mapsto> f)"
    using new fresh other by (auto simp: registry_def park tab fun_eq_iff split: option.splits)
qed

lemma parent_register:
  assumes "kernel_ok k" "broker_ok p" and msg: "m_cmd m = LUPINE_IPC_BROKER_REGISTER" "length (m_token m) = 16" "m_status m = 0"
    and "lupine_ipc_broker_parent_handle k up (Some (store_msg m, Some f)) p = (res, reply, p')"
  shows "broker_ok p'"
    and "registry p' = (if k (ptable p) = None then registry p else (registry p)(lupine_ipc_key (m_kind m) (m_token m) \<mapsto> f))"
    and "up \<Longrightarrow> reply = Some (store_msg (zero_msg\<lparr>m_kind := m_kind m, m_token := m_token m,
        m_status := if k (ptable p) = None then -1 else 0\<rparr>), None)"
proof -
  note park = park_registry [OF assms(1,2), where key = "lupine_ipc_key (m_kind m) (m_token m)" and f = f]
  have pos: "k (ptable p) = Some fd \<Longrightarrow> \<not> fd < 0" for fd using assms(1) by (fastforce simp: kernel_ok_def)
  show "broker_ok p'"
    "registry p' = (if k (ptable p) = None then registry p else (registry p)(lupine_ipc_key (m_kind m) (m_token m) \<mapsto> f))"
    "up \<Longrightarrow> reply = Some (store_msg (zero_msg\<lparr>m_kind := m_kind m, m_token := m_token m,
        m_status := if k (ptable p) = None then -1 else 0\<rparr>), None)"
    using assms(2,6) park pos
    by (cases "k (ptable p)";
        auto simp: lupine_ipc_broker_parent_handle_def recv_msg msg Let_def lupine_send_broker_msg_def split: prod.splits if_splits option.splits)+
qed

lemma parent_get:
  assumes "broker_ok p" and msg: "m_cmd m = LUPINE_IPC_BROKER_GET" "length (m_token m) = 16" "m_status m = 0"
    and "lupine_ipc_broker_parent_handle k up (Some (store_msg m, None)) p = (res, reply, p')"
  shows "p' = p"
    and "up \<Longrightarrow> reply = Some (store_msg (zero_msg\<lparr>m_kind := m_kind m, m_token := m_token m,
        m_status := if registry p (lupine_ipc_key (m_kind m) (m_token m)) = None then -1 else 0\<rparr>),
        registry p (lupine_ipc_key (m_kind m) (m_token m)))"
proof -
  have "parked p key = Some fd \<Longrightarrow> fd \<ge> 0 \<and> (\<exists>f. ptable p fd = Some f)" for key fd
    using assms(1) by (auto simp: broker_ok_def)
  then show "p' = p" "up \<Longrightarrow> reply = Some (store_msg (zero_msg\<lparr>m_kind := m_kind m, m_token := m_token m,
        m_status := if registry p (lupine_ipc_key (m_kind m) (m_token m)) = None then -1 else 0\<rparr>),
        registry p (lupine_ipc_key (m_kind m) (m_token m)))"
    using assms(5)
    by (fastforce simp: lupine_ipc_broker_parent_handle_def recv_msg msg Let_def lupine_send_broker_msg_def registry_def
        LUPINE_IPC_BROKER_GET_def LUPINE_IPC_BROKER_REGISTER_def split: prod.splits if_splits option.splits)+
qed

subsection \<open>Exchanges of a child\<close>

definition good_link :: "link \<Rightarrow> bool" where
  "good_link link \<longleftrightarrow> broker_fd link \<ge> 0 \<and> can_send link \<and> can_serve link \<and> can_reply link"

lemma register_keeps:
  assumes "kernel_ok k" "broker_ok (broker s)" "length token = 16"
    and "lupine_ipc_broker_register_fd k link c kind token fd s = (r, s')"
  shows "broker_ok (broker s')"
    and "key \<noteq> lupine_ipc_key kind token \<Longrightarrow> registry (broker s') key = registry (broker s) key"
proof -
  define m where "m = zero_msg\<lparr>m_cmd := LUPINE_IPC_BROKER_REGISTER, m_kind := kind, m_token := token\<rparr>"
  have m: "m_cmd m = LUPINE_IPC_BROKER_REGISTER" "length (m_token m) = 16" "m_status m = 0" "m_kind m = kind" "m_token m = token"
    using assms(3) by (simp_all add: m_def zero_msg_def)
  have "broker s' = broker s \<or> (\<exists>f res reply.
      lupine_ipc_broker_parent_handle k (can_reply link) (Some (store_msg m, Some f)) (broker s) = (res, reply, broker s'))"
    using assms(4)
    by (auto simp: lupine_ipc_broker_register_fd_def lupine_ipc_broker_exchange_def lupine_send_broker_msg_def
        m_def [symmetric] Let_def close_child_def split: if_splits prod.splits)
  then show "broker_ok (broker s')"
    "key \<noteq> lupine_ipc_key kind token \<Longrightarrow> registry (broker s') key = registry (broker s) key"
    using parent_register [OF assms(1,2) m(1-3)] assms(2) by (auto simp: m(4,5) split: if_splits)
qed

lemma register_parks:
  assumes "kernel_ok k" "broker_ok (broker s)" "length token = 16" "good_link link"
    and "fd \<ge> 0" "ctables s c fd = Some f" "k (ptable (broker s)) \<noteq> None"
    and "lupine_ipc_broker_register_fd k link c kind token fd s = (r, s')"
  shows "r = 0" "registry (broker s') (lupine_ipc_key kind token) = Some f"
proof -
  define m where "m = zero_msg\<lparr>m_cmd := LUPINE_IPC_BROKER_REGISTER, m_kind := kind, m_token := token\<rparr>"
  have m: "m_cmd m = LUPINE_IPC_BROKER_REGISTER" "length (m_token m) = 16" "m_status m = 0" "m_kind m = kind" "m_token m = token"
    using assms(3) by (simp_all add: m_def zero_msg_def)
  obtain res reply p where h:
    "lupine_ipc_broker_parent_handle k True (Some (store_msg m, Some f)) (broker s) = (res, reply, p)"
    by (metis prod_cases3)
  note park = parent_register [OF assms(1,2) m(1-3) h]
  have reply: "reply = Some (store_msg (zero_msg\<lparr>m_kind := kind, m_token := token, m_status := 0\<rparr>), None)"
    using park(3) assms(7) m by (simp del: fun_upd_apply)
  have "lupine_recv_broker_msg k reply t = (zero_msg\<lparr>m_kind := kind, m_token := token, m_status := 0\<rparr>, -1, t)" for t
    unfolding reply using assms(3) by (subst recv_msg) simp_all
  then have "r = 0" "broker s' = p" using assms(4-8) h
    by (auto simp: lupine_ipc_broker_register_fd_def lupine_ipc_broker_exchange_def lupine_send_broker_msg_def good_link_def
        m_def [symmetric] Let_def)
  then show "r = 0" "registry (broker s') (lupine_ipc_key kind token) = Some f"
    using park(2) assms(7) m by simp_all
qed

lemma get_keeps:
  assumes "broker_ok (broker s)" "length token = 16"
    and "lupine_ipc_broker_get_fd k link c kind token s = (r, s')"
  shows "broker s' = broker s"
proof -
  define m where "m = zero_msg\<lparr>m_cmd := LUPINE_IPC_BROKER_GET, m_kind := kind, m_token := token\<rparr>"
  have m: "m_cmd m = LUPINE_IPC_BROKER_GET" "length (m_token m) = 16" "m_status m = 0"
    using assms(2) by (simp_all add: m_def zero_msg_def)
  have "broker s' = broker s \<or> (\<exists>res reply.
      lupine_ipc_broker_parent_handle k (can_reply link) (Some (store_msg m, None)) (broker s) = (res, reply, broker s'))"
    using assms(3)
    by (auto simp: lupine_ipc_broker_get_fd_def lupine_ipc_broker_exchange_def lupine_send_broker_msg_def
        m_def [symmetric] Let_def close_child_def split: if_splits prod.splits)
  then show ?thesis using parent_get(1) [OF assms(1) m] by blast
qed

lemma get_redeems:
  assumes "kernel_ok k" "broker_ok (broker s)" "length token = 16" "good_link link" "k (ctables s c) \<noteq> None"
    and "lupine_ipc_broker_get_fd k link c kind token s = (r, s')"
  shows "case registry (broker s) (lupine_ipc_key kind token) of None \<Rightarrow> r = -1
    | Some f \<Rightarrow> r \<ge> 0 \<and> ctables s' c r = Some f"
proof -
  define m where "m = zero_msg\<lparr>m_cmd := LUPINE_IPC_BROKER_GET, m_kind := kind, m_token := token\<rparr>"
  have m: "m_cmd m = LUPINE_IPC_BROKER_GET" "length (m_token m) = 16" "m_status m = 0" "m_kind m = kind" "m_token m = token"
    using assms(3) by (simp_all add: m_def zero_msg_def)
  let ?x = "registry (broker s) (lupine_ipc_key kind token)"
  define ans where "ans = zero_msg\<lparr>m_kind := kind, m_token := token, m_status := if ?x = None then -1 else 0\<rparr>"
  obtain res reply p where h:
    "lupine_ipc_broker_parent_handle k True (Some (store_msg m, None)) (broker s) = (res, reply, p)"
    by (metis prod_cases3)
  have reply: "reply = Some (store_msg ans, ?x)" using parent_get(2) [OF assms(2) m(1-3) h] m by (simp add: ans_def)
  have ok: "length (m_token ans) = 16" "int32_range (m_status ans)" using assms(3) by (simp_all add: ans_def)
  have "lupine_recv_broker_msg k reply t = (case (?x, k t) of (Some f, Some fd) \<Rightarrow> (ans, fd, t(fd \<mapsto> f)) | _ \<Rightarrow> (ans, -1, t))" for t
    unfolding reply by (rule recv_msg [OF ok])
  then show ?thesis using assms(1,4-6) h
    by (auto simp: lupine_ipc_broker_get_fd_def lupine_ipc_broker_exchange_def lupine_send_broker_msg_def good_link_def
        m_def [symmetric] Let_def ans_def kernel_ok_def split: option.splits if_splits)
qed

subsection \<open>Handlers\<close>

text \<open>A request that does not park another file under the key.\<close>

fun leaves_key :: "u8 list \<Rightarrow> ipc_request \<Rightarrow> bool" where
  "leaves_key key (Export link c kind handleType made exported) =
     (case made of None \<Rightarrow> True | Some token \<Rightarrow> length token = 16 \<and> lupine_ipc_key kind token \<noteq> key)"
| "leaves_key key (Import link c kind handleType token imported) = (length token = 16)"

lemma broker_close_child [simp]: "broker (close_child c fd s) = broker s"
  by (simp add: close_child_def)

lemma serve_keeps:
  assumes "kernel_ok k" "broker_ok (broker s)" "leaves_key key request"
  shows "broker_ok (broker (serve_ipc k request s)) \<and> registry (broker (serve_ipc k request s)) key = registry (broker s) key"
proof (cases request)
  case (Export link c kind handleType made exported)
  show ?thesis
  proof (cases "handleType = CU_MEM_HANDLE_TYPE_POSIX_FILE_DESCRIPTOR \<and> made \<noteq> None \<and> fst exported = CUDA_SUCCESS")
    case True
    then obtain token where token: "made = Some token" by blast
    let ?s = "s\<lparr>ctables := (ctables s)(c := (ctables s c)(fst (snd exported) \<mapsto> snd (snd exported)))\<rparr>"
    obtain r s' where reg: "lupine_ipc_broker_register_fd k link c kind token (fst (snd exported)) ?s = (r, s')" by force
    have "length token = 16" "key \<noteq> lupine_ipc_key kind token" using assms(3) Export token by auto
    then show ?thesis using register_keeps [OF assms(1) _ _ reg] assms(2) True reg token Export
      by (cases exported) (simp add: handle_export_def Let_def)
  next
    case False
    then show ?thesis using assms(2) Export
      by (auto simp: handle_export_def Let_def split: prod.splits option.splits)
  qed
next
  case (Import link c kind handleType token imported)
  obtain r s' where g: "lupine_ipc_broker_get_fd k link c kind token s = (r, s')" by force
  have "broker s' = broker s" using get_keeps [OF assms(2) _ g] assms(3) Import by simp
  then show ?thesis using g Import assms(2) by (simp add: handle_import_def Let_def split: prod.splits)
qed

lemma serve_all_keep:
  assumes "kernel_ok k" "broker_ok (broker s)" "\<forall>r \<in> set requests. leaves_key key r"
  shows "broker_ok (broker (fold (serve_ipc k) requests s)) \<and>
    registry (broker (fold (serve_ipc k) requests s)) key = registry (broker s) key"
  using assms(2,3)
proof (induction requests arbitrary: s)
  case (Cons r requests)
  then show ?case using serve_keeps [OF assms(1), of s key r] by simp
qed simp

text \<open>No request touches the descriptors of another child.\<close>

lemma exchange_other:
  assumes "lupine_ipc_broker_exchange k link c msg fd s = (reply, r, s')" "d \<noteq> c"
  shows "ctables s' d = ctables s d"
  using assms by (auto simp: lupine_ipc_broker_exchange_def Let_def split: prod.splits if_splits)

lemma register_other:
  assumes "lupine_ipc_broker_register_fd k link c kind token fd s = (r, s')" "d \<noteq> c"
  shows "ctables s' d = ctables s d"
  using assms by (auto simp: lupine_ipc_broker_register_fd_def Let_def close_child_def dest: exchange_other split: prod.splits if_splits)

lemma get_other:
  assumes "lupine_ipc_broker_get_fd k link c kind token s = (r, s')" "d \<noteq> c"
  shows "ctables s' d = ctables s d"
  using assms by (auto simp: lupine_ipc_broker_get_fd_def Let_def close_child_def dest: exchange_other split: prod.splits if_splits)

lemma export_other: "d \<noteq> c \<Longrightarrow> ctables (snd (handle_export k link c kind handleType made exported s)) d = ctables s d"
  by (auto simp: handle_export_def Let_def close_child_def dest: register_other split: prod.splits option.splits)

lemma import_other: "d \<noteq> c \<Longrightarrow> ctables (snd (handle_import k link c kind handleType token imported s)) d = ctables s d"
  by (auto simp: handle_import_def Let_def close_child_def dest: get_other split: prod.splits)

section \<open>Properties\<close>

text \<open>
  C13: A handle exported by one client is imported by any other: the proxy file of the export leads
  the driver of the importing child to the exported file, whatever the clients of the server
  exported and imported in between, as long as nobody drew the same token for the same kind.
\<close>

theorem exported_handle_reaches_importer:
  assumes "kernel_ok k" "broker_ok (broker s)" and token: "length token = 16"
    and export: "handle_export k link c kind CU_MEM_HANDLE_TYPE_POSIX_FILE_DESCRIPTOR (Some token) (CUDA_SUCCESS, fd, file) s =
      (answer, s1)" "good_link link" "fd \<ge> 0" "k (ptable (broker s)) \<noteq> None"
    and between: "\<forall>r \<in> set requests. leaves_key (lupine_ipc_key kind token) r"
    and s2: "s2 = fold (serve_ipc k) requests s1"
    and import: "good_link link'" "k (ctables s2 c') \<noteq> None"
  shows "\<exists>content s3. client_export None True True True kind (Some answer) = (CUDA_SUCCESS, Some content) \<and>
    client_import None kind (Some content)
      (\<lambda>token. map_prod Some id \<circ> handle_import k link' c' kind CU_MEM_HANDLE_TYPE_POSIX_FILE_DESCRIPTOR token imported) s2 =
      ((Some (snd (imported (Some file))), fst (imported (Some file))), s3)"
proof -
  let ?s = "s\<lparr>ctables := (ctables s)(c := (ctables s c)(fd \<mapsto> file))\<rparr>" and ?key = "lupine_ipc_key kind token"
  obtain r s' where reg: "lupine_ipc_broker_register_fd k link c kind token fd ?s = (r, s')" by force
  have r: "r = 0" "registry (broker s') ?key = Some file" "broker_ok (broker s')"
    using register_parks [OF assms(1) _ token export(2,3) _ _ reg] register_keeps(1) [OF assms(1) _ token reg] assms(2) export(4)
    by simp_all
  have answer: "answer = (token, CUDA_SUCCESS)" and s1: "broker s1 = broker s'"
    using export(1) reg r(1) by (auto simp: handle_export_def Let_def)
  have "broker_ok (broker s2)" "registry (broker s2) ?key = Some file"
    using serve_all_keep [OF assms(1) _ between, of s1] r s1 by (simp_all add: s2)
  moreover obtain i s' where g: "lupine_ipc_broker_get_fd k link' c' kind token s2 = (i, s')" by force
  ultimately have i: "i \<ge> 0" "ctables s' c' i = Some file"
    using get_redeems [OF assms(1) _ token import g] by simp_all
  obtain content where content: "lupine_ipc_create_proxy_fd True True kind token = Some content"
    by (simp add: lupine_ipc_create_proxy_fd_def Let_def)
  have "lupine_ipc_read_proxy_fd (Some content) = Some (kind, token)" using proxy_roundtrip [OF content token, of "[]"] by simp
  moreover have "handle_import k link' c' kind CU_MEM_HANDLE_TYPE_POSIX_FILE_DESCRIPTOR token imported s2 =
      ((snd (imported (Some file)), fst (imported (Some file))), close_child c' i s')"
    using g i by (simp add: handle_import_def split: prod.splits)
  ultimately show ?thesis using content answer by (simp add: client_export_def client_import_def)
qed

text \<open>A kernel that numbers descriptors from three on, as long as there is room for a hundred.\<close>

definition sample_kernel :: kernel where
  "sample_kernel table = List.find (\<lambda>fd. table fd = None) (map int [3..<103])"

definition sample_link :: link where
  "sample_link = \<lparr> broker_fd = 4, can_send = True, can_serve = True, can_reply = True \<rparr>"

definition sample_servers :: servers where
  "sample_servers = \<lparr> broker = \<lparr> parked = Map.empty, ptable = Map.empty \<rparr>, ctables = (\<lambda>c. Map.empty) \<rparr>"

lemma sample_kernel_ok: "kernel_ok sample_kernel"
  by (auto simp: kernel_ok_def sample_kernel_def find_Some_iff)

lemma sample_kernel_free: "table 3 = None \<or> table 4 = None \<Longrightarrow> sample_kernel table \<noteq> None"
  by (auto simp: sample_kernel_def find_None_iff)

theorem exported_handle_witness:
  "let s1 = snd (handle_export sample_kernel sample_link 0 1 CU_MEM_HANDLE_TYPE_POSIX_FILE_DESCRIPTOR (Some zero_token)
        (CUDA_SUCCESS, 3, 77) sample_servers);
       s2 = fold (serve_ipc sample_kernel) [Import sample_link 1 2 1 zero_token (\<lambda>f. (0, 5))] s1
   in \<exists>content s3. client_import None 1 (Some content)
        (\<lambda>token. map_prod Some id \<circ> handle_import sample_kernel sample_link 2 1 CU_MEM_HANDLE_TYPE_POSIX_FILE_DESCRIPTOR token
           (\<lambda>f. (0, of_nat (the f)))) s2 = ((Some 77, 0), s3)"
proof -
  define e where "e = handle_export sample_kernel sample_link 0 1 CU_MEM_HANDLE_TYPE_POSIX_FILE_DESCRIPTOR (Some zero_token)
        (CUDA_SUCCESS, 3, 77) sample_servers"
  define s2 where "s2 = fold (serve_ipc sample_kernel) [Import sample_link 1 2 1 zero_token (\<lambda>f. (0, 5))] (snd e)"
  have "ctables s2 2 = Map.empty"
    by (simp add: s2_def e_def import_other export_other) (simp add: sample_servers_def)
  then have room: "sample_kernel (ctables s2 2) \<noteq> None" "sample_kernel (ptable (broker sample_servers)) \<noteq> None"
    by (simp_all add: sample_kernel_free sample_servers_def)
  have e: "handle_export sample_kernel sample_link 0 1 CU_MEM_HANDLE_TYPE_POSIX_FILE_DESCRIPTOR (Some zero_token)
        (CUDA_SUCCESS, 3, 77) sample_servers = (fst e, snd e)" by (simp add: e_def)
  have ok: "broker_ok (broker sample_servers)" "good_link sample_link" "(3::int) \<ge> 0"
    by (simp_all add: broker_ok_def sample_servers_def good_link_def sample_link_def)
  have between: "\<forall>r \<in> set [Import sample_link 1 2 1 zero_token (\<lambda>f. (0, 5))]. leaves_key (lupine_ipc_key 1 zero_token) r"
    by simp
  show ?thesis
    using exported_handle_reaches_importer [OF sample_kernel_ok ok(1) zero_token_length e ok(2,3) room(2) between s2_def ok(2) room(1),
        of "\<lambda>f. (0, of_nat (the f))"]
    by (auto simp: s2_def e_def Let_def)
qed

text \<open>
  C40: A child whose request the parent never answered takes the export for registered: a failed receive
  leaves a zero message, and a zero status means success. Nothing was parked, so the token is dead.
\<close>

theorem lost_reply_reports_success:
  assumes "broker_fd link \<ge> 0" "can_send link" "\<not> can_serve link" "fd \<ge> 0" "ctables s c fd = Some f"
  shows "\<exists>s'. lupine_ipc_broker_register_fd k link c kind token fd s = (0, s') \<and> broker s' = broker s"
  using assms
  by (simp add: lupine_ipc_broker_register_fd_def lupine_ipc_broker_exchange_def lupine_send_broker_msg_def
      lupine_recv_broker_msg_def zero_msg_def Let_def)

theorem lost_reply_witness:
  "\<exists>s'. lupine_ipc_broker_register_fd sample_kernel (sample_link\<lparr>can_serve := False\<rparr>) 0 1 zero_token 5
      (sample_servers\<lparr>ctables := (\<lambda>c. [5 \<mapsto> 9])\<rparr>) = (0, s') \<and> broker s' = broker sample_servers"
  using lost_reply_reports_success [of "sample_link\<lparr>can_serve := False\<rparr>" 5 "sample_servers\<lparr>ctables := (\<lambda>c. [5 \<mapsto> 9])\<rparr>" 0 9
      sample_kernel 1 zero_token]
  by (simp add: sample_link_def)

end
