(* ===== verification/Server_Process.thy ===== *)
theory Server_Process
  imports Ipc Std_String
begin

text \<open>
  The server process (\<^verbatim>\<open>server.cpp\<close>, \<^verbatim>\<open>rpc_server.cpp\<close>): the parent that accepts connections, sorts them
  into bulk connections and sessions, forks a child per session and brokers descriptors; and the
  dispatch of a request in a child. The state of the parent extends the broker of \<^verbatim>\<open>Ipc\<close>, so its
  descriptor table is the one the broker works on. System calls are answered by the environment.
\<close>

section \<open>Tokens and preambles\<close>

definition hex_digits :: "u8 list" where
  "hex_digits = map of_char ''0123456789abcdef''"

definition lupine_hex :: "u8 list \<Rightarrow> u8 list" where
  "lupine_hex bytes = concat (map (\<lambda>b. [hex_digits ! unat (drop_bit 4 b), hex_digits ! unat (and b 15)]) bytes)"

definition LUPINE_BULK_PREAMBLE_MAGIC :: "u8 list" where
  "LUPINE_BULK_PREAMBLE_MAGIC = map of_char ''LUPBULK'' @ [10]"

definition LUPINE_BULK_PREAMBLE_BYTES :: nat where
  "LUPINE_BULK_PREAMBLE_BYTES = 8 + 32"

section \<open>State of the parent\<close>

record lupine_bulk_route =
  r_pid :: int
  r_token :: "u8 list"
  r_fd :: int

record server = broker_parent +
  sockfd :: int
  connection_children :: "int set"
  bulk_routes :: "lupine_bulk_route list"
  broker_fds :: "int list"
  pending :: "int list"

abbreviation close_server :: "int \<Rightarrow> server \<Rightarrow> server" where
  "close_server fd s \<equiv> s\<lparr>ptable := close_fd fd (ptable s)\<rparr>"

section \<open>Reaping children\<close>

text \<open>The pids \<^verbatim>\<open>waitpid\<close> reports before it has no more, and the walk over the routes.\<close>

fun drop_routes :: "int set \<Rightarrow> lupine_bulk_route list \<Rightarrow> fdtable \<Rightarrow> lupine_bulk_route list \<times> fdtable" where
  "drop_routes children [] table = ([], table)"
| "drop_routes children (it # routes) table =
     (if r_pid it \<in> children then
        let (kept, table) = drop_routes children routes table in (it # kept, table)
      else drop_routes children routes (close_fd (r_fd it) table))"

definition lupine_reap_connection_children :: "int list \<Rightarrow> server \<Rightarrow> server" where
  "lupine_reap_connection_children exited s =
     (let children = connection_children s - set exited;
          (routes, table) = drop_routes children (bulk_routes s) (ptable s)
      in s\<lparr>connection_children := children, bulk_routes := routes, ptable := table\<rparr>)"

section \<open>A child per connection\<close>

text \<open>The kernel gives a pair of connected sockets the next two descriptors.\<close>

definition socketpair :: "kernel \<Rightarrow> bool \<Rightarrow> ofile \<times> ofile \<Rightarrow> fdtable \<Rightarrow> (int \<times> int \<times> fdtable) option" where
  "socketpair k ok files table =
     (if \<not> ok then None else case k table of None \<Rightarrow> None
      | Some a \<Rightarrow> case k (table(a \<mapsto> fst files)) of None \<Rightarrow> None
      | Some b \<Rightarrow> Some (a, b, table(a \<mapsto> fst files, b \<mapsto> snd files)))"

record spawn_env =
  mask_ok :: bool
  broker_pair_ok :: bool
  broker_files :: "ofile \<times> ofile"
  bulk_pair_ok :: bool
  bulk_files :: "ofile \<times> ofile"
  bulk_token :: "token option"
  fork_pid :: int

text \<open>The failure of a socket pair closes what was opened; \<^verbatim>\<open>-1\<close> marks what was not.\<close>

definition spawn_child :: "kernel \<Rightarrow> spawn_env \<Rightarrow> int \<Rightarrow> server \<Rightarrow> server" where
  "spawn_child k env connfd s =
     (if \<not> mask_ok env then close_server connfd s
      else case socketpair k (broker_pair_ok env) (broker_files env) (ptable s) of
        None \<Rightarrow> close_server connfd s
      | Some (b0, b1, table) \<Rightarrow>
          case socketpair k (bulk_pair_ok env) (bulk_files env) table of
            None \<Rightarrow> close_server connfd (s\<lparr>ptable := close_fd b1 (close_fd b0 table)\<rparr>)
          | Some (u0, u1, table) \<Rightarrow>
              let failed = close_server connfd
                (s\<lparr>ptable := close_fd u1 (close_fd u0 (close_fd b1 (close_fd b0 table)))\<rparr>) in
              case bulk_token env of None \<Rightarrow> failed
              | Some token \<Rightarrow>
                  if fork_pid env < 0 then failed
                  else close_server connfd
                    (s\<lparr>ptable := close_fd u1 (close_fd b1 table),
                       broker_fds := broker_fds s @ [b0],
                       bulk_routes := bulk_routes s @ [\<lparr> r_pid = fork_pid env, r_token = lupine_hex token, r_fd = u0 \<rparr>],
                       connection_children := insert (fork_pid env) (connection_children s)\<rparr>))"

text \<open>The descriptors a forked child starts with: those of the parent at the fork, less what it closes.\<close>

definition child_table :: "server \<Rightarrow> fdtable \<Rightarrow> int \<Rightarrow> int \<Rightarrow> int \<Rightarrow> fdtable" where
  "child_table s table connfd b0 u0 =
     close_fd u0 (close_fd b0
       (fold close_fd (filter (\<lambda>fd. fd \<noteq> connfd) (pending s))
         (fold close_fd (map r_fd (bulk_routes s)) (fold close_fd (broker_fds s) (close_fd (sockfd s) table)))))"

section \<open>Sorting a pending connection\<close>

datatype peek = Not_Yet | Hangup | Peeked "u8 list"

text \<open>The child that receives the connection, if it is a bulk connection of a live session.\<close>

definition bulk_owner :: "u8 list \<Rightarrow> lupine_bulk_route list \<Rightarrow> lupine_bulk_route option" where
  "bulk_owner preamble routes =
     List.find (\<lambda>route. take (length (r_token route)) (drop 8 preamble) = r_token route) routes"

definition is_bulk_preamble :: "u8 list \<Rightarrow> bool" where
  "is_bulk_preamble bytes \<longleftrightarrow> length bytes = LUPINE_BULK_PREAMBLE_BYTES \<and> take 8 bytes = LUPINE_BULK_PREAMBLE_MAGIC"

definition classify :: "kernel \<Rightarrow> spawn_env \<Rightarrow> peek \<Rightarrow> int \<Rightarrow> server \<Rightarrow> bool \<times> (int \<times> datagram option) option \<times> server" where
  "classify k env peeked connfd s = (case peeked of
       Not_Yet \<Rightarrow> (False, None, s)
     | Hangup \<Rightarrow> (True, None, close_server connfd s)
     | Peeked bytes \<Rightarrow>
         let preamble = take LUPINE_BULK_PREAMBLE_BYTES bytes in
         if is_bulk_preamble preamble then
           (True,
            (case bulk_owner preamble (bulk_routes s) of None \<Rightarrow> None
             | Some route \<Rightarrow> Some (r_pid route, snd (lupine_ipc_send_fd True connfd (ptable s)))),
            close_server connfd s)
         else (True, None, spawn_child k env connfd s))"

section \<open>One round of the server loop\<close>

text \<open>
  What the system answers in a round: the children that exited, whether termination was requested,
  which descriptors are ready, the request waiting on a broker socket and whether its child can be
  answered, the first bytes of a pending connection, the file of an accepted connection, and the signals seen
  since the start of the round.
\<close>

record round_env =
  exited :: "int list"
  termination_requested :: bool
  poll_ok :: bool
  ready :: "int \<Rightarrow> bool"
  requests :: "int \<Rightarrow> datagram option"
  answered :: "int \<Rightarrow> bool"
  peeks :: "int \<Rightarrow> peek"
  spawns :: "int \<Rightarrow> spawn_env"
  accepted :: "ofile option"
  late_exited :: "int list"
  late_termination :: bool

definition serve_broker :: "kernel \<Rightarrow> round_env \<Rightarrow> int \<Rightarrow> server \<Rightarrow> server" where
  "serve_broker k env fd s =
     (if \<not> ready env fd then s
      else let (r, reply, s) = lupine_ipc_broker_parent_handle k (answered env fd) (requests env fd) s in
        if r < 0 then (close_server fd s)\<lparr>broker_fds := filter (\<lambda>x. x \<noteq> fd) (broker_fds s)\<rparr> else s)"

definition serve_pending :: "kernel \<Rightarrow> round_env \<Rightarrow> int \<Rightarrow> server \<Rightarrow> server" where
  "serve_pending k env fd s =
     (if \<not> ready env fd then s
      else let (sorted, handed, s) = classify k (spawns env fd) (peeks env fd) fd s in
        if sorted then s\<lparr>pending := filter (\<lambda>x. x \<noteq> fd) (pending s)\<rparr> else s)"

definition accept_connection :: "kernel \<Rightarrow> round_env \<Rightarrow> server \<Rightarrow> bool \<times> server" where
  "accept_connection k env s =
     (case (accepted env, k (ptable s)) of
        (Some f, Some connfd) \<Rightarrow>
          let s = s\<lparr>ptable := (ptable s)(connfd \<mapsto> f)\<rparr> in
          if late_termination env then (False, close_server connfd s)
          else (True, s\<lparr>pending := pending s @ [connfd]\<rparr>)
      | _ \<Rightarrow>
          let s = (if late_exited env \<noteq> [] then lupine_reap_connection_children (late_exited env) s else s)
          in (\<not> late_termination env, s))"

definition server_round :: "kernel \<Rightarrow> round_env \<Rightarrow> server \<Rightarrow> bool \<times> server" where
  "server_round k env s =
     (let s = (if exited env \<noteq> [] then lupine_reap_connection_children (exited env) s else s) in
      if termination_requested env then (False, s)
      else if \<not> poll_ok env then (True, s)
      else
        let brokers = broker_fds s; waiting = pending s;
            s = fold (serve_broker k env) brokers s;
            s = fold (serve_pending k env) waiting s
        in if ready env (sockfd s) then accept_connection k env s else (True, s))"

section \<open>Ending\<close>

text \<open>
  The wait for the children after they were told to end; the answers of \<^verbatim>\<open>waitpid\<close> are a child with
  whether it ended well, an interruption, the lack of children or another error.
\<close>

datatype waited = Child int bool | Wait_Eintr | Wait_Echild | Wait_Error

fun await_children :: "int set \<Rightarrow> bool \<Rightarrow> waited list \<Rightarrow> bool option" where
  "await_children children ok answers =
     (if children = {} then Some ok
      else case answers of [] \<Rightarrow> None
      | Child pid fine # rest \<Rightarrow> await_children (children - {pid}) (ok \<and> fine) rest
      | Wait_Eintr # rest \<Rightarrow> await_children children ok rest
      | Wait_Echild # rest \<Rightarrow> Some ok
      | Wait_Error # rest \<Rightarrow> Some False)"

declare await_children.simps [simp del]

section \<open>Configuration\<close>

text \<open>\<^verbatim>\<open>strtol\<close> in base ten: white space, a sign, digits; the value and the rest, or nothing when there is no digit.\<close>

definition is_space :: "char \<Rightarrow> bool" where
  "is_space c \<longleftrightarrow> c = CHR '' '' \<or> (9 \<le> code c \<and> code c \<le> 13)"

definition LONG_MAX :: int where "LONG_MAX = 2 ^ 63 - 1"

definition clamp_long :: "int \<Rightarrow> int" where
  "clamp_long v = max (- LONG_MAX - 1) (min LONG_MAX v)"

definition strtol :: "string \<Rightarrow> (int \<times> string) option" where
  "strtol s =
     (let s = dropWhile is_space s;
          neg = (s \<noteq> [] \<and> hd s = CHR ''-'');
          s = (if s \<noteq> [] \<and> (hd s = CHR ''-'' \<or> hd s = CHR ''+'') then tl s else s);
          digits = takeWhile is_digit s
      in if digits = [] then None
         else Some (clamp_long (if neg then - int (decimal_value digits) else int (decimal_value digits)), dropWhile is_digit s))"

definition DEFAULT_PORT :: int where "DEFAULT_PORT = 14833"

definition parse_port :: "string option \<Rightarrow> int option" where
  "parse_port p = (case p of None \<Rightarrow> Some DEFAULT_PORT
     | Some p \<Rightarrow> case strtol p of None \<Rightarrow> None
       | Some (parsed, rest) \<Rightarrow> if rest \<noteq> [] \<or> parsed < 1 \<or> parsed > 65535 then None else Some parsed)"

definition parse_connection_fd :: "string \<Rightarrow> (int \<Rightarrow> bool) \<Rightarrow> int option" where
  "parse_connection_fd inherited is_stream = (case strtol inherited of None \<Rightarrow> None
     | Some (fd, rest) \<Rightarrow> if rest \<noteq> [] \<or> fd < 0 \<or> fd > 2147483647 \<or> \<not> is_stream fd then None else Some fd)"

section \<open>Dispatch in a child\<close>

datatype rpc_backend = Cuda | Nvml | Hip | Nccl

record rpc_handler =
  handler :: "nat option"
  backend :: rpc_backend

type_synonym rpc_handler_registry = "int \<rightharpoonup> rpc_handler"

definition rpc_server_validate :: "(int \<times> rpc_handler) list \<Rightarrow> bool" where
  "rpc_server_validate handlers = list_all (\<lambda>entry. handler (snd entry) \<noteq> None) handlers"

datatype gate_event = Drain_Gate | Enter_Gate | Leave_Gate | Run nat

record build =
  cuda_backend :: bool
  nvml_backend :: bool
  hip_backend :: bool
  nccl_backend :: bool

definition LUPINE_HANDOFF_DRAIN_REQUEST :: int where "LUPINE_HANDOFF_DRAIN_REQUEST = 0x4c504d02"

text \<open>
  \<^term>\<open>run\<close> is the result of a handler, \<^term>\<open>respond\<close> that of the response to a drain and \<^term>\<open>metadata\<close> that of the
  metadata request. The events are the uses of the call gate around the handler. A registry that was
  validated has no null handler.
\<close>

definition rpc_server_dispatch ::
  "build \<Rightarrow> int \<Rightarrow> int \<Rightarrow> int \<Rightarrow> rpc_handler_registry \<Rightarrow> (nat \<Rightarrow> int) \<Rightarrow> int \<Rightarrow> int \<Rightarrow> int \<Rightarrow> int \<times> gate_event list" where
  "rpc_server_dispatch b metadata_op chunk_op read_op handlers run respond metadata op =
     (if op = LUPINE_HANDOFF_DRAIN_REQUEST then (respond, if cuda_backend b then [Drain_Gate] else [])
      else if op = metadata_op then (metadata, [])
      else case handlers op of None \<Rightarrow> (-1, [])
      | Some h \<Rightarrow> case handler h of None \<Rightarrow> (-1, [])
        | Some f \<Rightarrow>
          let (result, events) = (case backend h of
              Cuda \<Rightarrow> if cuda_backend b then
                  if op = chunk_op \<or> op = read_op then (run f, [Run f])
                  else (run f, [Enter_Gate, Run f, Leave_Gate])
                else (-1, [])
            | Nccl \<Rightarrow> if nccl_backend b then (run f, [Enter_Gate, Run f, Leave_Gate]) else (-1, [])
            | Nvml \<Rightarrow> if nvml_backend b then (run f, [Run f]) else (-1, [])
            | Hip \<Rightarrow> if hip_backend b then (run f, [Run f]) else (-1, []))
          in (if result \<ge> 0 then 0 else -1, events))"

text \<open>
  The lanes of a connection: in each round the finished lanes are joined, a new stream is accepted
  (a negative stream ends the loop) and gets a lane of its own, up to a limit.
\<close>

definition MAX_LANES :: nat where "MAX_LANES = 256"

record lane_round =
  conn_closed :: bool
  lane_done :: "int \<Rightarrow> bool"
  stream_id :: int

fun lupine_serve_lanes :: "int list \<Rightarrow> lane_round list \<Rightarrow> int list" where
  "lupine_serve_lanes lanes [] = lanes"
| "lupine_serve_lanes lanes (r # rounds) =
     (if conn_closed r then lanes
      else let lanes = filter (\<lambda>l. \<not> lane_done r l) lanes in
        if stream_id r < 0 \<or> length lanes \<ge> MAX_LANES then lanes
        else lupine_serve_lanes (if stream_id r \<in> set lanes then lanes else lanes @ [stream_id r]) rounds)"

text \<open>
  The life of a connection in its child: the answers of each stage, and the steps taken in order
  with the result.
\<close>

datatype conn_event = Close_Socket | Graceful_Shutdown | Register_Child | Serve_Bulk | Serve_Lanes |
  Checkpoint_Finish | Cleanup_Connection | Cleanup_Identity | Destroy_Conn

record conn_env =
  with_cuda :: bool
  dispatched :: int
  conn_init :: int
  http2_init :: int
  state_ok :: bool
  restored :: bool
  has_bulk :: bool
  finish_result :: int

definition lupine_client_handler_exit :: "conn_env \<Rightarrow> conn_event list \<times> int" where
  "lupine_client_handler_exit env = (if with_cuda env then ([Checkpoint_Finish], finish_result env) else ([], 0))"

definition client_handler :: "conn_env \<Rightarrow> conn_event list \<times> int" where
  "client_handler env =
     (let (last_steps, result) = lupine_client_handler_exit env in
      if dispatched env \<noteq> 0 then (Close_Socket # last_steps, result)
      else if conn_init env < 0 then (last_steps, result)
      else if http2_init env < 0 then (Destroy_Conn # last_steps, result)
      else if http2_init env \<noteq> 0 then ([Graceful_Shutdown, Destroy_Conn] @ last_steps, result)
      else if with_cuda env \<and> \<not> state_ok env then ([Register_Child, Destroy_Conn, Checkpoint_Finish], finish_result env)
      else if with_cuda env \<and> \<not> restored env then ([Register_Child, Destroy_Conn, Checkpoint_Finish], finish_result env)
      else
        ([Register_Child] @ (if has_bulk env then [Serve_Bulk] else []) @ [Serve_Lanes] @
         (if with_cuda env then [Checkpoint_Finish, Cleanup_Connection, Cleanup_Identity] else []) @ [Destroy_Conn],
         if with_cuda env then finish_result env else 0))"

section \<open>Every descriptor has one owner\<close>

text \<open>How often a descriptor occurs in the books of the parent.\<close>

definition owners :: "server \<Rightarrow> int \<Rightarrow> nat" where
  "owners s fd = (if fd = sockfd s then 1 else 0) + count_list (broker_fds s) fd + count_list (map r_fd (bulk_routes s)) fd +
     count_list (pending s) fd + (if fd \<in> ran (parked s) then 1 else 0)"

text \<open>
  The descriptors open in the parent are those it was started with, \<^term>\<open>base\<close>, and those in its books;
  each of the latter occurs once. A parked descriptor has one key, and a route belongs to a live child.
\<close>

definition server_ok :: "int set \<Rightarrow> server \<Rightarrow> bool" where
  "server_ok base s \<longleftrightarrow>
     (\<forall>fd. owners s fd = (if ptable s fd \<noteq> None \<and> fd \<notin> base then 1 else 0)) \<and>
     (\<forall>fd. fd \<in> base \<longrightarrow> ptable s fd \<noteq> None) \<and> (\<forall>fd. ptable s fd \<noteq> None \<longrightarrow> fd \<ge> 0) \<and>
     (\<forall>key key' fd. parked s key = Some fd \<longrightarrow> parked s key' = Some fd \<longrightarrow> key = key') \<and>
     (\<forall>route \<in> set (bulk_routes s). r_pid route \<in> connection_children s)"

text \<open>What a child sends on its broker socket: a registration, a request for a descriptor, or the end of the socket.\<close>

definition child_request :: "datagram option \<Rightarrow> bool" where
  "child_request d \<longleftrightarrow> (case d of None \<Rightarrow> True | Some (bytes, att) \<Rightarrow>
     \<exists>m. bytes = store_msg m \<and> length (m_token m) = 16 \<and> m_status m = 0 \<and>
       (m_cmd m = LUPINE_IPC_BROKER_REGISTER \<or> m_cmd m = LUPINE_IPC_BROKER_GET \<and> att = None))"

lemma register_request:
  "length token = 16 \<Longrightarrow> child_request (snd (lupine_send_broker_msg up
     (zero_msg\<lparr>m_cmd := LUPINE_IPC_BROKER_REGISTER, m_kind := kind, m_token := token\<rparr>) fd table))"
  by (auto simp: child_request_def lupine_send_broker_msg_def zero_msg_def intro!: exI [of _ "zero_msg\<lparr>m_cmd := LUPINE_IPC_BROKER_REGISTER, m_kind := kind, m_token := token\<rparr>"])

lemma get_request:
  "length token = 16 \<Longrightarrow> child_request (snd (lupine_send_broker_msg up
     (zero_msg\<lparr>m_cmd := LUPINE_IPC_BROKER_GET, m_kind := kind, m_token := token\<rparr>) (-1) table))"
  by (auto simp: child_request_def lupine_send_broker_msg_def zero_msg_def intro!: exI [of _ "zero_msg\<lparr>m_cmd := LUPINE_IPC_BROKER_GET, m_kind := kind, m_token := token\<rparr>"])

lemma count_list_filter_neq [simp]: "count_list (filter (\<lambda>x. x \<noteq> a) xs) b = (if a = b then 0 else count_list xs b)"
  by (induction xs) auto

lemma server_ok_broker: "server_ok base s \<Longrightarrow> broker_ok s"
proof -
  assume ok: "server_ok base s"
  have "ptable s fd \<noteq> None" if "parked s key = Some fd" for key fd
  proof -
    have "fd \<in> ran (parked s)" using that by (auto simp: ran_def)
    then have "owners s fd \<noteq> 0" by (simp add: owners_def)
    then show ?thesis using ok by (auto simp: server_ok_def split: if_splits)
  qed
  then show "broker_ok s" using ok by (auto simp: server_ok_def broker_ok_def)
qed

text \<open>A descriptor that is open and in the books is only in one book.\<close>

lemma owned_once:
  assumes "server_ok base s"
  shows "owners s fd \<le> 1" "owners s fd = 1 \<Longrightarrow> ptable s fd \<noteq> None \<and> fd \<notin> base"
    "ptable s fd = None \<Longrightarrow> owners s fd = 0"
  using assms by (auto simp: server_ok_def split: if_splits)

lemma count_list_pos: "x \<in> set xs \<Longrightarrow> count_list xs x \<ge> 1"
  using count_list_0_iff [of xs x] by (cases "count_list xs x") auto

subsection \<open>Reaping\<close>

lemma drop_routes_filter:
  "fst (drop_routes children routes table) = filter (\<lambda>r. r_pid r \<in> children) routes"
  "snd (drop_routes children routes table) fd =
     (if \<exists>r \<in> set routes. r_pid r \<notin> children \<and> r_fd r = fd then None else table fd)"
  by (induction routes arbitrary: table) (auto simp: close_fd_def case_prod_unfold)

lemma count_routes_split:
  "count_list (map r_fd routes) fd = count_list (map r_fd (filter P routes)) fd + count_list (map r_fd (filter (\<lambda>r. \<not> P r) routes)) fd"
  by (induction routes) auto

lemma reap_ok:
  assumes "server_ok base s"
  shows "server_ok base (lupine_reap_connection_children pids s)"
proof -
  define children where "children = connection_children s - set pids"
  let ?keep = "filter (\<lambda>r. r_pid r \<in> children) (bulk_routes s)" and ?drop = "filter (\<lambda>r. r_pid r \<notin> children) (bulk_routes s)"
  obtain routes table where d: "drop_routes children (bulk_routes s) (ptable s) = (routes, table)" by force
  have r: "routes = ?keep" using drop_routes_filter(1) [of children "bulk_routes s" "ptable s"] d by simp
  have t: "table fd = (if fd \<in> r_fd ` set ?drop then None else ptable s fd)" for fd
    using drop_routes_filter(2) [of children "bulk_routes s" "ptable s" fd] d by (auto simp: image_iff)
  define s' where "s' = s\<lparr>connection_children := children, bulk_routes := routes, ptable := table\<rparr>"
  have c: "owners s fd = owners s' fd + count_list (map r_fd ?drop) fd" for fd
    using count_routes_split [of "bulk_routes s" fd "\<lambda>r. r_pid r \<in> children"] by (simp add: owners_def s'_def r)
  have "owners s' fd = (if table fd \<noteq> None \<and> fd \<notin> base then 1 else 0)" for fd
  proof (cases "fd \<in> r_fd ` set ?drop")
    case True
    then have "count_list (map r_fd ?drop) fd \<ge> 1" by (intro count_list_pos) simp
    then show ?thesis using c [of fd] owned_once(1) [OF assms, of fd] t True by simp
  next
    case False
    then have "count_list (map r_fd ?drop) fd = 0" by (simp add: count_list_0_iff)
    then show ?thesis using c [of fd] assms t [of fd] False by (simp add: server_ok_def)
  qed
  moreover have "fd \<in> base \<Longrightarrow> table fd \<noteq> None" for fd
  proof -
    assume b: "fd \<in> base"
    then have "owners s fd = 0" using assms by (simp add: server_ok_def)
    then have "fd \<notin> r_fd ` set ?drop" using c [of fd] count_list_pos [of fd "map r_fd ?drop"] by auto
    then show ?thesis using t [of fd] assms b by (simp add: server_ok_def)
  qed
  ultimately have "server_ok base s'" using assms t by (auto simp: server_ok_def s'_def r)
  then show ?thesis using d by (simp add: lupine_reap_connection_children_def children_def s'_def)
qed

subsection \<open>Descriptors enter and leave the books\<close>

lemma forget_pending:
  assumes "server_ok base s" "fd \<in> set (pending s)"
  shows "server_ok base ((close_server fd s)\<lparr>pending := filter (\<lambda>x. x \<noteq> fd) (pending s)\<rparr>)" (is "server_ok base ?s")
proof -
  have one: "owners s fd = 1" "count_list (pending s) fd = 1"
    using count_list_pos [OF assms(2)] owned_once(1) [OF assms(1), of fd] by (auto simp: owners_def)
  then have "fd \<notin> base" using owned_once(2) [OF assms(1), of fd] by simp
  moreover have "owners ?s x = (if x = fd then 0 else owners s x)" for x
    using one by (auto simp: owners_def)
  ultimately show ?thesis using assms(1) by (auto simp: server_ok_def close_fd_def)
qed

lemma forget_broker:
  assumes "server_ok base s" "fd \<in> set (broker_fds s)"
  shows "server_ok base ((close_server fd s)\<lparr>broker_fds := filter (\<lambda>x. x \<noteq> fd) (broker_fds s)\<rparr>)" (is "server_ok base ?s")
proof -
  have one: "owners s fd = 1" "count_list (broker_fds s) fd = 1"
    using count_list_pos [OF assms(2)] owned_once(1) [OF assms(1), of fd] by (auto simp: owners_def)
  then have "fd \<notin> base" using owned_once(2) [OF assms(1), of fd] by simp
  moreover have "owners ?s x = (if x = fd then 0 else owners s x)" for x
    using one by (auto simp: owners_def)
  ultimately show ?thesis using assms(1) by (auto simp: server_ok_def close_fd_def)
qed

lemma adopt_child:
  assumes "server_ok base s" "ptable s b = None" "ptable s u = None" "b \<noteq> u" "b \<ge> 0" "u \<ge> 0" "r_fd route = u"
  shows "server_ok base (s\<lparr>ptable := (ptable s)(b \<mapsto> f, u \<mapsto> g), broker_fds := broker_fds s @ [b],
    bulk_routes := bulk_routes s @ [route], connection_children := insert (r_pid route) (connection_children s)\<rparr>)"
    (is "server_ok base ?s")
proof -
  have z: "owners s b = 0" "owners s u = 0" "b \<notin> base" "u \<notin> base"
    using owned_once(3) [OF assms(1)] assms(1-3) by (auto simp: server_ok_def)
  have "owners ?s x = (if x = b \<or> x = u then 1 else owners s x)" for x
    using z(1,2) assms(4,7) by (auto simp: owners_def)
  then show ?thesis using assms z by (auto simp: server_ok_def)
qed

lemma accept_ok:
  assumes "server_ok base s" "ptable s fd = None" "fd \<ge> 0"
  shows "server_ok base (s\<lparr>ptable := (ptable s)(fd \<mapsto> f), pending := pending s @ [fd]\<rparr>)" (is "server_ok base ?s")
proof -
  have z: "owners s fd = 0" "fd \<notin> base" using owned_once(3) [OF assms(1)] assms(1,2) by (auto simp: server_ok_def)
  have "owners ?s x = (if x = fd then 1 else owners s x)" for x using z(1) by (auto simp: owners_def)
  then show ?thesis using assms z by (auto simp: server_ok_def)
qed

lemma park_ok:
  assumes "server_ok base s" "ptable s fd = None" "fd \<ge> 0"
  shows "server_ok base (park_fd key fd (s\<lparr>ptable := (ptable s)(fd \<mapsto> f)\<rparr>))" (is "server_ok base ?s")
proof -
  have z: "owners s fd = 0" "fd \<notin> base" using owned_once(3) [OF assms(1)] assms(1,2) by (auto simp: server_ok_def)
  then have fresh: "parked s x \<noteq> Some fd" for x by (auto simp: owners_def ran_def split: if_splits)
  have uniq: "parked s x = Some e \<Longrightarrow> parked s y = Some e \<Longrightarrow> x = y" for x y e using assms(1) by (auto simp: server_ok_def)
  have park: "parked ?s = (parked s)(key \<mapsto> fd)"
    and tab: "ptable ?s = (case parked s key of None \<Rightarrow> (ptable s)(fd \<mapsto> f) | Some e \<Rightarrow> (ptable s)(fd \<mapsto> f, e := None))"
    and rest: "sockfd ?s = sockfd s" "broker_fds ?s = broker_fds s" "bulk_routes ?s = bulk_routes s" "pending ?s = pending s"
      "connection_children ?s = connection_children s"
    by (auto simp: park_fd_def Let_def close_fd_def split: option.splits)
  have ran: "x \<in> ran (parked ?s) \<longleftrightarrow> x = fd \<or> x \<in> ran (parked s) \<and> parked s key \<noteq> Some x" for x
    unfolding park using uniq by (auto simp: ran_def) metis
  have "owners ?s x = (if x = fd then 1 else if parked s key = Some x then 0 else owners s x)" for x
  proof (cases "parked s key = Some x")
    case True
    then have "x \<in> ran (parked s)" "x \<noteq> fd" using fresh by (auto simp: ran_def)
    then show ?thesis using owned_once(1) [OF assms(1), of x] True by (auto simp: owners_def ran rest)
  next
    case False
    then show ?thesis using z(1) by (auto simp: owners_def ran rest)
  qed
  moreover have "e \<notin> base" if "parked s key = Some e" for e
  proof -
    have "e \<in> ran (parked s)" using that by (auto simp: ran_def)
    then have "owners s e = 1" using owned_once(1) [OF assms(1), of e] by (simp add: owners_def)
    then show ?thesis using owned_once(2) [OF assms(1), of e] by blast
  qed
  ultimately show ?thesis using assms z fresh uniq
    unfolding server_ok_def rest park tab by (auto split: option.splits if_splits)
qed

subsection \<open>A round keeps the books\<close>

lemma parent_handle_ok:
  assumes "kernel_ok k" "server_ok base s" "child_request d"
    and h: "lupine_ipc_broker_parent_handle k up d s = (r, reply, s')"
  shows "server_ok base s'" "broker_fds s' = broker_fds s" "pending s' = pending s" "sockfd s' = sockfd s"
proof -
  have "s' = s \<or> (\<exists>key fd f. k (ptable s) = Some fd \<and> s' = park_fd key fd (s\<lparr>ptable := (ptable s)(fd \<mapsto> f)\<rparr>))"
  proof (cases d)
    case None
    then show ?thesis using h
      by (simp add: lupine_ipc_broker_parent_handle_def lupine_recv_broker_msg_def zero_msg_def
          LUPINE_IPC_BROKER_REGISTER_def LUPINE_IPC_BROKER_GET_def)
  next
    case (Some request)
    then obtain m att where m: "d = Some (store_msg m, att)" "length (m_token m) = 16" "m_status m = 0"
      "m_cmd m = LUPINE_IPC_BROKER_REGISTER \<or> m_cmd m = LUPINE_IPC_BROKER_GET \<and> att = None"
      using assms(3) by (cases request) (auto simp: child_request_def)
    show ?thesis
    proof (cases "m_cmd m = LUPINE_IPC_BROKER_GET \<and> att = None")
      case True
      then show ?thesis using parent_get(1) [OF server_ok_broker [OF assms(2)] _ m(2,3)] h m(1) by blast
    next
      case False
      then have c: "m_cmd m = LUPINE_IPC_BROKER_REGISTER" using m(4) by blast
      have "k (ptable s) = Some fd \<Longrightarrow> \<not> fd < 0" for fd using assms(1) by (fastforce simp: kernel_ok_def)
      then show ?thesis using h m(2,3) c
        by (auto simp: m(1) lupine_ipc_broker_parent_handle_def recv_msg Let_def split: prod.splits option.splits if_splits)
    qed
  qed
  moreover have "k (ptable s) = Some fd \<Longrightarrow> ptable s fd = None \<and> fd \<ge> 0" for fd using assms(1) by (simp add: kernel_ok_def)
  moreover have "broker_fds (park_fd key fd x) = broker_fds x" "pending (park_fd key fd x) = pending x"
    "sockfd (park_fd key fd x) = sockfd x" for key fd and x :: server
    by (auto simp: park_fd_def Let_def split: option.splits)
  ultimately show "server_ok base s'" "broker_fds s' = broker_fds s" "pending s' = pending s" "sockfd s' = sockfd s"
    using assms(2) park_ok [OF assms(2)] by auto
qed

definition round_ok :: "round_env \<Rightarrow> bool" where
  "round_ok env \<longleftrightarrow> (\<forall>fd. child_request (requests env fd))"

lemma serve_broker_ok:
  assumes "kernel_ok k" "round_ok env" "server_ok base s" "fd \<in> set (broker_fds s)"
  shows "server_ok base (serve_broker k env fd s)"
    and "x \<noteq> fd \<Longrightarrow> x \<in> set (broker_fds s) \<Longrightarrow> x \<in> set (broker_fds (serve_broker k env fd s))"
    and "pending (serve_broker k env fd s) = pending s"
proof -
  obtain r reply s' where h: "lupine_ipc_broker_parent_handle k (answered env fd) (requests env fd) s = (r, reply, s')"
    by (metis prod_cases3)
  have "child_request (requests env fd)" using assms(2) by (simp add: round_ok_def)
  note keep = parent_handle_ok [OF assms(1,3) this h]
  then show "server_ok base (serve_broker k env fd s)"
    "x \<noteq> fd \<Longrightarrow> x \<in> set (broker_fds s) \<Longrightarrow> x \<in> set (broker_fds (serve_broker k env fd s))"
    "pending (serve_broker k env fd s) = pending s"
    using forget_broker [OF keep(1), of fd] assms(3,4) h by (auto simp: serve_broker_def)
qed

lemma socketpair_fresh:
  assumes "kernel_ok k" "socketpair k ok files table = Some (a, b, table')"
  shows "table a = None" "table b = None" "a \<noteq> b" "a \<ge> 0" "b \<ge> 0" "table' = table(a \<mapsto> fst files, b \<mapsto> snd files)"
proof -
  have a: "k table = Some a" and b: "k (table(a \<mapsto> fst files)) = Some b" and t: "table' = table(a \<mapsto> fst files, b \<mapsto> snd files)"
    using assms(2) by (auto simp: socketpair_def split: if_splits option.splits)
  have "(table(a \<mapsto> fst files)) b = None" "b \<ge> 0" using assms(1) b unfolding kernel_ok_def by blast+
  then show "table a = None" "table b = None" "a \<noteq> b" "a \<ge> 0" "b \<ge> 0" "table' = table(a \<mapsto> fst files, b \<mapsto> snd files)"
    using assms(1) a t unfolding kernel_ok_def by (auto split: if_splits)
qed

text \<open>A spawn either closes the connection only, or also adopts the ends of two socket pairs.\<close>

lemma spawn_cases:
  assumes "kernel_ok k"
  shows "spawn_child k env connfd s = close_server connfd s \<or>
    (\<exists>b u f g token. ptable s b = None \<and> ptable s u = None \<and> b \<noteq> u \<and> b \<ge> 0 \<and> u \<ge> 0 \<and>
       spawn_child k env connfd s = close_server connfd
         (s\<lparr>ptable := (ptable s)(b \<mapsto> f, u \<mapsto> g), broker_fds := broker_fds s @ [b],
            bulk_routes := bulk_routes s @ [\<lparr> r_pid = fork_pid env, r_token = lupine_hex token, r_fd = u \<rparr>],
            connection_children := insert (fork_pid env) (connection_children s)\<rparr>))"
proof (cases "mask_ok env")
  case True
  show ?thesis
  proof (cases "socketpair k (broker_pair_ok env) (broker_files env) (ptable s)")
    case (Some p)
    obtain b0 b1 t where p: "p = (b0, b1, t)" by (cases p)
    note b = socketpair_fresh [OF assms Some [unfolded p]]
    have t: "close_fd b1 (close_fd b0 t) = ptable s" using b by (auto simp: close_fd_def fun_eq_iff)
    show ?thesis
    proof (cases "socketpair k (bulk_pair_ok env) (bulk_files env) t")
      case None
      then show ?thesis using True Some p t by (simp add: spawn_child_def)
    next
      case S: (Some q)
      obtain u0 u1 t' where q: "q = (u0, u1, t')" by (cases q)
      note u = socketpair_fresh [OF assms S [unfolded q]]
      have "close_fd u1 (close_fd u0 t') = t" using u by (auto simp: close_fd_def fun_eq_iff)
      moreover have "close_fd b1 (close_fd b0 t') = (close_fd b1 (close_fd b0 t))(u0 \<mapsto> fst (bulk_files env), u1 \<mapsto> snd (bulk_files env))"
        using u b by (auto simp: close_fd_def fun_eq_iff)
      ultimately have f: "close_fd u1 (close_fd u0 (close_fd b1 (close_fd b0 t'))) = ptable s"
        using t u b by (auto simp: close_fd_def fun_eq_iff)
      have g: "close_fd u1 (close_fd b1 t') = (ptable s)(b0 \<mapsto> fst (broker_files env), u0 \<mapsto> fst (bulk_files env))"
        using u b by (auto simp: close_fd_def fun_eq_iff)
      have "ptable s u0 = None" "b0 \<noteq> u0" using u b by (auto split: if_splits)
      then have fresh: "ptable s b0 = None \<and> ptable s u0 = None \<and> b0 \<noteq> u0 \<and> b0 \<ge> 0 \<and> u0 \<ge> 0" using b u by simp
      show ?thesis
      proof (cases "bulk_token env = None \<or> fork_pid env < 0")
        case bad: True
        then show ?thesis using True Some p S q f by (auto simp: spawn_child_def Let_def split: option.splits)
      next
        case False
        then obtain token where "bulk_token env = Some token" "\<not> fork_pid env < 0" by auto
        then have "spawn_child k env connfd s = close_server connfd
          (s\<lparr>ptable := (ptable s)(b0 \<mapsto> fst (broker_files env), u0 \<mapsto> fst (bulk_files env)), broker_fds := broker_fds s @ [b0],
             bulk_routes := bulk_routes s @ [\<lparr> r_pid = fork_pid env, r_token = lupine_hex token, r_fd = u0 \<rparr>],
             connection_children := insert (fork_pid env) (connection_children s)\<rparr>)"
          using True Some p S q g by (simp add: spawn_child_def Let_def)
        then show ?thesis using fresh by blast
      qed
    qed
  qed (use True in \<open>simp add: spawn_child_def\<close>)
qed (simp add: spawn_child_def)

lemma serve_pending_ok:
  assumes "kernel_ok k" "server_ok base s" "fd \<in> set (pending s)"
  shows "server_ok base (serve_pending k env fd s)"
    and "x \<noteq> fd \<Longrightarrow> x \<in> set (pending s) \<Longrightarrow> x \<in> set (pending (serve_pending k env fd s))"
proof -
  let ?drop = "\<lambda>s' :: server. s'\<lparr>pending := filter (\<lambda>x. x \<noteq> fd) (pending s)\<rparr>"
  have plain: "server_ok base (?drop (close_server fd s))" using forget_pending [OF assms(2,3)] by simp
  have spawn: "server_ok base (?drop (spawn_child k e fd s)) \<and> pending (spawn_child k e fd s) = pending s" for e
    using spawn_cases [OF assms(1), of e fd s]
  proof (elim disjE exE conjE)
    fix b u f g token
    let ?route = "\<lparr> r_pid = fork_pid e, r_token = lupine_hex token, r_fd = u \<rparr>"
    let ?s = "s\<lparr>ptable := (ptable s)(b \<mapsto> f, u \<mapsto> g), broker_fds := broker_fds s @ [b], bulk_routes := bulk_routes s @ [?route],
       connection_children := insert (fork_pid e) (connection_children s)\<rparr>"
    assume new: "ptable s b = None" "ptable s u = None" "b \<noteq> u" "b \<ge> 0" "u \<ge> 0"
      and eq: "spawn_child k e fd s = close_server fd ?s"
    have "server_ok base ?s" using adopt_child [OF assms(2) new, of ?route f g] by simp
    then show ?thesis using forget_pending [of base ?s fd] assms(3) unfolding eq by simp
  qed (use plain in simp)
  show "server_ok base (serve_pending k env fd s)"
    "x \<noteq> fd \<Longrightarrow> x \<in> set (pending s) \<Longrightarrow> x \<in> set (pending (serve_pending k env fd s))"
    using assms(2) plain spawn by (auto simp: serve_pending_def classify_def Let_def split: peek.splits)
qed

lemma fold_over_books:
  assumes step: "\<And>s fd. P s \<Longrightarrow> fd \<in> set (book s) \<Longrightarrow> P (f fd s)"
    and keeps: "\<And>s fd x. P s \<Longrightarrow> fd \<in> set (book s) \<Longrightarrow> x \<noteq> fd \<Longrightarrow> x \<in> set (book s) \<Longrightarrow> x \<in> set (book (f fd s))"
    and "P s" "set fds \<subseteq> set (book s)" "distinct fds"
  shows "P (fold f fds s)"
  using assms(3-5)
proof (induction fds arbitrary: s)
  case (Cons fd fds)
  have "x \<in> set (book (f fd s))" if "x \<in> set fds" for x using Cons.prems keeps [of s fd x] that by auto
  then have "set fds \<subseteq> set (book (f fd s))" by blast
  then show ?case using Cons step [of s fd] by simp
qed simp

lemma server_ok_distinct:
  assumes "server_ok base s"
  shows "distinct (broker_fds s)" "distinct (pending s)"
proof -
  have "(\<And>x. count_list xs x \<le> 1) \<Longrightarrow> distinct xs" for xs :: "int list"
  proof (induction xs)
    case (Cons y ys)
    have "count_list ys x \<le> 1" for x using Cons.prems [of x] by (auto split: if_splits)
    moreover have "y \<notin> set ys" using Cons.prems [of y] count_list_pos [of y ys] by auto
    ultimately show ?case using Cons.IH by simp
  qed simp
  moreover have "count_list (broker_fds s) x \<le> 1" "count_list (pending s) x \<le> 1" for x
    using owned_once(1) [OF assms, of x] by (auto simp: owners_def)
  ultimately show "distinct (broker_fds s)" "distinct (pending s)" by blast+
qed

lemma server_round_ok:
  assumes "kernel_ok k" "round_ok env" "server_ok base s"
  shows "server_ok base (snd (server_round k env s))"
proof -
  define s1 where "s1 = (if exited env \<noteq> [] then lupine_reap_connection_children (exited env) s else s)"
  have ok1: "server_ok base s1" using assms(3) reap_ok by (simp add: s1_def)
  define s2 where "s2 = fold (serve_broker k env) (broker_fds s1) s1"
  have ok2: "server_ok base s2 \<and> pending s2 = pending s1"
    unfolding s2_def
    by (rule fold_over_books [where book = broker_fds])
      (use serve_broker_ok [OF assms(1,2)] ok1 server_ok_distinct [OF ok1] in auto)
  define s3 where "s3 = fold (serve_pending k env) (pending s1) s2"
  have ok3: "server_ok base s3"
    unfolding s3_def
    by (rule fold_over_books [where book = pending])
      (use serve_pending_ok [OF assms(1)] ok2 server_ok_distinct [OF ok1] in auto)
  have fresh: "k (ptable s3) = Some fd \<Longrightarrow> ptable s3 fd = None \<and> fd \<ge> 0" for fd using assms(1) by (simp add: kernel_ok_def)
  then have undo: "k (ptable s3) = Some fd \<Longrightarrow> close_server fd (s3\<lparr>ptable := (ptable s3)(fd \<mapsto> f)\<rparr>) = s3" for fd f
    by (auto simp: close_fd_def fun_upd_idem)
  have "server_ok base (snd (accept_connection k env s3))"
    using ok3 reap_ok accept_ok [OF ok3] fresh undo
    by (auto simp: accept_connection_def Let_def split: option.splits)
  then show ?thesis using ok1 ok3
    by (simp add: server_round_def s1_def [symmetric] Let_def s2_def [symmetric] s3_def [symmetric])
qed

definition server_start :: "int set \<Rightarrow> server \<Rightarrow> bool" where
  "server_start base s \<longleftrightarrow> sockfd s \<notin> base \<and> dom (ptable s) = insert (sockfd s) base \<and> (\<forall>fd \<in> dom (ptable s). fd \<ge> 0) \<and>
     parked s = Map.empty \<and> connection_children s = {} \<and> bulk_routes s = [] \<and> broker_fds s = [] \<and> pending s = []"

definition server_step :: "server \<Rightarrow> server \<Rightarrow> bool" where
  "server_step s s' \<longleftrightarrow> (\<exists>k env. kernel_ok k \<and> round_ok env \<and> server_round k env s = (True, s'))"

lemma server_start_ok: "server_start base s \<Longrightarrow> server_ok base s"
  by (auto simp: server_start_def server_ok_def owners_def)

lemma server_step_ok: "server_ok base s \<Longrightarrow> server_step s s' \<Longrightarrow> server_ok base s'"
  unfolding server_step_def by (metis server_round_ok snd_conv)

interpretation sp: step_invariant "server_start base" server_step "server_ok base" for base
  by unfold_locales (auto intro: server_start_ok server_step_ok)

section \<open>Routing, dispatch and ending\<close>

lemma hex_byte_inj:
  assumes "hex_digits ! unat (drop_bit 4 a) = hex_digits ! unat (drop_bit 4 b)" "hex_digits ! unat (and a 15) = hex_digits ! unat (and b 15)"
  shows "a = (b :: u8)"
proof -
  have d: "distinct hex_digits" "length hex_digits = 16" by code_simp+
  have mask: "and c 15 = take_bit 4 c" for c :: u8 by (simp add: take_bit_eq_mask mask_eq_exp_minus_1)
  have lt: "unat (drop_bit 4 c) < 16 \<and> unat (and c 15) < 16" for c :: u8
  proof -
    have "unat c < 256" using unsigned_less [of c, where ?'a = nat] by simp
    then have "unat (drop_bit 4 c) < 16" by (simp add: drop_bit_eq_div unat_div less_mult_imp_div_less)
    moreover have "unat (and c 15) < 16" unfolding mask by (simp add: take_bit_eq_mod unat_mod)
    ultimately show ?thesis by blast
  qed
  have eq: "unat x = unat y \<Longrightarrow> x = y" for x y :: u8 by (rule unsigned_word_eqI)
  have e: "drop_bit 4 a = drop_bit 4 b" "and a 15 = and b 15"
    using assms lt [of a] lt [of b] d by (auto simp: nth_eq_iff_index_eq intro: eq)
  then show ?thesis unfolding mask by (metis bits_ident)
qed

lemma lupine_hex_inj: "lupine_hex xs = lupine_hex ys \<Longrightarrow> xs = ys"
proof (induction xs arbitrary: ys)
  case Nil
  then show ?case by (cases ys) (auto simp: lupine_hex_def)
next
  case (Cons x xs)
  then show ?case by (cases ys) (auto simp: lupine_hex_def dest: hex_byte_inj)
qed

lemma lupine_hex_length: "length (lupine_hex bytes) = 2 * length bytes"
  by (induction bytes) (auto simp: lupine_hex_def)

text \<open>A complete preamble reaches the child that drew its token, with the file of the connection.\<close>

lemma bulk_connection_reaches_session:
  assumes "route \<in> set (bulk_routes s)" "distinct (map r_token (bulk_routes s))" "\<forall>r \<in> set (bulk_routes s). length (r_token r) = 32"
    and "ptable s connfd = Some f" "connfd \<ge> 0"
  shows "classify k env (Peeked (LUPINE_BULK_PREAMBLE_MAGIC @ r_token route @ rest)) connfd s =
    (True, Some (r_pid route, Some (store_msg zero_msg, Some f)), close_server connfd s)"
proof -
  have m: "length LUPINE_BULK_PREAMBLE_MAGIC = 8" by (simp add: LUPINE_BULK_PREAMBLE_MAGIC_def)
  have len: "length (r_token route) = 32" using assms(1,3) by blast
  have "take LUPINE_BULK_PREAMBLE_BYTES (LUPINE_BULK_PREAMBLE_MAGIC @ r_token route @ rest) = LUPINE_BULK_PREAMBLE_MAGIC @ r_token route"
    using m len by (simp add: LUPINE_BULK_PREAMBLE_BYTES_def)
  moreover have "is_bulk_preamble (LUPINE_BULK_PREAMBLE_MAGIC @ r_token route)"
    using m len by (simp add: is_bulk_preamble_def LUPINE_BULK_PREAMBLE_BYTES_def)
  moreover have "List.find (\<lambda>r. take (length (r_token r)) (r_token route) = r_token r) routes = Some route"
    if "route \<in> set routes" "distinct (map r_token routes)" "\<forall>r \<in> set routes. length (r_token r) = 32" for routes
    using that len by (induction routes) (auto simp: image_iff)
  then have "bulk_owner (LUPINE_BULK_PREAMBLE_MAGIC @ r_token route) (bulk_routes s) = Some route"
    using assms(1-3) m by (simp add: bulk_owner_def)
  ultimately show ?thesis using assms(4,5)
    by (simp add: classify_def Let_def lupine_ipc_send_fd_def lupine_send_broker_msg_def)
qed

text \<open>A handler of CUDA or NCCL that is not part of a bulk copy runs inside the call gate.\<close>

lemma dispatch_gated:
  assumes "rpc_server_dispatch b metadata_op chunk_op read_op handlers run respond metadata op = (result, events)"
    and "handlers op = Some h" "backend h = Cuda \<or> backend h = Nccl" "op \<noteq> chunk_op" "op \<noteq> read_op" "Run f \<in> set events"
  shows "events = [Enter_Gate, Run f, Leave_Gate]"
  using assms by (auto simp: rpc_server_dispatch_def Let_def split: if_splits option.splits rpc_backend.splits)

text \<open>
  Every connection of a CUDA server finishes its checkpoint once, and the state of a connection that
  was served is released only after that; the result is the result of the checkpoint.
\<close>

lemma checkpoint_before_cleanup:
  assumes "client_handler env = (events, result)" "with_cuda env"
  shows "count_list events Checkpoint_Finish = 1" "result = finish_result env"
    "Serve_Lanes \<in> set events \<Longrightarrow>
       \<exists>before. events = before @ [Checkpoint_Finish, Cleanup_Connection, Cleanup_Identity, Destroy_Conn] \<and> Serve_Lanes \<in> set before"
  using assms by (auto simp: client_handler_def lupine_client_handler_exit_def split: if_splits)

lemma lanes_bounded: "length lanes \<le> MAX_LANES \<Longrightarrow> length (lupine_serve_lanes lanes rounds) \<le> MAX_LANES"
proof (induction rounds arbitrary: lanes)
  case (Cons r rounds)
  have "length (filter (\<lambda>l. \<not> lane_done r l) lanes) \<le> MAX_LANES" using Cons.prems length_filter_le le_trans by blast
  then show ?case using Cons by (auto simp: Let_def)
qed simp

text \<open>The parent ends well exactly when every child did.\<close>

lemma await_all:
  assumes "set pids = children" "distinct pids"
  shows "await_children children ok (map (\<lambda>p. Child p (fine p)) pids) = Some (ok \<and> (\<forall>p \<in> children. fine p))"
  using assms
proof (induction pids arbitrary: children ok)
  case Nil
  then show ?case by (simp add: await_children.simps)
next
  case (Cons p pids)
  have "await_children (children - {p}) (ok \<and> fine p) (map (\<lambda>p. Child p (fine p)) pids) =
      Some ((ok \<and> fine p) \<and> (\<forall>q \<in> children - {p}. fine q))"
    using Cons.prems by (intro Cons.IH) auto
  moreover have "children \<noteq> {}" "p \<in> children" using Cons.prems by auto
  ultimately show ?case by (subst await_children.simps) auto
qed

lemma parse_port_roundtrip:
  assumes "1 \<le> n" "n \<le> 65535"
  shows "parse_port (Some (to_decimal n)) = Some (int n)"
proof -
  have d: "\<forall>c \<in> set (to_decimal n). is_digit c" by (rule to_decimal_digits)
  obtain c cs where c: "to_decimal n = c # cs" by (cases "to_decimal n") auto
  have "is_digit c" using d c by simp
  then have sp: "\<not> is_space c" "c \<noteq> CHR ''-''" "c \<noteq> CHR ''+''"
    by (auto simp: is_digit_def is_space_def code_def)
  have tw: "takeWhile is_digit (to_decimal n) = to_decimal n" "dropWhile is_digit (to_decimal n) = []"
    using d by (simp_all add: takeWhile_eq_all_conv)
  have "dropWhile is_space (to_decimal n) = to_decimal n" "hd (to_decimal n) = c" using sp by (simp_all add: c)
  then have "strtol (to_decimal n) = Some (int n, [])"
    using assms sp by (simp add: strtol_def Let_def clamp_long_def LONG_MAX_def tw)
  then show ?thesis using assms by (simp add: parse_port_def)
qed

text \<open>
  What a forked child keeps open: the connection, its ends of the two socket pairs, what the server
  was started with, and the descriptors parked in the parent at the time.
\<close>

lemma fold_close: "fold close_fd fds table fd = (if fd \<in> set fds then None else table fd)"
  by (induction fds arbitrary: table) (auto simp: close_fd_def)

lemma child_keeps:
  assumes "server_ok base s" "ptable s b0 = None" "ptable s b1 = None" "ptable s u0 = None" "ptable s u1 = None" "distinct [b0, b1, u0, u1]"
    and "connfd \<in> set (pending s)"
  shows "dom (child_table s ((ptable s)(b0 \<mapsto> f, b1 \<mapsto> g, u0 \<mapsto> h, u1 \<mapsto> i)) connfd b0 u0) =
    base \<union> {connfd, b1, u1} \<union> ran (parked s)"
proof -
  have once: "owners s fd = (if ptable s fd \<noteq> None \<and> fd \<notin> base then 1 else 0)" and base: "fd \<in> base \<Longrightarrow> ptable s fd \<noteq> None" for fd
    using assms(1) by (auto simp: server_ok_def)
  have none: "owners s fd = 0 \<longleftrightarrow> fd \<noteq> sockfd s \<and> fd \<notin> set (broker_fds s) \<and> fd \<notin> r_fd ` set (bulk_routes s) \<and>
      fd \<notin> set (pending s) \<and> fd \<notin> ran (parked s)" for fd
    by (auto simp: owners_def count_list_0_iff)
  have other: "fd \<noteq> sockfd s \<and> fd \<notin> set (broker_fds s) \<and> fd \<notin> r_fd ` set (bulk_routes s) \<and> (fd \<in> set (pending s) \<longrightarrow> fd \<notin> ran (parked s))"
    if "fd \<in> set (pending s) \<or> fd \<in> ran (parked s)" for fd
  proof -
    have "fd \<in> set (pending s) \<Longrightarrow> count_list (pending s) fd \<ge> 1" by (rule count_list_pos)
    then have "count_list (broker_fds s) fd = 0 \<and> count_list (map r_fd (bulk_routes s)) fd = 0 \<and> fd \<noteq> sockfd s \<and>
        (fd \<in> set (pending s) \<longrightarrow> fd \<notin> ran (parked s))"
      using that owned_once(1) [OF assms(1), of fd] by (auto simp: owners_def split: if_splits)
    then show ?thesis by (auto simp: count_list_0_iff)
  qed
  have open_iff: "ptable s fd \<noteq> None \<longleftrightarrow> fd \<in> base \<or> owners s fd \<noteq> 0" for fd using once [of fd] base [of fd] by auto
  have "child_table s ((ptable s)(b0 \<mapsto> f, b1 \<mapsto> g, u0 \<mapsto> h, u1 \<mapsto> i)) connfd b0 u0 fd \<noteq> None \<longleftrightarrow>
      fd \<in> base \<union> {connfd, b1, u1} \<union> ran (parked s)" for fd
  proof (cases "fd \<in> {b0, b1, u0, u1}")
    case True
    then have "ptable s fd = None" using assms(2-5) by auto
    then have z: "owners s fd = 0" "fd \<notin> base" using open_iff [of fd] by auto
    then have "fd \<noteq> connfd" using none [of fd] assms(7) by auto
    then show ?thesis using True assms(6) z none [of fd] by (auto simp: child_table_def fold_close close_fd_def)
  next
    case False
    have zero: "fd \<in> base \<Longrightarrow> owners s fd = 0" using once [of fd] by simp
    have iff: "child_table s ((ptable s)(b0 \<mapsto> f, b1 \<mapsto> g, u0 \<mapsto> h, u1 \<mapsto> i)) connfd b0 u0 fd \<noteq> None \<longleftrightarrow>
        (fd \<in> base \<or> owners s fd \<noteq> 0) \<and> fd \<noteq> sockfd s \<and> fd \<notin> set (broker_fds s) \<and> fd \<notin> r_fd ` set (bulk_routes s) \<and>
        (fd \<in> set (pending s) \<longrightarrow> fd = connfd)"
      using False open_iff [of fd] by (auto simp: child_table_def fold_close close_fd_def)
    show ?thesis unfolding iff using False zero none [of fd] other [of fd] assms(7)
      by (cases "fd \<in> set (pending s)"; cases "fd \<in> ran (parked s)"; cases "fd \<in> base") auto
  qed
  then show ?thesis by (auto simp: dom_def)
qed

section \<open>Properties\<close>

text \<open>
  C14: In every state the parent of the server reaches, whatever connections, requests, exits and
  failures it meets, each of its descriptors is in exactly one of its books (the listening socket,
  broker sockets, bulk routes, pending connections, parked handles), and nothing else is open
  beyond what it was started with: no descriptor leaks and none is closed twice.
\<close>

theorem parent_descriptors_owned:
  assumes "reachable (server_start base) server_step s"
  shows "owners s fd = (if fd \<in> dom (ptable s) - base then 1 else 0)"
proof -
  have "server_ok base s" by (rule sp.inv_reachable [OF assms])
  then show ?thesis by (auto simp: server_ok_def)
qed

text \<open>A server with its three standard descriptors and the listening socket accepts a connection.\<close>

definition sample_server :: server where
  "sample_server = \<lparr> parked = Map.empty, ptable = [0 \<mapsto> 0, 1 \<mapsto> 0, 2 \<mapsto> 0, 3 \<mapsto> 1], sockfd = 3, connection_children = {},
     bulk_routes = [], broker_fds = [], pending = [] \<rparr>"

definition sample_spawn :: spawn_env where
  "sample_spawn = \<lparr> mask_ok = True, broker_pair_ok = True, broker_files = (10, 11), bulk_pair_ok = True, bulk_files = (12, 13),
     bulk_token = Some zero_token, fork_pid = 500 \<rparr>"

definition sample_round :: round_env where
  "sample_round = \<lparr> exited = [], termination_requested = False, poll_ok = True, ready = (\<lambda>fd. True), requests = (\<lambda>fd. None),
     answered = (\<lambda>fd. True), peeks = (\<lambda>fd. Not_Yet), spawns = (\<lambda>fd. sample_spawn), accepted = Some 20,
     late_exited = [], late_termination = False \<rparr>"

theorem parent_descriptors_witness:
  "\<exists>s. reachable (server_start {0, 1, 2}) server_step s \<and> pending s = [4] \<and> owners s 4 = 1"
proof -
  let ?s = "sample_server\<lparr>ptable := (ptable sample_server)(4 \<mapsto> 20), pending := [4]\<rparr>"
  have "sample_kernel (ptable sample_server) = Some 4"
    by (simp add: sample_kernel_def sample_server_def upt_rec)
  then have r: "server_round sample_kernel sample_round sample_server = (True, ?s)"
    by (simp add: server_round_def sample_round_def accept_connection_def) (simp add: sample_server_def)
  have "round_ok sample_round" by (simp add: round_ok_def child_request_def sample_round_def)
  then have step: "server_step sample_server ?s" using r sample_kernel_ok by (auto simp: server_step_def)
  have "server_start {0, 1, 2} sample_server" by (auto simp: server_start_def sample_server_def)
  then have reach: "reachable (server_start {0, 1, 2}) server_step ?s" using step by (blast intro: reachable.intros)
  then have "owners ?s 4 = 1" using parent_descriptors_owned [of "{0, 1, 2}" ?s 4] by simp
  then show ?thesis using reach by (intro exI [of _ ?s]) simp
qed

end
