(* ===== verification/Spec2Isabelle.thy ===== *)
theory Spec2Isabelle
  imports Alloc_Cache Managed_Advice Events Visible_Devices Http_Dispatch Va_Arena
    Rpc_Async Rpc_Builder Rpc_Protocol Rpc_Fence Checkpoint_Gate Transport Routing Smemcpy_Theorems
    Fatbin Ipc Server_Process
begin

text \<open>
  A verification library for \<^bold>\<open>lupine\<close>, a bridge that runs the GPU calls of a client
  process on remote servers. A client shim intercepts each call, routes it to the
  server that owns the objects it names, and sends it over a multiplexed connection;
  the server replays it on its driver and answers. Both sides share the RPC layer,
  the address arenas and the checkpoint gates.

  \<^bold>\<open>How the model is made.\<close> Sizes, addresses and handles are 64-bit words, so sums and
  products wrap as in the code; \<^verbatim>\<open>std::map\<close> is a sorted association list with iterators
  as positions; a function that fails returns an option, a sum or the code's own
  result; blocking is \<^term>\<open>None\<close> or a step that is not enabled. Threads are steps of a
  relation, and an invariant is carried to all reachable states by the locale
  \<^verbatim>\<open>step_invariant\<close>. The operating system, the CUDA driver and the peer are parameters:
  functions or records of answers.

  \<^bold>\<open>Theories and the code they model.\<close>

  \<^item> \<^verbatim>\<open>Prelude\<close>, \<^verbatim>\<open>Std_String\<close>, \<^verbatim>\<open>Bytes\<close>: words, the ordered map with its contract as the
    locale \<^verbatim>\<open>keyed_store\<close>, reachability, C++ strings, decimal numerals, and the
    little-endian encodings with their round trips.
  \<^item> \<^verbatim>\<open>Alloc_Cache\<close> (\<^verbatim>\<open>cache.cpp\<close>): the cache of device allocations, the current-context
    cache and the context cache of a lane. After any insertions and removals a lookup
    finds the greatest base that contains the pointer; the overlap test equals its
    specification; the lane cache refines a partial function.
  \<^item> \<^verbatim>\<open>Managed_Advice\<close> (\<^verbatim>\<open>managed_advice.h\<close>): the run-length map of advice refines a
    function from pages to advice, and a query reports all pages of its range.
  \<^item> \<^verbatim>\<open>Events\<close> (\<^verbatim>\<open>events.cpp\<close>): the table of completed events; a query answered locally
    was answered by the server for the newest record of the event.
  \<^item> \<^verbatim>\<open>Visible_Devices\<close> (\<^verbatim>\<open>visible_devices.cpp\<close>): selection by index and UUID.
  \<^item> \<^verbatim>\<open>Http_Dispatch\<close> (\<^verbatim>\<open>dispatch.cpp\<close>, \<^verbatim>\<open>client_bundle.cpp\<close>): the decision between HTTP/2 and
    HTTP/1.1, responses that read back, and the client bundle sent completely.
  \<^item> \<^verbatim>\<open>Va_Arena\<close> (\<^verbatim>\<open>rpc.cpp\<close>): reservation of the address arenas, with \<^verbatim>\<open>mmap\<close> as a
    parameter, and claims by concurrent threads with compare-and-exchange: claimed
    spans are disjoint and inside the arena.
  \<^item> \<^verbatim>\<open>Rpc_Async\<close>, \<^verbatim>\<open>Rpc_Builder\<close>, \<^verbatim>\<open>Rpc_Protocol\<close>, \<^verbatim>\<open>Rpc_Fence\<close> (\<^verbatim>\<open>rpc.cpp\<close>): completion of
    fire-and-forget calls, the request and response builder with nested requests, the
    dispatcher, pitched transfers, and the fences that order a request behind the
    calls published before it, on every lane and under every interleaving.
  \<^item> \<^verbatim>\<open>Checkpoint_Gate\<close> (\<^verbatim>\<open>checkpoint.cpp\<close>): the gates for calls and for captures as step
    relations over any number of threads; a drained gate excludes calls, and an owning
    drain is never stuck.
  \<^item> \<^verbatim>\<open>Transport\<close> (\<^verbatim>\<open>transport.cpp\<close>): endpoint lists, the negotiation of an arena, the pool
    of connections and its bulk lanes, the request that resumes a session.
  \<^item> \<^verbatim>\<open>Routing\<close> (\<^verbatim>\<open>routing.cpp\<close>): the device table, owner maps and device pointers; an
    address inside a recorded allocation routes to the server that made it.
  \<^item> \<^verbatim>\<open>Fatbin\<close> (\<^verbatim>\<open>fatbin_filter.h\<close>, \<^verbatim>\<open>lupine_fatbin.h\<close>, \<^verbatim>\<open>hip_fatbin.h\<close>, the library images of
    \<^verbatim>\<open>cuda_client.cpp\<close>): the walks over fat binary containers against the container read as
    a list of members. The filter keeps exactly the members a device may use, and a load
    refused by the client has no such member.
  \<^item> \<^verbatim>\<open>Ipc\<close> (\<^verbatim>\<open>ipc.cpp\<close>, the shareable-handle calls of \<^verbatim>\<open>cuda_client.cpp\<close> and
    \<^verbatim>\<open>cuda_server.cpp\<close>): proxy files, broker messages and the parent that parks
    descriptors. A handle exported by one client reaches any importer, and a lost reply
    is taken for success.
  \<^item> \<^verbatim>\<open>Server_Process\<close> (\<^verbatim>\<open>server.cpp\<close>, \<^verbatim>\<open>rpc_server.cpp\<close>): the round of the server's parent with
    accepting, classifying, forking, brokering and reaping, and in a child the dispatch
    of requests, the lanes and the connection handler. Every descriptor of the parent
    is in exactly one of its books in every reachable state.
  \<^item> \<^verbatim>\<open>Smemcpy_Dispatch\<close>, \<^verbatim>\<open>Smemcpy_Kernels\<close> (\<^verbatim>\<open>ops/smemcpy_dispatch.cpp\<close>,
    \<^verbatim>\<open>ops/cuda_smemcpy.cu\<close>): the scatter copy, its launch decision and its kernels as the
    accesses of each thread. \<^verbatim>\<open>Smemcpy_Runs\<close> proves that every interleaving ends (the
    compare-and-swap loops included) and what it leaves behind, \<^verbatim>\<open>Smemcpy_Correct\<close>,
    \<^verbatim>\<open>Smemcpy_Cover\<close> and \<^verbatim>\<open>Smemcpy_Vector\<close> that the kernels cover the fragment,
    \<^verbatim>\<open>Smemcpy_Table\<close> and \<^verbatim>\<open>Smemcpy_Launch\<close> that each decision leads to a correct launch,
    and \<^verbatim>\<open>Smemcpy_Theorems\<close> states the result.

  \<^bold>\<open>Fuel and loops.\<close> The negotiation of an arena takes fuel, one unit per handshake:
  sixteen are enough when the stated windows agree (eight slots of each of two
  windows), and a theorem shows that a restless peer exhausts any amount. Grid-stride
  loops are partial functions into options and are proved to return for fragments
  below 2^63 bytes. Retry loops over a compare-and-exchange are steps of a relation,
  one attempt each.

  \<^bold>\<open>Not modelled.\<close> The shims of CUDA, HIP, NCCL, NVML and NVSHMEM and the generated call
  stubs translate thousands of driver entry points one by one; what they mean is
  defined by the drivers. The HTTP/2 session drives \<^verbatim>\<open>nghttp2\<close>, whose callbacks and
  flow control are not in the repository. The checkpoint service of a child
  loads an optional provider and runs under signals, the monitoring code samples the
  driver into shared memory, and device standard output and the ioctl proxy forward
  system calls on descriptors of the driver. Of the server process the bulk
  connection thread, the signal handlers, the embedding entry point and the set-up of
  the listening socket are left out. Statistics,
  dialling with back-off, TLS and the reconnect loop are left out of the components
  that are modelled in part.
\<close>

end
